(* ===== verification/Go_Prelude.thy ===== *)
theory Go_Prelude
  imports Main "HOL-Library.Word" "HOL-Library.Sublist"
begin

text \<open>
  Shared vocabulary of the development. Go strings and byte slices are byte sequences, so both
  are \<open>string\<close> (a list of 8-bit characters). A Go function that returns a value and
  an \<open>error\<close> is a function into a sum type, \<open>Inl\<close> for the error. Machine integers are
  \<open>64 word\<close> where the code indexes or wraps them, and \<open>int\<close> with \<open>wrap64\<close> written out
  for signed durations. The collections of facts used by the component theories are
  declared here, together with the generic lemmas on results, bytes and lists.
\<close>

section \<open>Collections of facts\<close>

named_theorems go_simps \<open>characteristic equations of the Go library operations\<close>
named_theorems world_simps \<open>how an operation changes the clock and the event history\<close>
named_theorems codec_simps \<open>round-trip equations of the encoders and decoders\<close>

section \<open>Types\<close>

type_synonym bytes = string
type_synonym u64 = "64 word"
type_synonym u8 = "8 word"

section \<open>Results\<close>

text \<open>\<open>x, err := f(); if err != nil { return wrap(err) }\<close>.\<close>

definition bind_r :: "'e + 'a \<Rightarrow> ('e \<Rightarrow> 'f) \<Rightarrow> ('a \<Rightarrow> 'f + 'b) \<Rightarrow> 'f + 'b" where
  "bind_r r wrap k = (case r of Inl e \<Rightarrow> Inl (wrap e) | Inr x \<Rightarrow> k x)"

lemma bind_r_simps [simp]:
  "bind_r (Inl e) wrap k = Inl (wrap e)"
  "bind_r (Inr x) wrap k = k x"
  by (simp_all add: bind_r_def)

lemma bind_r_Inr_iff:
  "bind_r r wrap k = Inr y \<longleftrightarrow> (\<exists>x. r = Inr x \<and> k x = Inr y)"
  by (cases r) auto

definition is_ok :: "'e + 'a \<Rightarrow> bool" where
  "is_ok r = (case r of Inl _ \<Rightarrow> False | Inr _ \<Rightarrow> True)"

lemma is_ok_simps [simp]: "is_ok (Inr x)" "\<not> is_ok (Inl e)"
  by (simp_all add: is_ok_def)

lemma is_ok_iff: "is_ok r \<longleftrightarrow> (\<exists>x. r = Inr x)"
  by (cases r) auto

section \<open>Bytes\<close>

abbreviation byte :: "char \<Rightarrow> nat" where
  "byte c \<equiv> of_char c"

abbreviation byte_char :: "nat \<Rightarrow> char" where
  "byte_char n \<equiv> char_of n"

lemma byte_less [simp]: "byte c < (256::nat)"
  by (metis nat_of_char_less_256)

lemma byte_byte_char [simp]: "n < 256 \<Longrightarrow> byte (byte_char n) = n"
  by (simp add: of_char_of take_bit_eq_mod)

lemma byte_eq_iff: "byte c = (byte d :: nat) \<longleftrightarrow> c = d"
  by simp

definition zero_bytes :: "bytes \<Rightarrow> bytes" where
  "zero_bytes b = map (\<lambda>_. CHR 0x00) b"

lemma zero_bytes_length [simp]: "length (zero_bytes b) = length b"
  by (simp add: zero_bytes_def)

lemma zero_bytes_set: "c \<in> set (zero_bytes b) \<Longrightarrow> c = CHR 0x00"
  by (auto simp: zero_bytes_def)

section \<open>Signed 64-bit arithmetic\<close>

text \<open>
  Two's complement wrap-around of a mathematical integer to the range of \<open>int64\<close>.
\<close>

definition wrap64 :: "int \<Rightarrow> int" where
  "wrap64 x = (x + 9223372036854775808) mod 18446744073709551616 - 9223372036854775808"

definition max_int64 :: int where
  "max_int64 = 9223372036854775807"

definition min_int64 :: int where
  "min_int64 = - 9223372036854775808"

lemma wrap64_range: "min_int64 \<le> wrap64 x \<and> wrap64 x \<le> max_int64"
  by (simp add: wrap64_def min_int64_def max_int64_def)

lemma wrap64_id: "min_int64 \<le> x \<Longrightarrow> x \<le> max_int64 \<Longrightarrow> wrap64 x = x"
  by (simp add: wrap64_def min_int64_def max_int64_def)

lemma wrap64_nonneg_id: "0 \<le> x \<Longrightarrow> x \<le> max_int64 \<Longrightarrow> wrap64 x = x"
  by (simp add: wrap64_id min_int64_def)

section \<open>A codec: an encoder with its decoder\<close>

text \<open>
  The interface every serialisation of the SDK offers to its client: on the valid values the
  decoder inverts the encoder. Injectivity of the encoder and uniqueness of the decoded value
  follow once for all of them.
\<close>

locale codec =
  fixes enc :: "'a \<Rightarrow> 'b"
    and dec :: "'b \<Rightarrow> 'e + 'a"
    and valid :: "'a \<Rightarrow> bool"
  assumes dec_enc: "valid x \<Longrightarrow> dec (enc x) = Inr x"
begin

lemma enc_inj: "valid x \<Longrightarrow> valid y \<Longrightarrow> enc x = enc y \<Longrightarrow> x = y"
proof -
  assume v: "valid x" "valid y" and eq: "enc x = enc y"
  have "Inr x = dec (enc x)"
    using v(1) by (simp add: dec_enc)
  also have "\<dots> = dec (enc y)"
    by (simp only: eq)
  also have "\<dots> = Inr y"
    using v(2) by (simp add: dec_enc)
  finally show "x = y" by simp
qed

lemma enc_inj_on: "inj_on enc {x. valid x}"
  by (auto intro: inj_onI enc_inj)

lemma dec_enc_unique: "valid x \<Longrightarrow> dec (enc x) = Inr y \<Longrightarrow> y = x"
  by (simp add: dec_enc)

lemma dec_enc_ok: "valid x \<Longrightarrow> is_ok (dec (enc x))"
  by (simp add: dec_enc)

end

text \<open>How replacing an element changes a count.\<close>

lemma count_update:
  assumes "i < length ps"
  shows "length (filter P (ps[i := p])) + (if P (ps ! i) then 1 else 0) =
    length (filter P ps) + (if P p then 1 else 0)"
  using assms
proof (induction ps arbitrary: i)
  case (Cons q ps)
  then show ?case by (cases i) auto
qed simp

end
