(* ===== verification/Go_Strings.thy ===== *)
theory Go_Strings
  imports Go_Prelude
begin

text \<open>
  The operations of Go's \<open>strings\<close> package that the SDK calls, on byte strings:
  \<open>HasPrefix\<close>, \<open>TrimPrefix\<close>, \<open>TrimSuffix\<close>, \<open>Trim\<close>, \<open>TrimRight\<close>, \<open>TrimSpace\<close>, \<open>Fields\<close>,
  \<open>Split\<close>/\<open>SplitSeq\<close> with a one-byte separator and \<open>Index\<close>, and the header-name
  canonicalisation that \<open>http.Header\<close> performs. White space is \<open>unicode.IsSpace\<close> on the
  UTF-8 encoding.
\<close>

section \<open>Prefixes and suffixes\<close>

definition has_prefix :: "string \<Rightarrow> string \<Rightarrow> bool" where
  "has_prefix s p = (take (length p) s = p)"

definition trim_prefix :: "string \<Rightarrow> string \<Rightarrow> string" where
  "trim_prefix s p = (if has_prefix s p then drop (length p) s else s)"

definition has_suffix :: "string \<Rightarrow> string \<Rightarrow> bool" where
  "has_suffix s t = (length t \<le> length s \<and> drop (length s - length t) s = t)"

definition trim_suffix :: "string \<Rightarrow> string \<Rightarrow> string" where
  "trim_suffix s t = (if has_suffix s t then take (length s - length t) s else s)"

lemma has_prefix_append [simp]: "has_prefix (p @ s) p"
  by (simp add: has_prefix_def)

lemma has_prefixE: "has_prefix s p \<Longrightarrow> (\<And>t. s = p @ t \<Longrightarrow> thesis) \<Longrightarrow> thesis"
  by (metis append_take_drop_id has_prefix_def)

lemma has_suffix_append [simp]: "has_suffix (s @ t) t"
  by (simp add: has_suffix_def)

lemma trim_prefix_append [simp]: "trim_prefix (p @ s) p = s"
  by (simp add: trim_prefix_def)

lemma trim_suffix_append [simp]: "trim_suffix (s @ t) t = s"
  by (simp add: trim_suffix_def)

section \<open>Trim with a set of ASCII bytes\<close>

definition trim_left_set :: "string \<Rightarrow> string \<Rightarrow> string" where
  "trim_left_set s cs = dropWhile (\<lambda>c. c \<in> set cs) s"

definition trim_right_set :: "string \<Rightarrow> string \<Rightarrow> string" where
  "trim_right_set s cs = rev (dropWhile (\<lambda>c. c \<in> set cs) (rev s))"

definition trim_set :: "string \<Rightarrow> string \<Rightarrow> string" where
  "trim_set s cs = trim_right_set (trim_left_set s cs) cs"

lemma trim_right_set_last:
  "trim_right_set s cs \<noteq> [] \<Longrightarrow> last (trim_right_set s cs) \<notin> set cs"
  using hd_dropWhile [of "\<lambda>c. c \<in> set cs" "rev s"]
  by (simp add: trim_right_set_def last_rev)

lemma trim_right_set_id: "s = [] \<or> last s \<notin> set cs \<Longrightarrow> trim_right_set s cs = s"
  by (cases s rule: rev_cases) (auto simp: trim_right_set_def)

lemma trim_right_set_append:
  "p \<noteq> [] \<Longrightarrow> last p \<notin> set cs \<Longrightarrow> trim_right_set (p @ s) cs = p @ trim_right_set s cs"
  by (cases p rule: rev_cases) (auto simp: trim_right_set_def dropWhile_append dropWhile_eq_self_iff)

lemma trim_left_set_id: "s = [] \<or> hd s \<notin> set cs \<Longrightarrow> trim_left_set s cs = s"
  by (cases s) (auto simp: trim_left_set_def)

lemma trim_set_id:
  "s \<noteq> [] \<Longrightarrow> hd s \<notin> set cs \<Longrightarrow> last s \<notin> set cs \<Longrightarrow> trim_set s cs = s"
  by (simp add: trim_set_def trim_left_set_id trim_right_set_id)

lemma trim_right_set_idem [simp]:
  "trim_right_set (trim_right_set s cs) cs = trim_right_set s cs"
  using trim_right_set_id trim_right_set_last by blast

lemma trim_right_set_prefix: "\<exists>t. s = trim_right_set s cs @ t \<and> set t \<subseteq> set cs"
proof -
  have "s = rev (dropWhile (\<lambda>c. c \<in> set cs) (rev s))
      @ rev (takeWhile (\<lambda>c. c \<in> set cs) (rev s))"
    by (metis rev_append rev_rev_ident takeWhile_dropWhile_id)
  moreover have "set (rev (takeWhile (\<lambda>c. c \<in> set cs) (rev s))) \<subseteq> set cs"
    by (auto dest: set_takeWhileD)
  ultimately show ?thesis
    unfolding trim_right_set_def by blast
qed

section \<open>White space\<close>

definition ascii_space :: "char \<Rightarrow> bool" where
  "ascii_space c = (c \<in> {CHR 0x09, CHR 0x0A, CHR 0x0B, CHR 0x0C, CHR 0x0D, CHR 0x20})"

definition space2 :: "char \<Rightarrow> char \<Rightarrow> bool" where
  "space2 c d = (c = CHR 0xC2 \<and> d \<in> {CHR 0x85, CHR 0xA0})"

definition space3 :: "char \<Rightarrow> char \<Rightarrow> char \<Rightarrow> bool" where
  "space3 c d e =
     (c = CHR 0xE1 \<and> d = CHR 0x9A \<and> e = CHR 0x80 \<or>
      c = CHR 0xE2 \<and> d = CHR 0x80 \<and>
        (128 \<le> byte e \<and> byte e \<le> 138 \<or> e \<in> {CHR 0xA8, CHR 0xA9, CHR 0xAF}) \<or>
      c = CHR 0xE2 \<and> d = CHR 0x81 \<and> e = CHR 0x9F \<or>
      c = CHR 0xE3 \<and> d = CHR 0x80 \<and> e = CHR 0x80)"

text \<open>The length in bytes of the white-space rune a string starts with, 0 if it starts with none.\<close>

fun space_len :: "string \<Rightarrow> nat" where
  "space_len [] = 0"
| "space_len [c] = (if ascii_space c then 1 else 0)"
| "space_len [c, d] = (if ascii_space c then 1 else if space2 c d then 2 else 0)"
| "space_len (c # d # e # s) =
     (if ascii_space c then 1 else if space2 c d then 2 else if space3 c d e then 3 else 0)"

text \<open>The same at the end of the string, read on the reversed bytes.\<close>

fun space_len_rev :: "string \<Rightarrow> nat" where
  "space_len_rev [] = 0"
| "space_len_rev [c] = (if ascii_space c then 1 else 0)"
| "space_len_rev [d, c] = (if ascii_space d then 1 else if space2 c d then 2 else 0)"
| "space_len_rev (e # d # c # s) =
     (if ascii_space e then 1 else if space2 d e then 2 else if space3 c d e then 3 else 0)"

lemma space_len_le: "space_len s \<le> length s"
  by (cases s rule: space_len.cases) auto

lemma space_len_rev_le: "space_len_rev s \<le> length s"
  by (cases s rule: space_len_rev.cases) auto

lemma space_len_drop: "0 < space_len s \<Longrightarrow> length s - space_len s < length s"
  using space_len_le [of s] by simp

lemma space_len_rev_drop: "0 < space_len_rev s \<Longrightarrow> length s - space_len_rev s < length s"
  using space_len_rev_le [of s] by simp

function trim_left_space :: "string \<Rightarrow> string" where
  "trim_left_space s =
     (if space_len s = 0 then s else trim_left_space (drop (space_len s) s))"
  by pat_completeness auto
termination
  by (relation "measure length") (simp_all add: space_len_drop)

function trim_left_space_rev :: "string \<Rightarrow> string" where
  "trim_left_space_rev s =
     (if space_len_rev s = 0 then s else trim_left_space_rev (drop (space_len_rev s) s))"
  by pat_completeness auto
termination
  by (relation "measure length") (simp_all add: space_len_rev_drop)

declare trim_left_space.simps [simp del] trim_left_space_rev.simps [simp del]

definition trim_right_space :: "string \<Rightarrow> string" where
  "trim_right_space s = rev (trim_left_space_rev (rev s))"

definition trim_space :: "string \<Rightarrow> string" where
  "trim_space s = trim_right_space (trim_left_space s)"

lemma trim_left_space_rev_none: "space_len_rev (trim_left_space_rev s) = 0"
  by (induction s rule: trim_left_space_rev.induct)
     (metis trim_left_space_rev.simps)

lemma trim_space_end: "space_len_rev (rev (trim_space s)) = 0"
  by (simp add: trim_space_def trim_right_space_def trim_left_space_rev_none)

lemma trim_space_id: "space_len s = 0 \<Longrightarrow> space_len_rev (rev s) = 0 \<Longrightarrow> trim_space s = s"
  by (simp add: trim_space_def trim_right_space_def trim_left_space.simps
      trim_left_space_rev.simps)

text \<open>An ASCII byte that is not white space neither starts nor ends a white-space rune.\<close>

lemma space_len_plain:
  assumes "byte c < (128 :: nat)" and "\<not> ascii_space c"
  shows "space_len (c # s) = 0"
proof -
  have "\<not> space2 c d" "\<not> space3 c d e" for d e
    using assms(1) by (auto simp: space2_def space3_def)
  with assms(2) show ?thesis by (cases "c # s" rule: space_len.cases) auto
qed

lemma space_len_rev_plain:
  assumes "byte c < (128 :: nat)" and "\<not> ascii_space c"
  shows "space_len_rev (c # s) = 0"
proof -
  have "\<not> space2 d c" "\<not> space3 e d c" for d e
    using assms(1) by (auto simp: space2_def space3_def)
  with assms(2) show ?thesis by (cases "c # s" rule: space_len_rev.cases) auto
qed

lemma trim_space_ascii:
  assumes "s \<noteq> []" and "byte (hd s) < (128 :: nat)" and "\<not> ascii_space (hd s)"
    and "byte (last s) < (128 :: nat)" and "\<not> ascii_space (last s)"
  shows "trim_space s = s"
proof (rule trim_space_id)
  show "space_len s = 0" using assms(1-3) space_len_plain by (cases s) auto
  show "space_len_rev (rev s) = 0"
    using assms(1,4,5) space_len_rev_plain by (cases s rule: rev_cases) auto
qed

section \<open>Fields\<close>

text \<open>\<open>acc\<close> is the current field, reversed.\<close>

function fields_from :: "string \<Rightarrow> string \<Rightarrow> string list" where
  "fields_from acc [] = (if acc = [] then [] else [rev acc])"
| "fields_from acc (c # s) =
     (if space_len (c # s) = 0 then fields_from (c # acc) s
      else (if acc = [] then [] else [rev acc]) @
        fields_from [] (drop (space_len (c # s)) (c # s)))"
  by pat_completeness auto
termination
  by (relation "measure (\<lambda>(_, s). length s)")
     (simp_all add: space_len_drop [of "_ # _", simplified])

declare fields_from.simps(2) [simp del]

definition fields :: "string \<Rightarrow> string list" where
  "fields s = fields_from [] s"

text \<open>Strings of white space only.\<close>

function all_space :: "string \<Rightarrow> bool" where
  "all_space s =
     (if s = [] then True
      else if space_len s = 0 then False
      else all_space (drop (space_len s) s))"
  by pat_completeness auto
termination
  by (relation "measure length") (simp_all add: space_len_drop)

declare all_space.simps [simp del]

lemma fields_from_nonempty_acc: "acc \<noteq> [] \<Longrightarrow> fields_from acc s \<noteq> []"
proof (induction acc s rule: fields_from.induct)
  case (2 acc c s)
  then show ?case by (subst fields_from.simps(2)) simp
qed simp

lemma fields_from_empty: "fields_from acc s = [] \<Longrightarrow> all_space s"
proof (induction acc s rule: fields_from.induct)
  case (1 acc)
  then show ?case by (simp add: all_space.simps)
next
  case (2 acc c s)
  show ?case
  proof (cases "space_len (c # s) = 0")
    case True
    with "2.prems" fields_from_nonempty_acc [of "c # acc" s] show ?thesis
      by (subst (asm) fields_from.simps(2)) simp
  next
    case False
    with "2.prems" have "fields_from [] (drop (space_len (c # s)) (c # s)) = []"
      by (subst (asm) fields_from.simps(2)) simp
    with "2.IH"(2) False have "all_space (drop (space_len (c # s)) (c # s))"
      by blast
    with False show ?thesis
      by (subst all_space.simps) simp
  qed
qed

lemma space_len_rev_ascii: "ascii_space c \<Longrightarrow> space_len_rev (c # s) \<noteq> 0"
  by (cases "c # s" rule: space_len_rev.cases) auto

lemma space_len_rev_two: "space2 c d \<Longrightarrow> space_len_rev (d # c # s) \<noteq> 0"
  by (cases "d # c # s" rule: space_len_rev.cases) auto

lemma space_len_rev_append: "space_len_rev s \<noteq> 0 \<Longrightarrow> space_len_rev (s @ t) \<noteq> 0"
  by (cases s rule: space_len_rev.cases)
     (auto simp: space_len_rev_ascii [simplified] space_len_rev_two [simplified]
       split: if_split_asm)

lemma space_len_whole:
  "space_len s \<noteq> 0 \<Longrightarrow> drop (space_len s) s = [] \<Longrightarrow> space_len_rev (rev s) \<noteq> 0"
  by (cases s rule: space_len.cases) (auto split: if_splits)

lemma all_space_end: "all_space s \<Longrightarrow> s \<noteq> [] \<Longrightarrow> space_len_rev (rev s) \<noteq> 0"
proof (induction s rule: all_space.induct)
  case (1 s)
  from "1.prems" have sp: "space_len s \<noteq> 0" and rest: "all_space (drop (space_len s) s)"
    by (auto simp: all_space.simps [of s] split: if_splits)
  show ?case
  proof (cases "drop (space_len s) s = []")
    case True
    with sp show ?thesis by (rule space_len_whole)
  next
    case False
    with "1.IH" "1.prems" sp rest have "space_len_rev (rev (drop (space_len s) s)) \<noteq> 0"
      by blast
    then have "space_len_rev (rev (drop (space_len s) s) @ rev (take (space_len s) s)) \<noteq> 0"
      by (rule space_len_rev_append)
    then show ?thesis
      by (metis append_take_drop_id rev_append)
  qed
qed

section \<open>Split and Index\<close>

fun split_on :: "char \<Rightarrow> string \<Rightarrow> string list" where
  "split_on sep [] = [[]]"
| "split_on sep (c # s) =
     (if c = sep then [] # split_on sep s
      else (case split_on sep s of [] \<Rightarrow> [[c]] | p # ps \<Rightarrow> (c # p) # ps))"

lemma split_on_nonempty [simp]: "split_on sep s \<noteq> []"
  by (induction s) (auto split: list.splits)

lemma split_on_no_sep: "sep \<notin> set s \<Longrightarrow> split_on sep s = [s]"
  by (induction s) auto

lemma split_on_append_sep: "sep \<notin> set s \<Longrightarrow> split_on sep (s @ sep # t) = s # split_on sep t"
  by (induction s) (auto split: list.splits)

lemma split_on_pieces: "p \<in> set (split_on sep s) \<Longrightarrow> sep \<notin> set p"
  by (induction s arbitrary: p) (auto split: if_splits list.splits)

fun str_index :: "string \<Rightarrow> string \<Rightarrow> nat option" where
  "str_index [] sub = (if sub = [] then Some 0 else None)"
| "str_index (c # s) sub =
     (if has_prefix (c # s) sub then Some 0 else map_option Suc (str_index s sub))"

lemma str_index_Some: "str_index s sub = Some i \<Longrightarrow> has_prefix (drop i s) sub"
proof (induction s arbitrary: i)
  case Nil
  then show ?case by (auto simp: has_prefix_def split: if_splits)
next
  case (Cons c s)
  then show ?case by (cases i) (auto split: if_splits)
qed

lemma str_index_None: "str_index s sub = None \<Longrightarrow> \<not> has_prefix (drop i s) sub"
proof (induction s arbitrary: i)
  case Nil
  then show ?case by (auto simp: has_prefix_def split: if_splits)
next
  case (Cons c s)
  then show ?case by (cases i) (auto split: if_splits)
qed

lemma str_index_first: "str_index s sub = Some i \<Longrightarrow> j < i \<Longrightarrow> \<not> has_prefix (drop j s) sub"
proof (induction s arbitrary: i j)
  case Nil
  then show ?case by (auto split: if_splits)
next
  case (Cons c s)
  then show ?case by (cases j) (auto split: if_splits)
qed

section \<open>Header names\<close>

text \<open>
  \<open>textproto.CanonicalMIMEHeaderKey\<close>: a name of token bytes only gets an upper-case letter at the
  start and after every hyphen and lower-case letters elsewhere; any other name is unchanged.
\<close>

definition is_upper :: "char \<Rightarrow> bool" where
  "is_upper c = (65 \<le> byte c \<and> byte c \<le> 90)"

definition is_lower :: "char \<Rightarrow> bool" where
  "is_lower c = (97 \<le> byte c \<and> byte c \<le> 122)"

definition is_digit :: "char \<Rightarrow> bool" where
  "is_digit c = (48 \<le> byte c \<and> byte c \<le> 57)"

definition to_upper :: "char \<Rightarrow> char" where
  "to_upper c = (if is_lower c then byte_char (byte c - 32) else c)"

definition to_lower :: "char \<Rightarrow> char" where
  "to_lower c = (if is_upper c then byte_char (byte c + 32) else c)"

definition token_byte :: "char \<Rightarrow> bool" where
  "token_byte c = (is_upper c \<or> is_lower c \<or> is_digit c \<or>
     c \<in> set [CHR ''!'', CHR ''#'', CHR ''$'', CHR ''%'', CHR ''&'', CHR 0x27, CHR ''*'',
             CHR ''+'', CHR ''-'', CHR ''.'', CHR ''^'', CHR ''_'', CHR 0x60, CHR ''|'', CHR ''~''])"

fun canon_from :: "bool \<Rightarrow> string \<Rightarrow> string" where
  "canon_from up [] = []"
| "canon_from up (c # s) =
     (if up then to_upper c else to_lower c) # canon_from (c = CHR ''-'') s"

definition canonical_key :: "string \<Rightarrow> string" where
  "canonical_key k = (if list_all token_byte k then canon_from True k else k)"

text \<open>A header is an association list on canonical names; \<open>Set\<close> replaces, \<open>Get\<close> looks up.\<close>

type_synonym header = "(string \<times> string) list"

definition header_set :: "string \<Rightarrow> string \<Rightarrow> header \<Rightarrow> header" where
  "header_set k v h = (canonical_key k, v) # filter (\<lambda>(k', _). k' \<noteq> canonical_key k) h"

definition header_get :: "string \<Rightarrow> header \<Rightarrow> string" where
  "header_get k h = (case map_of h (canonical_key k) of None \<Rightarrow> [] | Some v \<Rightarrow> v)"

lemma map_of_header_set:
  "map_of (header_set k v h) k' = (if k' = canonical_key k then Some v else map_of h k')"
  by (induction h) (auto simp: header_set_def)

lemma header_get_set [simp]:
  "header_get k' (header_set k v h) =
     (if canonical_key k' = canonical_key k then v else header_get k' h)"
  by (simp add: header_get_def map_of_header_set)

end
