(* ===== verification/Go_Strconv.thy ===== *)
theory Go_Strconv
  imports Go_Strings
begin

text \<open>
  Decimal numbers as Go's \<open>strconv\<close> and \<open>fmt\<close> print and parse them: the verb \<open>%d\<close> on unsigned and
  signed integers, \<open>%t\<close> on booleans, \<open>ParseUint(s, 10, 64)\<close>, \<open>ParseInt(s, 10, 64)\<close> and \<open>Atoi\<close>. The
  round trip of the decimal notation is the first instance of the codec interface.
\<close>

section \<open>Printing\<close>

definition digit :: "nat \<Rightarrow> char" where
  "digit d = byte_char (48 + d)"

fun show_nat :: "nat \<Rightarrow> string" where
  "show_nat n = (if n < 10 then [digit n] else show_nat (n div 10) @ [digit (n mod 10)])"

declare show_nat.simps [simp del]

definition show_u64 :: "u64 \<Rightarrow> string" where
  "show_u64 w = show_nat (unat w)"

definition show_u8 :: "u8 \<Rightarrow> string" where
  "show_u8 w = show_nat (unat w)"

definition show_int :: "int \<Rightarrow> string" where
  "show_int i = (if i < 0 then CHR ''-'' # show_nat (nat (- i)) else show_nat (nat i))"

definition show_bool :: "bool \<Rightarrow> string" where
  "show_bool b = (if b then ''true'' else ''false'')"

section \<open>Parsing\<close>

datatype num_error = Err_Syntax | Err_Range

definition max_u64 :: nat where
  "max_u64 = 18446744073709551615"

definition digit_val :: "char \<Rightarrow> nat" where
  "digit_val c = byte c - 48"

fun parse_digits :: "nat \<Rightarrow> string \<Rightarrow> num_error + nat" where
  "parse_digits n [] = Inr n"
| "parse_digits n (c # s) =
     (if is_digit c then
        (let n' = n * 10 + digit_val c
         in if max_u64 < n' then Inl Err_Range else parse_digits n' s)
      else Inl Err_Syntax)"

definition parse_nat64 :: "string \<Rightarrow> num_error + nat" where
  "parse_nat64 s = (if s = [] then Inl Err_Syntax else parse_digits 0 s)"

definition parse_uint :: "string \<Rightarrow> num_error + u64" where
  "parse_uint s = (case parse_nat64 s of Inl e \<Rightarrow> Inl e | Inr n \<Rightarrow> Inr (of_nat n))"

definition parse_int :: "string \<Rightarrow> num_error + int" where
  "parse_int s =
     (let neg = has_prefix s ''-'';
          t = (if has_prefix s ''-'' \<or> has_prefix s ''+'' then tl s else s)
      in case parse_nat64 t of
           Inl e \<Rightarrow> Inl e
         | Inr n \<Rightarrow>
             if \<not> neg \<and> max_int64 < int n then Inl Err_Range
             else if neg \<and> int n > max_int64 + 1 then Inl Err_Range
             else Inr (if neg then - int n else int n))"

abbreviation atoi :: "string \<Rightarrow> num_error + int" where
  "atoi \<equiv> parse_int"

section \<open>Round trip\<close>

lemma digit_is_digit [simp]: "d < 10 \<Longrightarrow> is_digit (digit d)"
  by (simp add: is_digit_def digit_def)

lemma digit_val_digit [simp]: "d < 10 \<Longrightarrow> digit_val (digit d) = d"
  by (simp add: digit_val_def digit_def)

lemma show_nat_nonempty [simp]: "show_nat n \<noteq> []"
  by (subst show_nat.simps) simp

lemma show_nat_digits: "c \<in> set (show_nat n) \<Longrightarrow> is_digit c"
proof (induction n rule: show_nat.induct)
  case (1 n)
  then show ?case
    by (subst (asm) show_nat.simps) (auto split: if_splits)
qed

lemma parse_digits_append:
  "parse_digits n (s @ t) =
     (case parse_digits n s of Inl e \<Rightarrow> Inl e | Inr m \<Rightarrow> parse_digits m t)"
  by (induction n s rule: parse_digits.induct) (simp_all add: Let_def)

lemma parse_digits_show: "n \<le> max_u64 \<Longrightarrow> parse_digits 0 (show_nat n) = Inr n"
proof (induction n rule: show_nat.induct)
  case (1 n)
  show ?case
  proof (cases "n < 10")
    case True
    then show ?thesis
      by (subst show_nat.simps) (simp add: max_u64_def)
  next
    case False
    with 1 have "parse_digits 0 (show_nat (n div 10)) = Inr (n div 10)"
      by simp
    with False "1.prems" show ?thesis
      by (subst show_nat.simps) (simp add: parse_digits_append)
  qed
qed

lemma parse_nat64_show [simp]: "n \<le> max_u64 \<Longrightarrow> parse_nat64 (show_nat n) = Inr n"
  by (simp add: parse_nat64_def parse_digits_show)

lemma parse_digits_bound: "n \<le> max_u64 \<Longrightarrow> parse_digits n s = Inr m \<Longrightarrow> m \<le> max_u64"
  by (induction n s rule: parse_digits.induct) (auto simp: Let_def split: if_splits)

lemma parse_digits_all: "parse_digits n s = Inr m \<Longrightarrow> list_all is_digit s"
  by (induction n s rule: parse_digits.induct) (auto simp: Let_def split: if_splits)

lemma parse_nat64_bound: "parse_nat64 s = Inr m \<Longrightarrow> m \<le> max_u64"
  using parse_digits_bound [of 0 s m] by (auto simp: parse_nat64_def max_u64_def split: if_splits)

lemma unat_le_max_u64 [simp]: "unat (w :: u64) \<le> max_u64"
  using unsigned_less [of w, where 'a = nat] by (simp add: max_u64_def)

interpretation decimal: codec show_u64 parse_uint "\<lambda>_. True"
  by unfold_locales (simp add: show_u64_def parse_uint_def)

lemma parse_uint_show [codec_simps, simp]: "parse_uint (show_u64 w) = Inr w"
  by (simp add: decimal.dec_enc)

lemma show_u64_inj: "show_u64 v = show_u64 w \<longleftrightarrow> v = w"
  using decimal.enc_inj by blast

lemma parse_int_show:
  assumes "min_int64 \<le> i" and "i \<le> max_int64"
  shows "parse_int (show_int i) = Inr i"
proof (cases "i < 0")
  case True
  with assms show ?thesis
    by (simp add: parse_int_def show_int_def has_prefix_def min_int64_def max_int64_def max_u64_def)
next
  case False
  obtain c t where ct: "show_nat (nat i) = c # t"
    by (cases "show_nat (nat i)") auto
  then have "is_digit c"
    using show_nat_digits [of c "nat i"] by simp
  then have sign: "c \<noteq> CHR ''-''" "c \<noteq> CHR ''+''"
    by (auto simp: is_digit_def)
  from False assms have "parse_nat64 (c # t) = Inr (nat i)"
    unfolding ct [symmetric] by (simp add: max_int64_def max_u64_def)
  with False assms sign ct show ?thesis
    by (simp add: parse_int_def show_int_def has_prefix_def)
qed

end
