(* ===== verification/Go_Encoding.thy ===== *)
theory Go_Encoding
  imports Go_Strconv
begin

text \<open>
  \<open>encoding/base64\<close> (\<open>StdEncoding\<close> with padding and \<open>RawURLEncoding\<close> without) and
  \<open>encoding/hex\<close> decoding, as far as the SDK uses them. The decoders follow the library: line
  breaks inside base64 are skipped, padding is strict for the standard alphabet and refused by
  the raw one, and the unused bits of the last character are not examined.
\<close>

section \<open>Alphabets\<close>

definition std_alphabet :: string where
  "std_alphabet = ''ABCDEFGHIJKLMNOPQRSTUVWXYZabcdefghijklmnopqrstuvwxyz0123456789+/''"

definition url_alphabet :: string where
  "url_alphabet = ''ABCDEFGHIJKLMNOPQRSTUVWXYZabcdefghijklmnopqrstuvwxyz0123456789-_''"

fun find_index_of :: "char \<Rightarrow> string \<Rightarrow> nat option" where
  "find_index_of c [] = None"
| "find_index_of c (d # s) = (if c = d then Some 0 else map_option Suc (find_index_of c s))"

lemma find_index_of_nth:
  "distinct al \<Longrightarrow> i < length al \<Longrightarrow> find_index_of (al ! i) al = Some i"
proof (induction al arbitrary: i)
  case Nil
  then show ?case by simp
next
  case (Cons d s)
  then show ?case by (cases i) (auto simp: nth_mem)
qed

lemma find_index_of_bound: "find_index_of c al = Some i \<Longrightarrow> i < length al \<and> al ! i = c"
  by (induction al arbitrary: i) (auto split: if_splits)

lemma std_alphabet_facts: "length std_alphabet = 64" "distinct std_alphabet"
    "CHR ''='' \<notin> set std_alphabet" "CHR 0x0A \<notin> set std_alphabet" "CHR 0x0D \<notin> set std_alphabet"
  by (simp_all add: std_alphabet_def)

section \<open>Base64\<close>

definition b64_char :: "nat \<Rightarrow> char" where
  "b64_char i = std_alphabet ! i"

fun base64_encode :: "bytes \<Rightarrow> string" where
  "base64_encode [] = []"
| "base64_encode [a] =
     [b64_char (byte a div 4), b64_char (byte a mod 4 * 16), CHR ''='', CHR ''='']"
| "base64_encode [a, b] =
     [b64_char (byte a div 4), b64_char (byte a mod 4 * 16 + byte b div 16),
      b64_char (byte b mod 16 * 4), CHR ''='']"
| "base64_encode (a # b # c # s) =
     b64_char (byte a div 4) # b64_char (byte a mod 4 * 16 + byte b div 16) #
     b64_char (byte b mod 16 * 4 + byte c div 64) # b64_char (byte c mod 64) # base64_encode s"

definition is_newline :: "char \<Rightarrow> bool" where
  "is_newline c = (c = CHR 0x0A \<or> c = CHR 0x0D)"

text \<open>The three bytes of a quantum of four six-bit values, the two of three, the one of two.\<close>

definition quantum3 :: "nat \<Rightarrow> nat \<Rightarrow> nat \<Rightarrow> nat \<Rightarrow> bytes" where
  "quantum3 i j k l =
     [byte_char (i * 4 + j div 16), byte_char (j mod 16 * 16 + k div 4), byte_char (k mod 4 * 64 + l)]"

definition quantum2 :: "nat \<Rightarrow> nat \<Rightarrow> nat \<Rightarrow> bytes" where
  "quantum2 i j k = [byte_char (i * 4 + j div 16), byte_char (j mod 16 * 16 + k div 4)]"

definition quantum1 :: "nat \<Rightarrow> nat \<Rightarrow> bytes" where
  "quantum1 i j = [byte_char (i * 4 + j div 16)]"

text \<open>
  The decoder on a string without line breaks: groups of four characters, where only the last
  group may be padded (\<open>pad\<close> is true for the standard encoding). Without padding the last group
  may have two or three characters.
\<close>

fun b64_groups :: "string \<Rightarrow> bool \<Rightarrow> string \<Rightarrow> bytes option" where
  "b64_groups al pad [] = Some []"
| "b64_groups al pad [a] = None"
| "b64_groups al pad [a, b] =
     (if pad then None
      else case (find_index_of a al, find_index_of b al) of
        (Some i, Some j) \<Rightarrow> Some (quantum1 i j) | _ \<Rightarrow> None)"
| "b64_groups al pad [a, b, c] =
     (if pad then None
      else case (find_index_of a al, find_index_of b al, find_index_of c al) of
        (Some i, Some j, Some k) \<Rightarrow> Some (quantum2 i j k) | _ \<Rightarrow> None)"
| "b64_groups al pad (a # b # c # d # s) =
     (case (find_index_of a al, find_index_of b al) of
        (Some i, Some j) \<Rightarrow>
          (case find_index_of c al of
             Some k \<Rightarrow>
               (case find_index_of d al of
                  Some l \<Rightarrow> map_option (\<lambda>r. quantum3 i j k l @ r) (b64_groups al pad s)
                | None \<Rightarrow>
                    if pad \<and> d = CHR ''='' \<and> s = [] then Some (quantum2 i j k) else None)
           | None \<Rightarrow>
               if pad \<and> c = CHR ''='' \<and> d = CHR ''='' \<and> s = [] then Some (quantum1 i j) else None)
      | _ \<Rightarrow> None)"

definition base64_decode :: "string \<Rightarrow> bytes option" where
  "base64_decode s = b64_groups std_alphabet True (filter (\<lambda>c. \<not> is_newline c) s)"

definition base64_raw_url_decode :: "string \<Rightarrow> bytes option" where
  "base64_raw_url_decode s = b64_groups url_alphabet False (filter (\<lambda>c. \<not> is_newline c) s)"

lemma find_b64_char [simp]: "i < 64 \<Longrightarrow> find_index_of (b64_char i) std_alphabet = Some i"
  by (simp add: b64_char_def find_index_of_nth std_alphabet_facts)

lemma b64_char_not_newline [simp]: "i < 64 \<Longrightarrow> \<not> is_newline (b64_char i)"
  using std_alphabet_facts nth_mem [of i std_alphabet]
  by (metis b64_char_def is_newline_def)

lemma find_pad [simp]: "find_index_of (CHR ''='') std_alphabet = None"
  by (simp add: std_alphabet_def)

lemma six_bits [simp]:
  "byte a div 4 < (64::nat)" "byte a mod 4 * 16 < (64::nat)" "byte b mod 16 * 4 < (64::nat)"
  "byte a mod 4 * 16 + byte b div 16 < (64::nat)"
  "byte b mod 16 * 4 + byte c div 64 < (64::nat)"
  using byte_less [of a] byte_less [of b] byte_less [of c] by linarith+

lemma quantum3_encode:
  "quantum3 (byte a div 4) (byte a mod 4 * 16 + byte b div 16)
     (byte b mod 16 * 4 + byte c div 64) (byte c mod 64) = [a, b, c]"
proof -
  have "(byte a mod 4 * 16 + byte b div 16) div 16 = (byte a mod 4 :: nat)"
    "(byte a mod 4 * 16 + byte b div 16) mod 16 = (byte b div 16 :: nat)"
    "(byte b mod 16 * 4 + byte c div 64) div 4 = (byte b mod 16 :: nat)"
    "(byte b mod 16 * 4 + byte c div 64) mod 4 = (byte c div 64 :: nat)"
    using byte_less [of b] byte_less [of c] by (simp_all add: div_less_iff_less_mult mod_less)
  moreover have "byte a div 4 * 4 + byte a mod 4 = (byte a :: nat)"
    "byte b div 16 * 16 + byte b mod 16 = (byte b :: nat)"
    "byte c div 64 * 64 + byte c mod 64 = (byte c :: nat)"
    by simp_all
  ultimately show ?thesis
    by (simp add: quantum3_def)
qed

lemma quantum2_encode:
  "quantum2 (byte a div 4) (byte a mod 4 * 16 + byte b div 16) (byte b mod 16 * 4) = [a, b]"
  using quantum3_encode [of a b "CHR 0x00"] by (simp add: quantum2_def quantum3_def)

lemma quantum1_encode: "quantum1 (byte a div 4) (byte a mod 4 * 16) = [a]"
  using quantum2_encode [of a "CHR 0x00"] by (simp add: quantum1_def quantum2_def)

lemma base64_encode_no_newline: "c \<in> set (base64_encode s) \<Longrightarrow> \<not> is_newline c"
  by (induction s rule: base64_encode.induct) (auto simp: is_newline_def [of "CHR ''=''"])

lemma b64_groups_encode: "b64_groups std_alphabet True (base64_encode s) = Some s"
  by (induction s rule: base64_encode.induct)
     (simp_all add: quantum3_encode quantum2_encode quantum1_encode)

lemma base64_decode_encode [codec_simps, simp]: "base64_decode (base64_encode s) = Some s"
  by (simp add: base64_decode_def b64_groups_encode base64_encode_no_newline filter_id_conv
      cong: filter_cong)

definition base64_result :: "string \<Rightarrow> unit + bytes" where
  "base64_result s = (case base64_decode s of None \<Rightarrow> Inl () | Some b \<Rightarrow> Inr b)"

interpretation base64: codec base64_encode base64_result "\<lambda>_. True"
  by unfold_locales (simp add: base64_result_def)

lemma base64_encode_inj: "base64_encode s = base64_encode t \<longleftrightarrow> s = t"
  using base64.enc_inj by blast

section \<open>Hexadecimal\<close>

definition hex_val :: "char \<Rightarrow> nat option" where
  "hex_val c =
     (if is_digit c then Some (byte c - 48)
      else if 97 \<le> byte c \<and> byte c \<le> 102 then Some (byte c - 87)
      else if 65 \<le> byte c \<and> byte c \<le> 70 then Some (byte c - 55)
      else None)"

fun hex_decode :: "string \<Rightarrow> bytes option" where
  "hex_decode [] = Some []"
| "hex_decode [c] = None"
| "hex_decode (c # d # s) =
     (case (hex_val c, hex_val d) of
        (Some i, Some j) \<Rightarrow> map_option (\<lambda>r. byte_char (16 * i + j) # r) (hex_decode s)
      | _ \<Rightarrow> None)"

lemma hex_decode_length: "hex_decode s = Some b \<Longrightarrow> length s = 2 * length b"
  by (induction s arbitrary: b rule: hex_decode.induct) (auto split: option.splits)

definition hex_digit :: "nat \<Rightarrow> char" where
  "hex_digit d = (if d < 10 then byte_char (48 + d) else byte_char (87 + d))"

lemma hex_val_digit [simp]: "d < 16 \<Longrightarrow> hex_val (hex_digit d) = Some d"
  by (auto simp: hex_val_def hex_digit_def is_digit_def)

end
