(* ===== verification/Go_UTF8.thy ===== *)
theory Go_UTF8
  imports Go_Encoding
begin

text \<open>
  UTF-8 as Go's \<open>unicode/utf8\<close> decodes it: the length of the valid encoding a byte string starts
  with, the encoder of a code point, and the replacement of invalid bytes by U+FFFD, which
  \<open>encoding/json\<close> performs in both directions.
\<close>

definition cont_byte :: "char \<Rightarrow> bool" where
  "cont_byte c = (128 \<le> byte c \<and> byte c < 192)"

text \<open>Whether the second byte is allowed after the given first byte of a three or four byte rune.\<close>

definition second3 :: "char \<Rightarrow> char \<Rightarrow> bool" where
  "second3 a b =
     (if a = CHR 0xE0 then 160 \<le> byte b \<and> byte b < 192
      else if a = CHR 0xED then 128 \<le> byte b \<and> byte b < 160
      else cont_byte b)"

definition second4 :: "char \<Rightarrow> char \<Rightarrow> bool" where
  "second4 a b =
     (if a = CHR 0xF0 then 144 \<le> byte b \<and> byte b < 192
      else if a = CHR 0xF4 then 128 \<le> byte b \<and> byte b < 144
      else cont_byte b)"

definition lead2 :: "char \<Rightarrow> bool" where
  "lead2 a = (194 \<le> byte a \<and> byte a < 224)"

definition lead3 :: "char \<Rightarrow> bool" where
  "lead3 a = (224 \<le> byte a \<and> byte a < 240)"

definition lead4 :: "char \<Rightarrow> bool" where
  "lead4 a = (240 \<le> byte a \<and> byte a < 245)"

definition ascii :: "char \<Rightarrow> bool" where
  "ascii a = (byte a < 128)"

text \<open>The size in bytes of the rune at the start of a string, 0 where the bytes are invalid.\<close>

fun utf8_len :: "string \<Rightarrow> nat" where
  "utf8_len [] = 0"
| "utf8_len [a] = (if ascii a then 1 else 0)"
| "utf8_len [a, b] = (if ascii a then 1 else if lead2 a \<and> cont_byte b then 2 else 0)"
| "utf8_len [a, b, c] =
     (if ascii a then 1 else if lead2 a \<and> cont_byte b then 2
      else if lead3 a \<and> second3 a b \<and> cont_byte c then 3 else 0)"
| "utf8_len (a # b # c # d # s) =
     (if ascii a then 1 else if lead2 a \<and> cont_byte b then 2
      else if lead3 a \<and> second3 a b \<and> cont_byte c then 3
      else if lead4 a \<and> second4 a b \<and> cont_byte c \<and> cont_byte d then 4 else 0)"

lemma utf8_len_le: "utf8_len s \<le> length s"
  by (cases s rule: utf8_len.cases) auto

lemma utf8_len_ascii [simp]: "ascii a \<Longrightarrow> utf8_len (a # s) = 1"
  by (cases "a # s" rule: utf8_len.cases) auto

text \<open>The bytes after the rune do not matter.\<close>

lemma utf8_len_two: "\<not> ascii a \<Longrightarrow> lead2 a \<Longrightarrow> cont_byte b \<Longrightarrow> utf8_len (a # b # s) = 2"
  by (cases "a # b # s" rule: utf8_len.cases) auto

lemma lead_excl: "lead3 a \<Longrightarrow> \<not> ascii a \<and> \<not> lead2 a" "lead4 a \<Longrightarrow> \<not> ascii a \<and> \<not> lead2 a \<and> \<not> lead3 a"
  by (simp_all add: lead4_def lead3_def lead2_def ascii_def)

lemma utf8_len_three:
  "lead3 a \<Longrightarrow> second3 a b \<Longrightarrow> cont_byte c \<Longrightarrow> utf8_len (a # b # c # s) = 3"
  by (cases "a # b # c # s" rule: utf8_len.cases) (auto dest: lead_excl)

lemma utf8_len_take:
  "0 < utf8_len s \<Longrightarrow> utf8_len (take (utf8_len s) s @ t) = utf8_len s"
  by (cases s rule: utf8_len.cases)
     (auto simp: utf8_len_two utf8_len_three numeral_eq_Suc split: if_split_asm)

definition replacement :: string where
  "replacement = [CHR 0xEF, CHR 0xBF, CHR 0xBD]"

definition utf8_encode :: "nat \<Rightarrow> string" where
  "utf8_encode r =
     (if r < 128 then [byte_char r]
      else if r < 2048 then [byte_char (192 + r div 64), byte_char (128 + r mod 64)]
      else if 55296 \<le> r \<and> r < 57344 \<or> 1114111 < r then replacement
      else if r < 65536 then
        [byte_char (224 + r div 4096), byte_char (128 + r div 64 mod 64), byte_char (128 + r mod 64)]
      else
        [byte_char (240 + r div 262144), byte_char (128 + r div 4096 mod 64),
         byte_char (128 + r div 64 mod 64), byte_char (128 + r mod 64)])"

lemma utf8_len_drop: "0 < utf8_len s \<Longrightarrow> length s - utf8_len s < length s"
  using utf8_len_le [of s] by simp

function to_valid_utf8 :: "string \<Rightarrow> string" where
  "to_valid_utf8 s =
     (if s = [] then []
      else if utf8_len s = 0 then replacement @ to_valid_utf8 (tl s)
      else take (utf8_len s) s @ to_valid_utf8 (drop (utf8_len s) s))"
  by pat_completeness auto
termination
  by (relation "measure length") (simp_all add: utf8_len_drop)

function valid_utf8 :: "string \<Rightarrow> bool" where
  "valid_utf8 s =
     (if s = [] then True
      else if utf8_len s = 0 then False
      else valid_utf8 (drop (utf8_len s) s))"
  by pat_completeness auto
termination
  by (relation "measure length") (simp_all add: utf8_len_drop)

declare to_valid_utf8.simps [simp del] valid_utf8.simps [simp del]

lemma to_valid_utf8_Nil [simp]: "to_valid_utf8 [] = []"
  by (simp add: to_valid_utf8.simps)

lemma to_valid_utf8_ascii [simp]: "ascii c \<Longrightarrow> to_valid_utf8 (c # s) = c # to_valid_utf8 s"
  by (simp add: to_valid_utf8.simps [of "c # s"])

lemma to_valid_utf8_id: "valid_utf8 s \<Longrightarrow> to_valid_utf8 s = s"
proof (induction s rule: valid_utf8.induct)
  case (1 s)
  then show ?case
    by (subst to_valid_utf8.simps)
       (auto simp: valid_utf8.simps [of s] split: if_splits)
qed

lemma valid_utf8_ascii: "list_all ascii s \<Longrightarrow> valid_utf8 s"
proof (induction s)
  case Nil
  then show ?case by (simp add: valid_utf8.simps)
next
  case (Cons c s)
  then show ?case by (simp add: valid_utf8.simps [of "c # s"])
qed

lemma valid_utf8_append:
  assumes "valid_utf8 a" and "valid_utf8 b"
  shows "valid_utf8 (a @ b)"
  using assms(1)
proof (induction a rule: length_induct)
  case (1 a)
  show ?case
  proof (cases "a = []")
    case True
    then show ?thesis using assms(2) by simp
  next
    case False
    let ?k = "utf8_len a"
    have k: "0 < ?k" "valid_utf8 (drop ?k a)"
      using 1(2) False by (simp_all add: valid_utf8.simps [of a] split: if_splits)
    have len: "utf8_len (a @ b) = ?k"
      using utf8_len_take [OF k(1), of "drop ?k a @ b"] by (simp flip: append_assoc)
    have "valid_utf8 (drop ?k a @ b)"
      using 1(1) k False by simp
    then show ?thesis
      using False k(1) len utf8_len_le [of a] by (simp add: valid_utf8.simps [of "a @ b"])
  qed
qed

lemma valid_utf8_ascii_Cons: "ascii c \<Longrightarrow> valid_utf8 (c # s) = valid_utf8 s"
  by (simp add: valid_utf8.simps [of "c # s"])

end
