(* ===== verification/Go_JSON.thy ===== *)
theory Go_JSON
  imports Go_UTF8
begin

text \<open>
  \<open>encoding/json\<close> as the SDK uses it. The scanner works on the bytes and yields a syntax tree in
  which an object member keeps the raw text of its value (for \<open>json.RawMessage\<close> fields); the
  decoders into Go values follow the library's rules: \<open>null\<close> leaves a value unchanged, members
  are matched exactly or else up to case folding, later duplicates win, unknown members are
  ignored, a value of the wrong kind is an error. The encoder escapes HTML characters and
  invalid UTF-8. \<open>None\<close> stands for an error of the package.
\<close>

section \<open>Syntax trees\<close>

datatype json =
    JNull
  | JBool bool
  | JNum string
  | JStr string
  | JArr "json list"
  | JObj "(string \<times> string \<times> json) list"

definition json_ws :: "char \<Rightarrow> bool" where
  "json_ws c = (c = CHR 0x20 \<or> c = CHR 0x09 \<or> c = CHR 0x0D \<or> c = CHR 0x0A)"

definition skip_ws :: "string \<Rightarrow> string" where
  "skip_ws s = dropWhile json_ws s"

lemma skip_ws_le: "length (skip_ws s) \<le> length s"
  by (simp add: skip_ws_def length_dropWhile_le)

section \<open>Strings\<close>

fun hex4 :: "string \<Rightarrow> nat option" where
  "hex4 (a # b # c # d # s) =
     (case (hex_val a, hex_val b, hex_val c, hex_val d) of
        (Some i, Some j, Some k, Some l) \<Rightarrow> Some (4096 * i + 256 * j + 16 * k + l)
      | _ \<Rightarrow> None)"
| "hex4 s = None"

definition is_surrogate :: "nat \<Rightarrow> bool" where
  "is_surrogate r = (55296 \<le> r \<and> r < 57344)"

text \<open>The rune of a surrogate pair: \<open>r\<close> was read, the second half follows as an escape.\<close>

definition surrogate_pair :: "nat \<Rightarrow> string \<Rightarrow> nat option" where
  "surrogate_pair r t =
     (if has_prefix t [CHR 0x5C, CHR ''u''] then
        (case hex4 (drop 2 t) of
           Some r2 \<Rightarrow>
             if 55296 \<le> r \<and> r < 56320 \<and> 56320 \<le> r2 \<and> r2 < 57344
             then Some ((r - 55296) * 1024 + (r2 - 56320) + 65536) else None
         | None \<Rightarrow> None)
      else None)"

definition simple_escape :: "char \<Rightarrow> char option" where
  "simple_escape e =
     (if e = CHR 0x22 \<or> e = CHR 0x5C \<or> e = CHR ''/'' then Some e
      else if e = CHR ''b'' then Some (CHR 0x08)
      else if e = CHR ''f'' then Some (CHR 0x0C)
      else if e = CHR ''n'' then Some (CHR 0x0A)
      else if e = CHR ''r'' then Some (CHR 0x0D)
      else if e = CHR ''t'' then Some (CHR 0x09)
      else None)"

text \<open>
  One step of reading a string literal: the decoded bytes and what is left, or the end of the
  literal.
\<close>

datatype str_step = Str_Bad | Str_End string | Str_More string string

definition unicode_escape :: "string \<Rightarrow> str_step" where
  "unicode_escape t =
     (case hex4 t of
        None \<Rightarrow> Str_Bad
      | Some r \<Rightarrow>
          if is_surrogate r then
            (case surrogate_pair r (drop 4 t) of
               Some q \<Rightarrow> Str_More (utf8_encode q) (drop 10 t)
             | None \<Rightarrow> Str_More replacement (drop 4 t))
          else Str_More (utf8_encode r) (drop 4 t))"

definition json_str_step :: "char \<Rightarrow> string \<Rightarrow> str_step" where
  "json_str_step c s =
     (if c = CHR 0x22 then Str_End s
      else if c = CHR 0x5C then
        (case s of
           [] \<Rightarrow> Str_Bad
         | e # t \<Rightarrow>
             if e = CHR ''u'' then unicode_escape t
             else (case simple_escape e of None \<Rightarrow> Str_Bad | Some b \<Rightarrow> Str_More [b] t))
      else if byte c < 32 then Str_Bad
      else if utf8_len (c # s) = 0 then Str_More replacement s
      else Str_More (take (utf8_len (c # s)) (c # s)) (drop (utf8_len (c # s)) (c # s)))"

lemma unicode_escape_length: "unicode_escape t = Str_More p r \<Longrightarrow> length r \<le> length t"
  by (auto simp: unicode_escape_def split: option.splits if_splits)

lemma json_str_step_length: "json_str_step c s = Str_More p r \<Longrightarrow> length r \<le> length s"
  using unicode_escape_length [of "tl s" p r]
  by (auto simp: json_str_step_def split: if_splits list.splits option.splits)

function json_string :: "string \<Rightarrow> (string \<times> string) option" where
  "json_string [] = None"
| "json_string (c # s) =
     (case json_str_step c s of
        Str_Bad \<Rightarrow> None
      | Str_End r \<Rightarrow> Some ([], r)
      | Str_More p r \<Rightarrow> map_option (\<lambda>(d, r'). (p @ d, r')) (json_string r))"
  by pat_completeness auto
termination
  by (relation "measure length") (auto dest: json_str_step_length)

lemma json_string_length: "json_string s = Some (d, r) \<Longrightarrow> length r < length s"
proof (induction s arbitrary: d r rule: json_string.induct)
  case (2 c s)
  show ?case
  proof (cases "json_str_step c s")
    case (Str_End t)
    with "2.prems" have "r = t" by simp
    moreover from Str_End have "t = s"
      by (auto simp: json_str_step_def unicode_escape_def
          split: if_splits list.splits option.splits)
    ultimately show ?thesis by simp
  next
    case (Str_More p t)
    with "2.prems" obtain d' where "json_string t = Some (d', r)"
      by auto
    with "2.IH" [OF Str_More] have "length r < length t" by simp
    with json_str_step_length [OF Str_More] show ?thesis by simp
  qed (use "2.prems" in simp)
qed simp

section \<open>Numbers and values\<close>

definition num_int :: "string \<Rightarrow> (string \<times> string) option" where
  "num_int t =
     (case t of
        [] \<Rightarrow> None
      | c # u \<Rightarrow>
          if c = CHR ''0'' then Some ([c], u)
          else if is_digit c then Some (takeWhile is_digit t, dropWhile is_digit t)
          else None)"

definition num_frac :: "string \<Rightarrow> (string \<times> string) option" where
  "num_frac t =
     (if has_prefix t ''.'' then
        (let ds = takeWhile is_digit (tl t)
         in if ds = [] then None else Some (CHR ''.'' # ds, dropWhile is_digit (tl t)))
      else Some ([], t))"

definition num_exp :: "string \<Rightarrow> (string \<times> string) option" where
  "num_exp t =
     (if has_prefix t ''e'' \<or> has_prefix t ''E'' then
        (let sg = (if has_prefix (tl t) ''+'' \<or> has_prefix (tl t) ''-'' then take 1 (tl t) else []);
             u = drop (length sg) (tl t);
             ds = takeWhile is_digit u
         in if ds = [] then None else Some (take 1 t @ sg @ ds, dropWhile is_digit u))
      else Some ([], t))"

definition json_number :: "string \<Rightarrow> (string \<times> string) option" where
  "json_number s =
     (let sg = (if has_prefix s ''-'' then ''-'' else [])
      in case num_int (drop (length sg) s) of
           None \<Rightarrow> None
         | Some (i, t) \<Rightarrow>
             (case num_frac t of
                None \<Rightarrow> None
              | Some (f, u) \<Rightarrow>
                  (case num_exp u of
                     None \<Rightarrow> None
                   | Some (e, v) \<Rightarrow> Some (sg @ i @ f @ e, v))))"

definition json_scalar :: "string \<Rightarrow> (json \<times> string) option" where
  "json_scalar s =
     (if has_prefix s ''null'' then Some (JNull, drop 4 s)
      else if has_prefix s ''true'' then Some (JBool True, drop 4 s)
      else if has_prefix s ''false'' then Some (JBool False, drop 5 s)
      else if has_prefix s [CHR 0x22] then
        map_option (\<lambda>(d, r). (JStr d, r)) (json_string (tl s))
      else map_option (\<lambda>(n, r). (JNum n, r)) (json_number s))"

text \<open>The library refuses more than 10000 open containers.\<close>

definition max_nesting :: nat where
  "max_nesting = 10000"

text \<open>
  The recursive-descent reader. The test that the rest got shorter always succeeds; it makes the
  termination measure visible.
\<close>

function json_value :: "nat \<Rightarrow> string \<Rightarrow> (json \<times> string) option"
  and json_elems :: "nat \<Rightarrow> string \<Rightarrow> (json list \<times> string) option"
  and json_members :: "nat \<Rightarrow> string \<Rightarrow> ((string \<times> string \<times> json) list \<times> string) option" where
  "json_value d s =
     (case skip_ws s of
        [] \<Rightarrow> None
      | c # t \<Rightarrow>
          if c = CHR ''['' then
            (if max_nesting \<le> d then None
             else if has_prefix (skip_ws t) '']'' then Some (JArr [], tl (skip_ws t))
             else (case json_elems (Suc d) t of
                     None \<Rightarrow> None | Some (vs, r) \<Rightarrow> Some (JArr vs, r)))
          else if c = CHR ''{'' then
            (if max_nesting \<le> d then None
             else if has_prefix (skip_ws t) ''}'' then Some (JObj [], tl (skip_ws t))
             else (case json_members (Suc d) t of
                     None \<Rightarrow> None | Some (ms, r) \<Rightarrow> Some (JObj ms, r)))
          else json_scalar (c # t))"
| "json_elems d s =
     (case json_value d s of
        None \<Rightarrow> None
      | Some (v, r) \<Rightarrow>
          (case skip_ws r of
             [] \<Rightarrow> None
           | c # t \<Rightarrow>
               if c = CHR '']'' then Some ([v], t)
               else if c = CHR '','' \<and> length t < length s then
                 (case json_elems d t of None \<Rightarrow> None | Some (vs, r') \<Rightarrow> Some (v # vs, r'))
               else None))"
| "json_members d s =
     (case skip_ws s of
        [] \<Rightarrow> None
      | q # u \<Rightarrow>
          if q \<noteq> CHR 0x22 then None
          else (case json_string u of
            None \<Rightarrow> None
          | Some (k, r0) \<Rightarrow>
              (case skip_ws r0 of
                 [] \<Rightarrow> None
               | c0 # t0 \<Rightarrow>
                   if c0 \<noteq> CHR '':'' \<or> \<not> length t0 < length s then None
                   else (case json_value d (skip_ws t0) of
                     None \<Rightarrow> None
                   | Some (v, r) \<Rightarrow>
                       (let raw = take (length (skip_ws t0) - length r) (skip_ws t0)
                        in case skip_ws r of
                             [] \<Rightarrow> None
                           | c # t \<Rightarrow>
                               if c = CHR ''}'' then Some ([(k, raw, v)], t)
                               else if c = CHR '','' \<and> length t < length s then
                                 (case json_members d t of
                                    None \<Rightarrow> None
                                  | Some (ms, r') \<Rightarrow> Some ((k, raw, v) # ms, r'))
                               else None)))))"
  by pat_completeness auto
termination
proof (relation "measure (\<lambda>x. case x of
      Inl (d, s) \<Rightarrow> 2 * length s + 1
    | Inr (Inl (d, s)) \<Rightarrow> 2 * length s + 2
    | Inr (Inr (d, s)) \<Rightarrow> 2 * length s + 2)", goal_cases)
  case (2 d s c t)
  then show ?case using skip_ws_le [of s] by simp
next
  case (3 d s c t)
  then show ?case using skip_ws_le [of s] by simp
next
  case (6 d s q u a k r0 c0 t0)
  then show ?case using skip_ws_le [of t0] by simp
qed auto

declare json_value.simps [simp del] json_elems.simps [simp del] json_members.simps [simp del]

definition json_parse :: "string \<Rightarrow> json option" where
  "json_parse s =
     (case json_value 0 s of
        None \<Rightarrow> None
      | Some (v, r) \<Rightarrow> if skip_ws r = [] then Some v else None)"

section \<open>Decoding into Go values\<close>

text \<open>A value of the variable's current content is passed in: \<open>null\<close> keeps it.\<close>

fun dec_string :: "json \<Rightarrow> string \<Rightarrow> string option" where
  "dec_string JNull cur = Some cur"
| "dec_string (JStr s) cur = Some s"
| "dec_string _ cur = None"

fun dec_uint :: "json \<Rightarrow> u64 \<Rightarrow> u64 option" where
  "dec_uint JNull cur = Some cur"
| "dec_uint (JNum n) cur = (case parse_uint n of Inl _ \<Rightarrow> None | Inr w \<Rightarrow> Some w)"
| "dec_uint _ cur = None"

fun dec_int :: "json \<Rightarrow> int \<Rightarrow> int option" where
  "dec_int JNull cur = Some cur"
| "dec_int (JNum n) cur = (case parse_int n of Inl _ \<Rightarrow> None | Inr i \<Rightarrow> Some i)"
| "dec_int _ cur = None"

text \<open>\<open>json.Number\<close> keeps the literal, and accepts a string that spells a number.\<close>

definition valid_number :: "string \<Rightarrow> bool" where
  "valid_number s = (\<exists>n. json_number s = Some (n, []))"

lemma valid_number_code [code]:
  "valid_number s = (case json_number s of None \<Rightarrow> False | Some (_, r) \<Rightarrow> r = [])"
  by (auto simp: valid_number_def split: option.splits)

fun dec_number :: "json \<Rightarrow> string \<Rightarrow> string option" where
  "dec_number JNull cur = Some cur"
| "dec_number (JNum n) cur = Some n"
| "dec_number (JStr s) cur = (if valid_number s then Some s else None)"
| "dec_number _ cur = None"

text \<open>All results of a list, if none of them failed.\<close>

fun all_some :: "'a option list \<Rightarrow> 'a list option" where
  "all_some [] = Some []"
| "all_some (None # xs) = None"
| "all_some (Some x # xs) = map_option ((#) x) (all_some xs)"

lemma all_some_map_Some [simp]: "all_some (map (\<lambda>x. Some (f x)) xs) = Some (map f xs)"
  by (induction xs) auto

text \<open>A slice is \<open>None\<close> when nil.\<close>

fun dec_strings :: "json \<Rightarrow> string list option option" where
  "dec_strings JNull = Some None"
| "dec_strings (JArr vs) = map_option Some (all_some (map (\<lambda>v. dec_string v []) vs))"
| "dec_strings _ = None"

text \<open>
  Case folding of member names. The names of the SDK's structs are ASCII, so besides the letters
  only the two other members of their folding classes matter: the long s and the Kelvin sign.
\<close>

function fold_name :: "string \<Rightarrow> string" where
  "fold_name [] = []"
| "fold_name (c # s) =
     (if has_prefix (c # s) [CHR 0xC5, CHR 0xBF] then CHR ''S'' # fold_name (drop 1 s)
      else if has_prefix (c # s) [CHR 0xE2, CHR 0x84, CHR 0xAA] then CHR ''K'' # fold_name (drop 2 s)
      else to_upper c # fold_name s)"
  by pat_completeness auto
termination
  by (relation "measure length") simp_all

type_synonym 'r field_dec = "string \<Rightarrow> json \<Rightarrow> 'r \<Rightarrow> 'r option"

definition find_field :: "(string \<times> 'f) list \<Rightarrow> string \<Rightarrow> 'f option" where
  "find_field fs k =
     (case map_of fs k of
        Some f \<Rightarrow> Some f
      | None \<Rightarrow> map_of (map (\<lambda>(n, f). (fold_name n, f)) fs) (fold_name k))"

fun dec_members :: "(string \<times> 'r field_dec) list \<Rightarrow> (string \<times> string \<times> json) list \<Rightarrow> 'r \<Rightarrow> 'r option"
  where
  "dec_members fs [] r = Some r"
| "dec_members fs ((k, raw, v) # ms) r =
     (case find_field fs k of
        None \<Rightarrow> dec_members fs ms r
      | Some f \<Rightarrow> (case f raw v r of None \<Rightarrow> None | Some r' \<Rightarrow> dec_members fs ms r'))"

fun dec_struct :: "(string \<times> 'r field_dec) list \<Rightarrow> json \<Rightarrow> 'r \<Rightarrow> 'r option" where
  "dec_struct fs JNull r = Some r"
| "dec_struct fs (JObj ms) r = dec_members fs ms r"
| "dec_struct fs _ r = None"

text \<open>\<open>json.Unmarshal(data, &v)\<close> with the decoder of the type of \<open>v\<close>.\<close>

definition unmarshal :: "(json \<Rightarrow> 'a option) \<Rightarrow> string \<Rightarrow> 'a option" where
  "unmarshal dec s = (case json_parse s of None \<Rightarrow> None | Some j \<Rightarrow> dec j)"

definition unmarshal_string :: "string \<Rightarrow> string option" where
  "unmarshal_string = unmarshal (\<lambda>j. dec_string j [])"

definition unmarshal_uint :: "string \<Rightarrow> u64 option" where
  "unmarshal_uint = unmarshal (\<lambda>j. dec_uint j 0)"

definition unmarshal_int :: "string \<Rightarrow> int option" where
  "unmarshal_int = unmarshal (\<lambda>j. dec_int j 0)"

definition unmarshal_strings :: "string \<Rightarrow> string list option option" where
  "unmarshal_strings = unmarshal dec_strings"

end
