(* ===== verification/Go_JSON_Encode.thy ===== *)
theory Go_JSON_Encode
  imports Go_JSON
begin

text \<open>
  \<open>json.Marshal\<close> for the Go values the SDK serialises: strings, slices of strings, booleans and raw
  messages, which are validated and compacted. What the encoder writes the decoder reads back:
  the round trip holds for every slice of strings up to the replacement of invalid UTF-8, and
  exactly on valid UTF-8; it is an instance of the codec interface.
\<close>

section \<open>Encoding\<close>

definition u00 :: "char \<Rightarrow> string" where
  "u00 c = [CHR 0x5C, CHR ''u'', CHR ''0'', CHR ''0'', hex_digit (byte c div 16), hex_digit (byte c mod 16)]"

text \<open>The encoding of one ASCII byte inside a string literal.\<close>

definition escape_ascii :: "char \<Rightarrow> string" where
  "escape_ascii c =
     (if c = CHR 0x22 \<or> c = CHR 0x5C then [CHR 0x5C, c]
      else if c = CHR 0x08 then [CHR 0x5C, CHR ''b'']
      else if c = CHR 0x0C then [CHR 0x5C, CHR ''f'']
      else if c = CHR 0x0A then [CHR 0x5C, CHR ''n'']
      else if c = CHR 0x0D then [CHR 0x5C, CHR ''r'']
      else if c = CHR 0x09 then [CHR 0x5C, CHR ''t'']
      else if byte c < 32 \<or> c = CHR ''<'' \<or> c = CHR ''>'' \<or> c = CHR ''&'' then u00 c
      else [c])"

text \<open>The encoding of one multi-byte rune: the line separators U+2028 and U+2029 are escaped.\<close>

definition escape_rune :: "string \<Rightarrow> string" where
  "escape_rune p =
     (if p = [CHR 0xE2, CHR 0x80, CHR 0xA8] then CHR 0x5C # ''u2028''
      else if p = [CHR 0xE2, CHR 0x80, CHR 0xA9] then CHR 0x5C # ''u2029''
      else p)"

function quote_body :: "string \<Rightarrow> string" where
  "quote_body [] = []"
| "quote_body (c # s) =
     (if ascii c then escape_ascii c @ quote_body s
      else if utf8_len (c # s) = 0 then (CHR 0x5C # ''ufffd'') @ quote_body s
      else escape_rune (take (utf8_len (c # s)) (c # s)) @
        quote_body (drop (utf8_len (c # s)) (c # s)))"
  by pat_completeness auto
termination
  by (relation "measure length") (simp_all add: utf8_len_drop [of "_ # _", simplified])

declare quote_body.simps(2) [simp del]

definition quote :: "string \<Rightarrow> string" where
  "quote s = CHR 0x22 # quote_body s @ [CHR 0x22]"

fun join :: "char \<Rightarrow> string list \<Rightarrow> string" where
  "join sep [] = []"
| "join sep [x] = x"
| "join sep (x # y # xs) = x @ sep # join sep (y # xs)"

text \<open>\<open>json.Marshal\<close> of a slice of strings: a nil slice is \<open>null\<close>, an empty one \<open>[]\<close>.\<close>

definition marshal_strings :: "string list option \<Rightarrow> string" where
  "marshal_strings v =
     (case v of None \<Rightarrow> ''null'' | Some xs \<Rightarrow> ''['' @ join (CHR '','') (map quote xs) @ '']'')"

text \<open>
  A raw message is copied without white space between the tokens and with HTML characters
  escaped (they occur inside strings only). It must be valid JSON; a nil message is \<open>null\<close>.
\<close>

fun compact_str :: "string \<Rightarrow> string" and compact_plain :: "string \<Rightarrow> string" where
  "compact_str [] = []"
| "compact_str (c # s) =
     (if c = CHR 0x22 then c # compact_plain s
      else if c = CHR 0x5C then (case s of [] \<Rightarrow> [c] | e # t \<Rightarrow> c # e # compact_str t)
      else if c = CHR ''<'' \<or> c = CHR ''>'' \<or> c = CHR ''&'' then u00 c @ compact_str s
      else if has_prefix (c # s) [CHR 0xE2, CHR 0x80, CHR 0xA8] then
        (CHR 0x5C # ''u2028'') @ compact_str (drop 2 s)
      else if has_prefix (c # s) [CHR 0xE2, CHR 0x80, CHR 0xA9] then
        (CHR 0x5C # ''u2029'') @ compact_str (drop 2 s)
      else c # compact_str s)"
| "compact_plain [] = []"
| "compact_plain (c # s) =
     (if json_ws c then compact_plain s
      else if c = CHR 0x22 then c # compact_str s
      else c # compact_plain s)"

definition marshal_raw :: "bytes option \<Rightarrow> string option" where
  "marshal_raw m =
     (case m of
        None \<Rightarrow> Some ''null''
      | Some s \<Rightarrow> (case json_parse s of None \<Rightarrow> None | Some _ \<Rightarrow> Some (compact_plain s)))"

section \<open>Reading a string literal back\<close>

lemma step_escape:
  "simple_escape e = Some b \<Longrightarrow> e \<noteq> CHR ''u'' \<Longrightarrow>
     json_str_step (CHR 0x5C) (e # t) = Str_More [b] t"
  by (simp add: json_str_step_def)

lemma step_plain:
  assumes "ascii c" "c \<noteq> CHR 0x22" "c \<noteq> CHR 0x5C" "\<not> byte c < (32::nat)"
  shows "json_str_step c s = Str_More [c] s"
  using assms by (simp add: json_str_step_def)

lemma hex_val_chars [simp]:
  "hex_val (CHR ''f'') = Some 15" "hex_val (CHR ''d'') = Some 13" "hex_val (CHR ''2'') = Some 2"
  "hex_val (CHR ''0'') = Some 0" "hex_val (CHR ''8'') = Some 8" "hex_val (CHR ''9'') = Some 9"
  by (simp_all add: hex_val_def is_digit_def)

lemma byte_char_values [simp]:
  "byte_char 239 = CHR 0xEF" "byte_char 191 = CHR 0xBF" "byte_char 189 = CHR 0xBD"
  "byte_char 226 = CHR 0xE2" "byte_char 128 = CHR 0x80" "byte_char 168 = CHR 0xA8"
  "byte_char 169 = CHR 0xA9"
  by code_simp+

lemma hex4_u00:
  "hex4 (CHR ''0'' # CHR ''0'' # hex_digit (byte c div 16) # hex_digit (byte c mod 16) # t) =
     Some (byte c)"
proof -
  have "byte c div 16 < (16::nat)"
    using byte_less [of c] by (simp add: less_mult_imp_div_less)
  moreover have "hex_val (CHR ''0'') = Some 0"
    by (simp add: hex_val_def is_digit_def)
  ultimately show ?thesis
    by simp
qed

lemma step_u00: "ascii c \<Longrightarrow> json_str_step (CHR 0x5C) (tl (u00 c) @ t) = Str_More [c] t"
  by (simp add: json_str_step_def u00_def unicode_escape_def hex4_u00 is_surrogate_def
      utf8_encode_def ascii_def)

lemma json_string_Cons_More:
  "json_str_step c s = Str_More p r \<Longrightarrow>
     json_string (c # s) = map_option (\<lambda>(d, r'). (p @ d, r')) (json_string r)"
  by simp

lemma json_string_escape_ascii:
  assumes "ascii c"
  shows "json_string (escape_ascii c @ t) = map_option (\<lambda>(d, r). (c # d, r)) (json_string t)"
proof -
  consider (simple) e where "escape_ascii c = [CHR 0x5C, e]" "simple_escape e = Some c" "e \<noteq> CHR ''u''"
    | (u) "escape_ascii c = u00 c"
    | (plain) "escape_ascii c = [c]" "c \<noteq> CHR 0x22" "c \<noteq> CHR 0x5C" "\<not> byte c < (32::nat)"
  proof (cases "c \<in> {CHR 0x22, CHR 0x5C, CHR 0x08, CHR 0x0C, CHR 0x0A, CHR 0x0D, CHR 0x09}")
    case True
    then have "\<exists>e. escape_ascii c = [CHR 0x5C, e] \<and> simple_escape e = Some c \<and> e \<noteq> CHR ''u''"
      by (elim insertE) (simp_all add: escape_ascii_def simple_escape_def)
    with that show ?thesis by blast
  next
    case False
    with that show ?thesis
      by (cases "byte c < (32::nat) \<or> c = CHR ''<'' \<or> c = CHR ''>'' \<or> c = CHR ''&''")
         (simp_all add: escape_ascii_def)
  qed
  then show ?thesis
  proof cases
    case simple
    with json_string_Cons_More [OF step_escape, of e c t] show ?thesis
      by simp
  next
    case u
    have "u00 c @ t = CHR 0x5C # (tl (u00 c) @ t)"
      by (simp add: u00_def)
    then show ?thesis
      by (simp only: u json_string_Cons_More [OF step_u00, OF assms]) simp
  next
    case plain
    with json_string_Cons_More [OF step_plain, OF assms, of t] show ?thesis
      by simp
  qed
qed

lemma json_string_invalid:
  "json_string ((CHR 0x5C # ''ufffd'') @ t) =
     map_option (\<lambda>(d, r). (replacement @ d, r)) (json_string t)"
  by (simp add: json_str_step_def unicode_escape_def is_surrogate_def utf8_encode_def
      replacement_def char_of_eq_iff)

lemma json_string_u2028:
  "json_string ((CHR 0x5C # ''u2028'') @ t) =
     map_option (\<lambda>(d, r). ([CHR 0xE2, CHR 0x80, CHR 0xA8] @ d, r)) (json_string t)"
  "json_string ((CHR 0x5C # ''u2029'') @ t) =
     map_option (\<lambda>(d, r). ([CHR 0xE2, CHR 0x80, CHR 0xA9] @ d, r)) (json_string t)"
  by (simp_all add: json_str_step_def unicode_escape_def is_surrogate_def utf8_encode_def)

lemma json_string_rune:
  assumes na: "\<not> ascii c" and k: "0 < utf8_len (c # s)"
  shows "json_string (take (utf8_len (c # s)) (c # s) @ t) =
    map_option (\<lambda>(d, r). (take (utf8_len (c # s)) (c # s) @ d, r)) (json_string t)"
proof -
  let ?k = "utf8_len (c # s)"
  obtain n where n: "?k = Suc n" using k by (cases ?k) auto
  have len: "utf8_len (c # take n s @ t) = Suc n"
    using utf8_len_take [OF k, of t] n by simp
  have ls: "n \<le> length s"
    using utf8_len_le [of "c # s"] n by simp
  have c: "c \<noteq> CHR 0x22" "c \<noteq> CHR 0x5C" "\<not> byte c < (32::nat)"
    using na by (auto simp: ascii_def)
  have "json_str_step c (take n s @ t) = Str_More (c # take n s) t"
    using c len ls by (simp add: json_str_step_def)
  from json_string_Cons_More [OF this] show ?thesis
    by (simp add: n)
qed

lemma json_string_escape_rune:
  assumes "\<not> ascii c" and "0 < utf8_len (c # s)"
  shows "json_string (escape_rune (take (utf8_len (c # s)) (c # s)) @ t) =
    map_option (\<lambda>(d, r). (take (utf8_len (c # s)) (c # s) @ d, r)) (json_string t)"
  using json_string_rune [OF assms] json_string_u2028 [of t]
  by (simp add: escape_rune_def)

theorem json_string_quote_body:
  "json_string (quote_body s @ CHR 0x22 # r) = Some (to_valid_utf8 s, r)"
proof (induction s rule: quote_body.induct)
  case 1
  then show ?case by (simp add: json_str_step_def)
next
  case (2 c s)
  show ?case
  proof (cases "ascii c")
    case True
    with 2 show ?thesis
      by (simp add: quote_body.simps(2) json_string_escape_ascii)
  next
    case na: False
    show ?thesis
    proof (cases "utf8_len (c # s) = 0")
      case True
      with na 2 json_string_invalid [of "quote_body s @ CHR 0x22 # r"] show ?thesis
        by (simp add: quote_body.simps(2) to_valid_utf8.simps [of "c # s"] del: json_string.simps)
    next
      case False
      with na 2 show ?thesis
        by (simp add: quote_body.simps(2) to_valid_utf8.simps [of "c # s"] json_string_escape_rune
            del: take_Cons' drop_Cons')
    qed
  qed
qed

section \<open>Reading a slice of strings back\<close>

lemma skip_ws_id [simp]: "\<not> json_ws c \<Longrightarrow> skip_ws (c # s) = c # s"
  by (simp add: skip_ws_def)

lemma skip_ws_Nil [simp]: "skip_ws [] = []"
  by (simp add: skip_ws_def)

lemma not_ws [simp]: "\<not> json_ws (CHR 0x22)" "\<not> json_ws (CHR '','')" "\<not> json_ws (CHR '']'')"
    "\<not> json_ws (CHR ''['')" "\<not> json_ws (CHR ''n'')" "\<not> json_ws (CHR ''{'')" "\<not> json_ws (CHR ''}'')"
    "\<not> json_ws (CHR '':'')"
  by (simp_all add: json_ws_def)

lemma json_value_quote: "json_value d (quote s @ r) = Some (JStr (to_valid_utf8 s), r)"
  by (subst json_value.simps)
     (simp add: quote_def json_scalar_def has_prefix_def json_string_quote_body)

lemma unmarshal_quote [codec_simps]: "unmarshal_string (quote s) = Some (to_valid_utf8 s)"
  using json_value_quote [of 0 s "[]"]
  by (simp add: unmarshal_string_def unmarshal_def json_parse_def)

lemma length_quote: "2 \<le> length (quote s)"
  by (simp add: quote_def)

lemma json_elems_join:
  "xs \<noteq> [] \<Longrightarrow> json_elems d (join (CHR '','') (map quote xs) @ CHR '']'' # r) =
     Some (map (\<lambda>s. JStr (to_valid_utf8 s)) xs, r)"
proof (induction xs rule: list_nonempty_induct)
  case (single x)
  then show ?case
    by (subst json_elems.simps) (simp add: json_value_quote)
next
  case (cons x xs)
  then obtain y ys where xs: "xs = y # ys" by (cases xs) auto
  with cons show ?case
    by (subst json_elems.simps) (simp add: json_value_quote)
qed

lemma json_parse_strings:
  "json_parse (marshal_strings (Some xs)) = Some (JArr (map (\<lambda>s. JStr (to_valid_utf8 s)) xs))"
proof (cases xs)
  case Nil
  then show ?thesis
    by (simp add: json_parse_def marshal_strings_def json_value.simps max_nesting_def has_prefix_def)
next
  case (Cons y ys)
  obtain u where u: "join (CHR '','') (map quote xs) @ '']'' = CHR 0x22 # u"
    using Cons by (cases ys) (auto simp: quote_def)
  have "xs \<noteq> []" using Cons by simp
  from json_elems_join [OF this, of "Suc 0" "[]"]
  have "json_elems (Suc 0) (CHR 0x22 # u) = Some (map (\<lambda>s. JStr (to_valid_utf8 s)) xs, [])"
    unfolding u .
  then show ?thesis
    using u
    by (simp add: json_parse_def marshal_strings_def json_value.simps max_nesting_def has_prefix_def)
qed

theorem unmarshal_marshal_strings:
  "unmarshal_strings (marshal_strings v) = Some (map_option (map to_valid_utf8) v)"
proof (cases v)
  case None
  have "json_value 0 ''null'' = Some (JNull, [])"
    by (simp add: json_value.simps json_scalar_def has_prefix_def)
  with None show ?thesis
    by (simp add: unmarshal_strings_def unmarshal_def marshal_strings_def json_parse_def)
next
  case (Some xs)
  then show ?thesis
    by (simp add: unmarshal_strings_def unmarshal_def json_parse_strings comp_def)
qed

definition valid_strings :: "string list option \<Rightarrow> bool" where
  "valid_strings v = (case v of None \<Rightarrow> True | Some xs \<Rightarrow> list_all valid_utf8 xs)"

definition strings_result :: "string \<Rightarrow> unit + string list option" where
  "strings_result s = (case unmarshal_strings s of None \<Rightarrow> Inl () | Some v \<Rightarrow> Inr v)"

lemma map_to_valid: "list_all valid_utf8 xs \<Longrightarrow> map to_valid_utf8 xs = xs"
  by (induction xs) (simp_all add: to_valid_utf8_id)

interpretation json_strings: codec marshal_strings strings_result valid_strings
  by unfold_locales
     (auto simp: strings_result_def unmarshal_marshal_strings valid_strings_def map_to_valid
       split: option.splits)

lemma marshal_strings_inj:
  "valid_strings v \<Longrightarrow> valid_strings w \<Longrightarrow> marshal_strings v = marshal_strings w \<longleftrightarrow> v = w"
  using json_strings.enc_inj by blast

text \<open>The nil slice is the one that is not written as an array.\<close>

lemma marshal_strings_null_iff: "marshal_strings v = ''null'' \<longleftrightarrow> v = None"
  by (cases v) (auto simp: marshal_strings_def)

end
