(* ===== verification/SDK_Types.thy ===== *)
theory SDK_Types
  imports Go_JSON_Encode
begin

text \<open>
  The shared types of the SDK (\<open>types.go\<close>), its sentinel errors (\<open>errors.go\<close>) and the JSON
  decoders of the structs it reads. An \<open>error\<close> value is a term that keeps how it was wrapped, so
  that \<open>errors.Is\<close> and the message are functions of it; a raw message is \<open>None\<close> when nil.
\<close>

section \<open>Errors\<close>

datatype ctx_error = Canceled | DeadlineExceeded

text \<open>
  \<open>LibErr\<close> is an error of a library, named by the call that produced it; \<open>Errorf\<close> is
  \<open>fmt.Errorf\<close> without a wrapped error, \<open>Wrapf m e\<close> is \<open>fmt.Errorf("m: %w", e)\<close> and
  \<open>Suffixf e m\<close> is \<open>fmt.Errorf("%wm", e)\<close>.
\<close>

datatype sdk_error =
    ErrEmptyTransaction
  | ErrEmptyTransactionID
  | ErrNoPrivateKey
  | ErrNoAccount
  | ErrProvableClientNotConfigured
  | ErrProvingFailed
  | CtxErr ctx_error
  | LibErr string
  | Errorf string
  | Wrapf string sdk_error
  | Suffixf sdk_error string

fun err_text :: "sdk_error \<Rightarrow> string" where
  "err_text ErrEmptyTransaction = ''empty transaction in proving response''"
| "err_text ErrEmptyTransactionID = ''transaction ID is empty in proving response''"
| "err_text ErrNoPrivateKey = ''no private key configured''"
| "err_text ErrNoAccount = ''no account configured''"
| "err_text ErrProvableClientNotConfigured = ''provable client not configured''"
| "err_text ErrProvingFailed = ''proving request failed''"
| "err_text (CtxErr Canceled) = ''context canceled''"
| "err_text (CtxErr DeadlineExceeded) = ''context deadline exceeded''"
| "err_text (LibErr m) = m"
| "err_text (Errorf m) = m"
| "err_text (Wrapf m e) = m @ '': '' @ err_text e"
| "err_text (Suffixf e m) = err_text e @ m"

text \<open>\<open>errors.Is(err, target)\<close>: the error or one it wraps is the target.\<close>

fun err_is :: "sdk_error \<Rightarrow> sdk_error \<Rightarrow> bool" where
  "err_is (Wrapf m e) t = (Wrapf m e = t \<or> err_is e t)"
| "err_is (Suffixf e m) t = (Suffixf e m = t \<or> err_is e t)"
| "err_is e t = (e = t)"

lemma err_is_refl [simp]: "err_is e e"
  by (cases e) auto

type_synonym 'a result = "sdk_error + 'a"

text \<open>The error of a library call reported as an option.\<close>

definition lib_result :: "string \<Rightarrow> 'a option \<Rightarrow> 'a result" where
  "lib_result name r = (case r of None \<Rightarrow> Inl (LibErr name) | Some x \<Rightarrow> Inr x)"

lemma lib_result_simps [simp]:
  "lib_result n None = Inl (LibErr n)" "lib_result n (Some x) = Inr x"
  by (simp_all add: lib_result_def)

section \<open>Networks\<close>

type_synonym network = string

definition MainnetV0 :: network where "MainnetV0 = ''mainnet''"
definition TestnetV0 :: network where "TestnetV0 = ''testnet''"
definition CanaryV0 :: network where "CanaryV0 = ''canary''"

definition network_string :: "network \<Rightarrow> string" where
  "network_string n = n"

definition network_valid :: "network \<Rightarrow> bool" where
  "network_valid n = (n = MainnetV0 \<or> n = TestnetV0 \<or> n = CanaryV0)"

section \<open>Authorization\<close>

type_synonym raw_message = "bytes option"

record authorization =
  auth_raw :: raw_message

definition raw_string :: "raw_message \<Rightarrow> string" where
  "raw_string m = (case m of None \<Rightarrow> [] | Some b \<Rightarrow> b)"

definition authorization_string :: "authorization \<Rightarrow> string" where
  "authorization_string a = raw_string (auth_raw a)"

definition authorization_marshal :: "authorization \<Rightarrow> raw_message result" where
  "authorization_marshal a = Inr (auth_raw a)"

definition authorization_unmarshal :: "authorization \<Rightarrow> bytes \<Rightarrow> authorization result" where
  "authorization_unmarshal a data =
     Inr (a\<lparr>auth_raw := (if data = [] then None else Some data)\<rparr>)"

section \<open>Fields of decoded structs\<close>

definition fld_string :: "('r \<Rightarrow> string) \<Rightarrow> (string \<Rightarrow> 'r \<Rightarrow> 'r) \<Rightarrow> 'r field_dec" where
  "fld_string get put raw v r = map_option (\<lambda>s. put s r) (dec_string v (get r))"

definition fld_uint :: "('r \<Rightarrow> u64) \<Rightarrow> (u64 \<Rightarrow> 'r \<Rightarrow> 'r) \<Rightarrow> 'r field_dec" where
  "fld_uint get put raw v r = map_option (\<lambda>n. put n r) (dec_uint v (get r))"

definition fld_int :: "('r \<Rightarrow> int) \<Rightarrow> (int \<Rightarrow> 'r \<Rightarrow> 'r) \<Rightarrow> 'r field_dec" where
  "fld_int get put raw v r = map_option (\<lambda>n. put n r) (dec_int v (get r))"

definition fld_number :: "('r \<Rightarrow> string) \<Rightarrow> (string \<Rightarrow> 'r \<Rightarrow> 'r) \<Rightarrow> 'r field_dec" where
  "fld_number get put raw v r = map_option (\<lambda>s. put s r) (dec_number v (get r))"

definition fld_raw :: "(raw_message \<Rightarrow> 'r \<Rightarrow> 'r) \<Rightarrow> 'r field_dec" where
  "fld_raw put raw v r = Some (put (Some raw) r)"

lemmas fld_defs = fld_string_def fld_uint_def fld_int_def fld_number_def fld_raw_def

text \<open>A struct with one string member, as the SDK declares them inside functions.\<close>

definition dec_one_string :: "string \<Rightarrow> json \<Rightarrow> string option" where
  "dec_one_string name j = dec_struct [(name, fld_string id (\<lambda>s _. s))] j []"

section \<open>Blocks and transactions\<close>

record block =
  b_hash :: string
  b_previous_hash :: string
  b_height :: u64
  b_header :: raw_message
  b_authority :: raw_message
  b_ratifications :: raw_message
  b_solutions :: raw_message
  b_aborted_solution_ids :: raw_message
  b_transactions :: raw_message
  b_aborted_transaction_ids :: raw_message

definition zero_block :: block where
  "zero_block = \<lparr>b_hash = [], b_previous_hash = [], b_height = 0, b_header = None,
     b_authority = None, b_ratifications = None, b_solutions = None,
     b_aborted_solution_ids = None, b_transactions = None, b_aborted_transaction_ids = None\<rparr>"

definition block_fields :: "(string \<times> block field_dec) list" where
  "block_fields =
     [(''block_hash'', fld_string b_hash (\<lambda>s r. r\<lparr>b_hash := s\<rparr>)),
      (''previous_hash'', fld_string b_previous_hash (\<lambda>s r. r\<lparr>b_previous_hash := s\<rparr>)),
      (''height'', fld_uint b_height (\<lambda>n r. r\<lparr>b_height := n\<rparr>)),
      (''header'', fld_raw (\<lambda>m r. r\<lparr>b_header := m\<rparr>)),
      (''authority'', fld_raw (\<lambda>m r. r\<lparr>b_authority := m\<rparr>)),
      (''ratifications'', fld_raw (\<lambda>m r. r\<lparr>b_ratifications := m\<rparr>)),
      (''solutions'', fld_raw (\<lambda>m r. r\<lparr>b_solutions := m\<rparr>)),
      (''aborted_solution_ids'', fld_raw (\<lambda>m r. r\<lparr>b_aborted_solution_ids := m\<rparr>)),
      (''transactions'', fld_raw (\<lambda>m r. r\<lparr>b_transactions := m\<rparr>)),
      (''aborted_transaction_ids'', fld_raw (\<lambda>m r. r\<lparr>b_aborted_transaction_ids := m\<rparr>))]"

definition dec_block :: "json \<Rightarrow> block option" where
  "dec_block j = dec_struct block_fields j zero_block"

text \<open>An element of \<open>[]*Block\<close> is a nil pointer for \<open>null\<close>; a nil slice has length 0.\<close>

fun dec_block_ptr :: "json \<Rightarrow> block option option" where
  "dec_block_ptr JNull = Some None"
| "dec_block_ptr j = map_option Some (dec_block j)"

fun dec_blocks :: "json \<Rightarrow> block option list option" where
  "dec_blocks JNull = Some []"
| "dec_blocks (JArr vs) = all_some (map dec_block_ptr vs)"
| "dec_blocks _ = None"

record transaction =
  tx_type :: string
  tx_id :: string
  tx_execution :: raw_message
  tx_fee :: raw_message
  tx_deployment :: raw_message

definition zero_transaction :: transaction where
  "zero_transaction = \<lparr>tx_type = [], tx_id = [], tx_execution = None, tx_fee = None,
     tx_deployment = None\<rparr>"

definition transaction_fields :: "(string \<times> transaction field_dec) list" where
  "transaction_fields =
     [(''type'', fld_string tx_type (\<lambda>s r. r\<lparr>tx_type := s\<rparr>)),
      (''id'', fld_string tx_id (\<lambda>s r. r\<lparr>tx_id := s\<rparr>)),
      (''execution'', fld_raw (\<lambda>m r. r\<lparr>tx_execution := m\<rparr>)),
      (''fee'', fld_raw (\<lambda>m r. r\<lparr>tx_fee := m\<rparr>)),
      (''deployment'', fld_raw (\<lambda>m r. r\<lparr>tx_deployment := m\<rparr>))]"

definition dec_transaction :: "json \<Rightarrow> transaction option" where
  "dec_transaction j = dec_struct transaction_fields j zero_transaction"

record execution_result =
  exec_raw :: raw_message

section \<open>Proving requests and responses\<close>

record proving_request =
  pr_authorization :: raw_message
  pr_fee_authorization :: raw_message
  pr_broadcast :: bool

text \<open>\<open>json.Marshal\<close> of a proving request; an invalid raw message is an error.\<close>

definition marshal_proving_request :: "proving_request \<Rightarrow> string option" where
  "marshal_proving_request pr =
     (case (marshal_raw (pr_authorization pr), marshal_raw (pr_fee_authorization pr)) of
        (Some a, Some f) \<Rightarrow>
          Some (''{'' @ quote ''authorization'' @ '':'' @ a @ '','' @ quote ''fee_authorization'' @
            '':'' @ f @ '','' @ quote ''broadcast'' @ '':'' @ show_bool (pr_broadcast pr) @ ''}'')
      | _ \<Rightarrow> None)"

record broadcast_result =
  br_status :: string
  br_message :: string
  br_status_code :: int

definition zero_broadcast :: broadcast_result where
  "zero_broadcast = \<lparr>br_status = [], br_message = [], br_status_code = 0\<rparr>"

definition broadcast_fields :: "(string \<times> broadcast_result field_dec) list" where
  "broadcast_fields =
     [(''status'', fld_string br_status (\<lambda>s r. r\<lparr>br_status := s\<rparr>)),
      (''message'', fld_string br_message (\<lambda>s r. r\<lparr>br_message := s\<rparr>)),
      (''status_code'', fld_int br_status_code (\<lambda>n r. r\<lparr>br_status_code := n\<rparr>))]"

record proving_response =
  resp_transaction :: raw_message
  resp_broadcast :: "broadcast_result option"

definition zero_response :: proving_response where
  "zero_response = \<lparr>resp_transaction = None, resp_broadcast = None\<rparr>"

text \<open>A pointer member: \<open>null\<close> makes it nil, an object is decoded into the current or a new struct.\<close>

definition fld_broadcast :: "proving_response field_dec" where
  "fld_broadcast raw v r =
     (if v = JNull then Some (r\<lparr>resp_broadcast := None\<rparr>)
      else map_option (\<lambda>b. r\<lparr>resp_broadcast := Some b\<rparr>)
        (dec_struct broadcast_fields v
          (case resp_broadcast r of None \<Rightarrow> zero_broadcast | Some b \<Rightarrow> b)))"

definition response_fields :: "(string \<times> proving_response field_dec) list" where
  "response_fields =
     [(''transaction'', fld_raw (\<lambda>m r. r\<lparr>resp_transaction := m\<rparr>)),
      (''broadcast_result'', fld_broadcast)]"

definition dec_response :: "json \<Rightarrow> proving_response option" where
  "dec_response j = dec_struct response_fields j zero_response"

definition transaction_id :: "proving_response \<Rightarrow> string result" where
  "transaction_id r =
     (if raw_string (resp_transaction r) = [] then Inl ErrEmptyTransaction
      else case unmarshal (dec_one_string ''id'') (raw_string (resp_transaction r)) of
        None \<Rightarrow> Inl (LibErr ''json'')
      | Some txid \<Rightarrow> if txid = [] then Inl ErrEmptyTransactionID else Inr txid)"

record delegated_params =
  dp_request :: proving_request
  dp_privacy :: bool
  dp_url :: string

record proving_error =
  pe_message :: string

record proving_result =
  pres_ok :: bool
  pres_data :: "proving_response option"
  pres_status :: int
  pres_error :: "proving_error option"

record pubkey_response =
  pk_key_id :: string
  pk_public_key :: string

definition zero_pubkey :: pubkey_response where
  "zero_pubkey = \<lparr>pk_key_id = [], pk_public_key = []\<rparr>"

definition dec_pubkey :: "json \<Rightarrow> pubkey_response option" where
  "dec_pubkey j = dec_struct
     [(''key_id'', fld_string pk_key_id (\<lambda>s r. r\<lparr>pk_key_id := s\<rparr>)),
      (''public_key'', fld_string pk_public_key (\<lambda>s r. r\<lparr>pk_public_key := s\<rparr>))] j zero_pubkey"

record encrypted_request =
  enc_key_id :: string
  enc_ciphertext :: string

definition marshal_encrypted_request :: "encrypted_request \<Rightarrow> string" where
  "marshal_encrypted_request r =
     ''{'' @ quote ''key_id'' @ '':'' @ quote (enc_key_id r) @ '','' @
     quote ''ciphertext'' @ '':'' @ quote (enc_ciphertext r) @ ''}''"

end
