(* ===== verification/SDK_World.thy ===== *)
theory SDK_World
  imports SDK_Types
begin

text \<open>
  The world the SDK runs in. A \<open>world\<close> has a clock (nanoseconds since the Unix epoch) and the
  history of everything the program did outside its own memory, newest event first. The
  environment \<open>env\<close> answers: what an HTTP request yields and how long it takes, what the snarkVM
  library returns, what the random source and the rate limiter do, and which ready branch a
  \<open>select\<close> takes. Each answer may depend on the whole history, so a theorem for every environment
  covers every server, however it changes its answers over time.
\<close>

section \<open>Contexts, requests and replies\<close>

text \<open>A context is done from an instant on, or never.\<close>

record ctx =
  cancel_at :: "int option"
  cancel_err :: ctx_error

definition background :: ctx where
  "background = \<lparr>cancel_at = None, cancel_err = Canceled\<rparr>"

text \<open>An \<open>*http.Client\<close> is one the SDK builds with a time-out or one the caller supplies.\<close>

datatype http_client = Built_Client int | User_Client nat

record http_request =
  rq_client :: http_client
  rq_method :: string
  rq_url :: string
  rq_headers :: header
  rq_body :: bytes

record http_response =
  rs_status :: int
  rs_headers :: header
  rs_body :: bytes

text \<open>
  \<open>Do\<close> fails (\<open>Transport_Error\<close>), or the headers arrive and reading the body fails half-way
  (\<open>Read_Error\<close>, with the part that was read), or the whole reply arrives.
\<close>

datatype http_outcome =
    Transport_Error string
  | Read_Error http_response string
  | Reply http_response

text \<open>\<open>fmt.Errorf("what (status %d): %s", resp.StatusCode, body)\<close>.\<close>

definition status_error :: "string \<Rightarrow> http_response \<Rightarrow> sdk_error" where
  "status_error what rs =
     Errorf (what @ '' (status '' @ show_int (rs_status rs) @ ''): '' @ rs_body rs)"

text \<open>\<open>time.Duration\<close> counts nanoseconds.\<close>

definition second :: int where "second = 1000000000"
definition millisecond :: int where "millisecond = 1000000"
definition minute :: int where "minute = 60 * second"
definition hour :: int where "hour = 60 * minute"

section \<open>The C functions of the Rust bridge\<close>

text \<open>
  The functions that \<open>bridge.go\<close> declares \<open>extern\<close> and that return a string. \<open>aleo_verify_signature\<close>,
  which returns an \<open>int\<close>, is the field \<open>ffi_verify\<close> of the environment; \<open>aleo_free_string\<close> releases
  memory and has no effect in the model.
\<close>

datatype hash_fn =
    Hash_bhp256 | Hash_bhp512 | Hash_bhp768 | Hash_bhp1024 | Hash_ped64 | Hash_ped128
  | Hash_psd2 | Hash_psd4 | Hash_psd8 | Hash_psd2_multi | Hash_psd4_multi | Hash_psd8_multi

datatype ffi_call =
    C_private_key_new
  | C_derive_all_keys string
  | C_sign_message string bytes
  | C_decrypt_record string string
  | C_execute_program string string string string
  | C_program_id string
  | C_authorize string string string string string
  | C_proving_request_to_bytes string "string option" bool
  | C_hash hash_fn string
  | C_verify_execution string

section \<open>Environment and world\<close>

datatype event =
    Ev_Http http_request http_outcome
  | Ev_Wait int
  | Ev_Cancelled
  | Ev_Limiter int
  | Ev_Rand nat
  | Ev_Ffi ffi_call
  | Ev_Verify string bytes string

type_synonym history = "event list"

record env =
  respond :: "history \<Rightarrow> http_request \<Rightarrow> http_outcome"
  latency :: "history \<Rightarrow> http_request \<Rightarrow> nat"
  url_error :: "string \<Rightarrow> bool"
  limiter :: "history \<Rightarrow> int \<Rightarrow> nat result"
  rand_bytes :: "history \<Rightarrow> nat \<Rightarrow> bytes result"
  select_done :: "history \<Rightarrow> bool"
  float_to_int :: "nat \<Rightarrow> int"
  ffi :: "history \<Rightarrow> ffi_call \<Rightarrow> string option"
  ffi_verify :: "history \<Rightarrow> string \<Rightarrow> bytes \<Rightarrow> string \<Rightarrow> int"

record world =
  clock :: int
  hist :: history

text \<open>An operation of the SDK in the world.\<close>

type_synonym 'a io = "world \<Rightarrow> 'a \<times> world"

section \<open>Primitive operations\<close>

definition log_event :: "event \<Rightarrow> world \<Rightarrow> world" where
  "log_event e w = w\<lparr>hist := e # hist w\<rparr>"

definition http_do :: "env \<Rightarrow> http_request \<Rightarrow> http_outcome io" where
  "http_do E rq w =
     (let out = respond E (hist w) rq
      in (out, \<lparr>clock = clock w + int (latency E (hist w) rq), hist = Ev_Http rq out # hist w\<rparr>))"

text \<open>
  \<open>select { case <-ctx.Done(): \<dots> case <-time.After(d): \<dots> }\<close>. The earlier of the two wins; when
  both are ready at the same instant the run-time chooses.
\<close>

definition timer_at :: "int \<Rightarrow> world \<Rightarrow> int" where
  "timer_at d w = clock w + max 0 d"

definition done_wins :: "env \<Rightarrow> ctx \<Rightarrow> int \<Rightarrow> world \<Rightarrow> bool" where
  "done_wins E c d w =
     (case cancel_at c of
        None \<Rightarrow> False
      | Some t \<Rightarrow>
          max (clock w) t < timer_at d w \<or> max (clock w) t = timer_at d w \<and> select_done E (hist w))"

definition wait_select :: "env \<Rightarrow> ctx \<Rightarrow> int \<Rightarrow> sdk_error option io" where
  "wait_select E c d w =
     (if done_wins E c d w then
        (Some (CtxErr (cancel_err c)),
         \<lparr>clock = max (clock w) (the (cancel_at c)), hist = Ev_Cancelled # hist w\<rparr>)
      else (None, \<lparr>clock = timer_at d w, hist = Ev_Wait (max 0 d) # hist w\<rparr>))"

text \<open>\<open>rateLimiter.Wait(ctx)\<close>: an error, or the time waited for a token.\<close>

definition limiter_wait :: "env \<Rightarrow> int \<Rightarrow> unit result io" where
  "limiter_wait E rate w =
     (case limiter E (hist w) rate of
        Inl e \<Rightarrow> (Inl e, log_event (Ev_Limiter rate) w)
      | Inr d \<Rightarrow> (Inr (), \<lparr>clock = clock w + int d, hist = Ev_Limiter rate # hist w\<rparr>))"

definition rand_read :: "env \<Rightarrow> nat \<Rightarrow> bytes result io" where
  "rand_read E n w = (rand_bytes E (hist w) n, log_event (Ev_Rand n) w)"

definition c_call :: "env \<Rightarrow> ffi_call \<Rightarrow> string option io" where
  "c_call E f w = (ffi E (hist w) f, log_event (Ev_Ffi f) w)"

definition c_verify :: "env \<Rightarrow> string \<Rightarrow> bytes \<Rightarrow> string \<Rightarrow> int io" where
  "c_verify E a m s w = (ffi_verify E (hist w) a m s, log_event (Ev_Verify a m s) w)"

section \<open>How operations change the world\<close>

text \<open>The history only grows and the clock never goes back.\<close>

definition later :: "world \<Rightarrow> world \<Rightarrow> bool" where
  "later w w' = (suffix (hist w) (hist w') \<and> clock w \<le> clock w')"

lemma later_refl [simp]: "later w w"
  by (simp add: later_def)

lemma later_trans [trans]: "later u v \<Longrightarrow> later v w \<Longrightarrow> later u w"
  by (auto simp: later_def intro: suffix_order.trans)

lemma log_event_sel [simp]:
  "hist (log_event e w) = e # hist w" "clock (log_event e w) = clock w"
  by (simp_all add: log_event_def)

lemma later_log [simp]: "later w (log_event e w)"
  by (simp add: later_def suffix_ConsI)

lemma http_do_sel [world_simps]:
  "fst (http_do E rq w) = respond E (hist w) rq"
  "hist (snd (http_do E rq w)) = Ev_Http rq (respond E (hist w) rq) # hist w"
  by (simp_all add: http_do_def Let_def)

lemma later_http [simp]: "later w (snd (http_do E rq w))"
  by (simp add: later_def http_do_def Let_def suffix_ConsI)

lemma later_wait [simp]: "later w (snd (wait_select E c d w))"
  by (simp add: later_def wait_select_def timer_at_def suffix_ConsI)

lemma later_limiter [simp]: "later w (snd (limiter_wait E r w))"
  by (simp add: later_def limiter_wait_def suffix_ConsI split: sum.split)

lemma later_rand [simp]: "later w (snd (rand_read E n w))"
  by (simp add: rand_read_def)

lemma later_c_call [simp]: "later w (snd (c_call E f w))"
  by (simp add: c_call_def)

lemma later_c_verify [simp]: "later w (snd (c_verify E a m s w))"
  by (simp add: c_verify_def)

lemma wait_select_background: "cancel_at c = None \<Longrightarrow> fst (wait_select E c d w) = None"
  by (simp add: wait_select_def done_wins_def)

lemma wait_select_err: "fst (wait_select E c d w) = Some e \<Longrightarrow> e = CtxErr (cancel_err c)"
  by (auto simp: wait_select_def split: if_splits)

section \<open>Counting requests\<close>

fun is_http :: "event \<Rightarrow> bool" where
  "is_http (Ev_Http _ _) = True"
| "is_http _ = False"

definition requests :: "world \<Rightarrow> nat" where
  "requests w = length (filter is_http (hist w))"

lemma requests_http [world_simps]: "requests (snd (http_do E rq w)) = Suc (requests w)"
  by (simp add: requests_def http_do_def Let_def)

lemma requests_wait [world_simps]: "requests (snd (wait_select E c d w)) = requests w"
  by (simp add: requests_def wait_select_def)

lemma requests_limiter [world_simps]: "requests (snd (limiter_wait E r w)) = requests w"
  by (simp add: requests_def limiter_wait_def split: sum.split)

lemma requests_log [world_simps]: "\<not> is_http e \<Longrightarrow> requests (log_event e w) = requests w"
  by (simp add: requests_def)

lemma requests_c_call [world_simps]: "requests (snd (c_call E f w)) = requests w"
  by (simp add: c_call_def requests_def)

section \<open>Composition\<close>

text \<open>\<open>x, err := m(); if err != nil { return wrap(err) }; return k(x)\<close>.\<close>

definition then_io ::
  "'a result io \<Rightarrow> (sdk_error \<Rightarrow> sdk_error) \<Rightarrow> ('a \<Rightarrow> 'b result io) \<Rightarrow> 'b result io" where
  "then_io m wrap k w =
     (case m w of (Inl e, w') \<Rightarrow> (Inl (wrap e), w') | (Inr x, w') \<Rightarrow> k x w')"

definition ret_io :: "'a \<Rightarrow> 'a io" where
  "ret_io r w = (r, w)"

lemma then_io_simps [simp]:
  "m w = (Inl e, w') \<Longrightarrow> then_io m wrap k w = (Inl (wrap e), w')"
  "m w = (Inr x, w') \<Longrightarrow> then_io m wrap k w = k x w'"
  by (simp_all add: then_io_def)

lemma ret_io_apply [simp]: "ret_io r w = (r, w)"
  by (simp add: ret_io_def)

lemma then_io_Inr:
  assumes "then_io m wrap k w = (Inr y, w')"
  obtains x v where "m w = (Inr x, v)" and "k x v = (Inr y, w')"
  using assms by (auto simp: then_io_def split: prod.splits sum.splits)

lemma then_io_cases:
  assumes "then_io m wrap k w = (r, w')"
  obtains (err) e where "m w = (Inl e, w')" and "r = Inl (wrap e)"
    | (ok) x v where "m w = (Inr x, v)" and "k x v = (r, w')"
  using assms by (auto simp: then_io_def split: prod.splits sum.splits)

text \<open>What every operation does to the world: it moves forward and sends a bounded number of requests.\<close>

definition forward :: "'a io \<Rightarrow> bool" where
  "forward m = (\<forall>w. later w (snd (m w)))"

definition sends :: "'a io \<Rightarrow> nat \<Rightarrow> bool" where
  "sends m n = (\<forall>w. requests (snd (m w)) \<le> requests w + n)"

lemma forwardI: "(\<And>w. later w (snd (m w))) \<Longrightarrow> forward m"
  by (simp add: forward_def)

lemma forwardD: "forward m \<Longrightarrow> m w = (r, w') \<Longrightarrow> later w w'"
  unfolding forward_def by (metis snd_conv)

lemma sendsI: "(\<And>w. requests (snd (m w)) \<le> requests w + n) \<Longrightarrow> sends m n"
  by (simp add: sends_def)

lemma sendsD: "sends m n \<Longrightarrow> m w = (r, w') \<Longrightarrow> requests w' \<le> requests w + n"
  unfolding sends_def by (metis snd_conv)

lemma forward_ret [simp, intro]: "forward (ret_io r)"
  by (simp add: forward_def)

lemma sends_ret [simp, intro]: "sends (ret_io r) n"
  by (simp add: sends_def)

lemma sends_mono: "sends m n \<Longrightarrow> n \<le> n' \<Longrightarrow> sends m n'"
  unfolding sends_def by (meson add_left_mono order_trans)

lemma forward_then [intro]:
  assumes "forward m" and "\<And>x. forward (k x)"
  shows "forward (then_io m wrap k)"
proof (rule forwardI)
  fix w
  obtain r w' where m: "m w = (r, w')" by (cases "m w")
  with assms(1) have "later w w'" by (rule forwardD)
  with assms(2) m show "later w (snd (then_io m wrap k w))"
    by (cases r) (auto simp: forward_def intro: later_trans)
qed

lemma sends_then:
  assumes "sends m n" and "\<And>x. sends (k x) l"
  shows "sends (then_io m wrap k) (n + l)"
proof (rule sendsI)
  fix w
  obtain r w' where m: "m w = (r, w')" by (cases "m w")
  with assms(1) have le: "requests w' \<le> requests w + n" by (rule sendsD)
  show "requests (snd (then_io m wrap k w)) \<le> requests w + (n + l)"
  proof (cases r)
    case (Inr x)
    have "requests (snd (k x w')) \<le> requests w' + l" using assms(2) by (simp add: sends_def)
    with m le Inr show ?thesis by simp
  qed (use m le in simp)
qed

lemma forward_http [simp, intro]: "forward (http_do E rq)"
  and forward_wait [simp, intro]: "forward (wait_select E c d)"
  and forward_limiter [simp, intro]: "forward (limiter_wait E r)"
  and forward_c_call [simp, intro]: "forward (c_call E f)"
  by (simp_all add: forward_def)

section \<open>Small environments for evaluation\<close>

text \<open>
  A quiet environment: every request fails to connect, nothing takes time. Concrete
  instances replace the fields they need.
\<close>

definition quiet_env :: env where
  "quiet_env = \<lparr>respond = (\<lambda>_ _. Transport_Error ''connection refused''), latency = (\<lambda>_ _. 0),
     url_error = (\<lambda>_. False), limiter = (\<lambda>_ _. Inr 0),
     rand_bytes = (\<lambda>_ n. Inr (replicate n (CHR ''r''))), select_done = (\<lambda>_. False),
     float_to_int = (\<lambda>_. min_int64), ffi = (\<lambda>_ _. None), ffi_verify = (\<lambda>_ _ _ _. - 1)\<rparr>"

definition start_world :: world where
  "start_world = \<lparr>clock = 0, hist = []\<rparr>"

end
