(* ===== verification/Import_Resolver.thy ===== *)
theory Import_Resolver
  imports SDK_World
begin

text \<open>
  The depth-first resolution of a program's transitive imports (\<open>collectImports\<close> and
  \<open>collectImportsMap\<close> of \<open>authorization.go\<close>), over any way of fetching a program's source. The two Go
  functions differ only in what they do with a resolved program, which is the argument \<open>add\<close> here. A
  chain of imports need not end, so not returning is \<open>None\<close>. What fetching promises is the
  locale \<open>program_source\<close>; soundness, completeness and the order of the result are proved in it.
\<close>

section \<open>Import lines\<close>

definition import_of :: "string \<Rightarrow> string option" where
  "import_of raw_line =
     (let line = trim_space raw_line
      in if \<not> has_prefix line ''import '' then None
         else
           (let parts = Go_Strings.fields line
            in if length parts < 2 then None else Some (trim_suffix (parts ! 1) '';'')))"

definition source_lines :: "string \<Rightarrow> string list" where
  "source_lines source = split_on (CHR 0x0A) source"

definition credits_aleo :: string where
  "credits_aleo = ''credits.aleo''"

text \<open>The programs a list of lines imports, without the built-in one.\<close>

definition imports_in :: "string list \<Rightarrow> string set" where
  "imports_in ls = {p. \<exists>l \<in> set ls. import_of l = Some p \<and> p \<noteq> credits_aleo}"

definition imports_of :: "string \<Rightarrow> string set" where
  "imports_of source = imports_in (source_lines source)"

lemma imports_in_simps [simp]:
  "imports_in [] = {}"
  "imports_in (l # ls) =
     (case import_of l of Some p \<Rightarrow> if p = credits_aleo then {} else {p} | None \<Rightarrow> {}) \<union> imports_in ls"
  by (auto simp: imports_in_def split: option.splits)

section \<open>The search\<close>

partial_function (option) collect ::
  "(string \<Rightarrow> 's \<Rightarrow> string result \<times> 's) \<Rightarrow> (string \<Rightarrow> string \<Rightarrow> 'a \<Rightarrow> 'a) \<Rightarrow> string list \<Rightarrow> string set \<Rightarrow>
    'a \<Rightarrow> 's \<Rightarrow> ((string set \<times> 'a) result \<times> 's) option" where
  "collect fetch add ls visited acc st =
     (case ls of
        [] \<Rightarrow> Some (Inr (visited, acc), st)
      | l # ls' \<Rightarrow>
          (case import_of l of
             None \<Rightarrow> collect fetch add ls' visited acc st
           | Some p \<Rightarrow>
               if p \<in> visited \<or> p = credits_aleo then collect fetch add ls' visited acc st
               else
                 (case fetch p st of
                    (Inl e, st1) \<Rightarrow> Some (Inl (Wrapf (''fetch import '' @ p) e), st1)
                  | (Inr src, st1) \<Rightarrow>
                      Option.bind (collect fetch add (source_lines src) (insert p visited) acc st1)
                        (\<lambda>(r, st2). case r of
                           Inl e \<Rightarrow> Some (Inl e, st2)
                         | Inr (visited', acc') \<Rightarrow>
                             collect fetch add ls' visited' (add p src acc') st2))))"

lemmas collect_induct = collect.raw_induct [rotated -1, consumes 1, case_names step]

lemma collect_Nil [simp]: "collect fetch add [] visited acc st = Some (Inr (visited, acc), st)"
  by (simp add: collect.simps)

lemma collect_skip:
  assumes "import_of l = None \<or> (\<exists>p. import_of l = Some p \<and> (p \<in> visited \<or> p = credits_aleo))"
  shows "collect fetch add (l # ls) visited acc st = collect fetch add ls visited acc st"
  using assms by (subst collect.simps) (auto split: option.split)

lemma collect_import:
  assumes "import_of l = Some p" and "p \<notin> visited" and "p \<noteq> credits_aleo"
  shows "collect fetch add (l # ls) visited acc st =
    (case fetch p st of
       (Inl e, st1) \<Rightarrow> Some (Inl (Wrapf (''fetch import '' @ p) e), st1)
     | (Inr src, st1) \<Rightarrow>
         Option.bind (collect fetch add (source_lines src) (insert p visited) acc st1)
           (\<lambda>(r, st2). case r of
              Inl e \<Rightarrow> Some (Inl e, st2)
            | Inr (visited', acc') \<Rightarrow> collect fetch add ls visited' (add p src acc') st2))"
  using assms by (subst collect.simps) simp

text \<open>How a search that returned went on from its first line.\<close>

lemma collect_ConsE:
  assumes "collect fetch add (l # ls) visited acc st = Some (r, st')"
  obtains (skip) "import_of l = None \<or> (\<exists>p. import_of l = Some p \<and> (p \<in> visited \<or> p = credits_aleo))"
      and "collect fetch add ls visited acc st = Some (r, st')"
  | (fetch_error) p e where "import_of l = Some p" and "fetch p st = (Inl e, st')"
      and "r = Inl (Wrapf (''fetch import '' @ p) e)"
  | (inner_error) p src st1 e where "import_of l = Some p" and "fetch p st = (Inr src, st1)"
      and "collect fetch add (source_lines src) (insert p visited) acc st1 = Some (Inl e, st')"
      and "r = Inl e"
  | (import) p src st1 visited1 acc1 st2 where "import_of l = Some p" and "p \<notin> visited"
      and "p \<noteq> credits_aleo" and "fetch p st = (Inr src, st1)"
      and "collect fetch add (source_lines src) (insert p visited) acc st1 = Some (Inr (visited1, acc1), st2)"
      and "collect fetch add ls visited1 (add p src acc1) st2 = Some (r, st')"
proof (cases "import_of l = None \<or> (\<exists>p. import_of l = Some p \<and> (p \<in> visited \<or> p = credits_aleo))")
  case True
  with assms show thesis by (intro skip) (simp_all add: collect_skip)
next
  case False
  then obtain p where p: "import_of l = Some p" "p \<notin> visited" "p \<noteq> credits_aleo" by auto
  obtain f st1 where f: "fetch p st = (f, st1)" by (cases "fetch p st")
  show thesis
  proof (cases f)
    case (Inl e)
    with f assms p show thesis by (intro fetch_error [of p e]) (auto simp: collect_import)
  next
    case (Inr src)
    with f assms p obtain q st2 where
      q: "collect fetch add (source_lines src) (insert p visited) acc st1 = Some (q, st2)"
      by (auto simp: collect_import bind_eq_Some_conv)
    show thesis
    proof (cases q)
      case (Inl e)
      with f assms p q Inr show thesis
        by (intro inner_error [of p src st1 e]) (auto simp: collect_import)
    next
      case (Inr va)
      obtain v a where va: "va = (v, a)" by (cases va)
      show thesis
        by (rule import [OF p, of src st1 v a st2])
          (use f assms p q Inr \<open>f = Inr src\<close> va in \<open>simp_all add: collect_import\<close>)
    qed
  qed
qed

section \<open>The search as a big-step relation\<close>

text \<open>The runs that return, for induction over them.\<close>

inductive search ::
  "(string \<Rightarrow> 's \<Rightarrow> string result \<times> 's) \<Rightarrow> (string \<Rightarrow> string \<Rightarrow> 'a \<Rightarrow> 'a) \<Rightarrow> string list \<Rightarrow> string set \<Rightarrow>
    'a \<Rightarrow> 's \<Rightarrow> (string set \<times> 'a) result \<Rightarrow> 's \<Rightarrow> bool"
  for fetch add where
  search_done: "search fetch add [] visited acc st (Inr (visited, acc)) st"
| search_skip: "import_of l = None \<or> (\<exists>p. import_of l = Some p \<and> (p \<in> visited \<or> p = credits_aleo)) \<Longrightarrow>
    search fetch add ls visited acc st r st' \<Longrightarrow> search fetch add (l # ls) visited acc st r st'"
| search_error: "import_of l = Some p \<Longrightarrow> p \<notin> visited \<Longrightarrow> p \<noteq> credits_aleo \<Longrightarrow>
    fetch p st = (Inl e, st') \<Longrightarrow>
    search fetch add (l # ls) visited acc st (Inl (Wrapf (''fetch import '' @ p) e)) st'"
| search_inner: "import_of l = Some p \<Longrightarrow> p \<notin> visited \<Longrightarrow> p \<noteq> credits_aleo \<Longrightarrow>
    fetch p st = (Inr src, st1) \<Longrightarrow>
    search fetch add (source_lines src) (insert p visited) acc st1 (Inl e) st' \<Longrightarrow>
    search fetch add (l # ls) visited acc st (Inl e) st'"
| search_import: "import_of l = Some p \<Longrightarrow> p \<notin> visited \<Longrightarrow> p \<noteq> credits_aleo \<Longrightarrow>
    fetch p st = (Inr src, st1) \<Longrightarrow>
    search fetch add (source_lines src) (insert p visited) acc st1 (Inr (v1, acc1)) st2 \<Longrightarrow>
    search fetch add ls v1 (add p src acc1) st2 r st' \<Longrightarrow>
    search fetch add (l # ls) visited acc st r st'"

inductive_cases search_NilE: "search fetch add [] visited acc st r st'"
inductive_cases search_ConsE: "search fetch add (l # ls) visited acc st r st'"

lemma collect_search:
  "collect fetch add ls visited acc st = Some z \<Longrightarrow> search fetch add ls visited acc st (fst z) (snd z)"
proof (induction rule: collect_induct)
  case (step rec fetch add ls visited acc st z)
  show ?case
  proof (cases ls)
    case Nil
    with step.hyps show ?thesis by (auto intro: search_done)
  next
    case (Cons l ls')
    show ?thesis
    proof (cases "import_of l = None \<or> (\<exists>p. import_of l = Some p \<and> (p \<in> visited \<or> p = credits_aleo))")
      case True
      with Cons step.hyps have "rec fetch add ls' visited acc st = Some z" by (auto split: if_splits)
      with True Cons step.IH show ?thesis by (auto intro: search_skip)
    next
      case False
      then obtain p where p: "import_of l = Some p" "p \<notin> visited" "p \<noteq> credits_aleo" by auto
      obtain f st1 where f: "fetch p st = (f, st1)" by (cases "fetch p st")
      show ?thesis
      proof (cases f)
        case (Inl e)
        with Cons step.hyps p f show ?thesis
          using search_error [of l p visited fetch st e st1 add ls' acc] by auto
      next
        case (Inr src)
        with Cons step.hyps p f obtain q st2 where
          q: "rec fetch add (source_lines src) (insert p visited) acc st1 = Some (q, st2)"
          by (auto simp: bind_eq_Some_conv)
        note inner = step.IH [OF q, simplified]
        show ?thesis
        proof (cases q)
          case (Inl e)
          with Cons step.hyps p f q inner \<open>f = Inr src\<close> show ?thesis
            by (auto intro: search_inner)
        next
          case (Inr va)
          obtain v a where va: "va = (v, a)" by (cases va)
          with Cons step.hyps p f q Inr \<open>f = Inr src\<close>
          have "rec fetch add ls' v (add p src a) st2 = Some z" by simp
          from step.IH [OF this] inner p f Inr va \<open>f = Inr src\<close> Cons show ?thesis
            by (auto intro: search_import)
        qed
      qed
    qed
  qed
qed

text \<open>What is added commutes with what the caller keeps of it.\<close>

lemma search_image:
  assumes "search fetch add ls visited acc st r st'"
    and "\<And>p src a. h (add p src a) = add2 p src (h a)"
  shows "collect fetch add2 ls visited (h acc) st = Some (map_sum id (map_prod id h) r, st')"
  using assms(1)
proof induction
  case (search_import l p visited st src st1 acc v1 acc1 st2 ls r st')
  then show ?case by (simp add: collect_import assms(2))
qed (simp_all add: collect_skip collect_import)

lemma search_collect: "search fetch add ls visited acc st r st' \<Longrightarrow>
    collect fetch add ls visited acc st = Some (r, st')"
  using search_image [of fetch add ls visited acc st r st' id add] by (simp add: map_prod.id sum.map_id)

text \<open>The accumulator that keeps everything.\<close>

definition trace :: "string \<Rightarrow> string \<Rightarrow> (string \<times> string) list \<Rightarrow> (string \<times> string) list" where
  "trace p src xs = xs @ [(p, src)]"

text \<open>Which run it is does not depend on what is added: the errors and the visited programs agree.\<close>

fun same_run :: "(string set \<times> 'a) result \<Rightarrow> (string set \<times> 'b) result \<Rightarrow> bool" where
  "same_run (Inl e) (Inl e') = (e = e')"
| "same_run (Inr (v, _)) (Inr (v', _)) = (v = v')"
| "same_run _ _ = False"

lemma same_runE:
  "same_run (Inl e) r \<Longrightarrow> r = Inl e"
  "same_run (Inr (v, a)) r \<Longrightarrow> \<exists>b. r = Inr (v, b)"
  by (cases r; auto)+

lemma search_any:
  assumes "search fetch add ls visited acc st r st'"
  shows "\<exists>r2. search fetch add2 ls visited acc2 st r2 st' \<and> same_run r r2"
  using assms
proof (induction arbitrary: acc2)
  case (search_done visited acc st)
  then show ?case by (intro exI [of _ "Inr (visited, acc2)"]) (simp add: search.search_done)
next
  case (search_skip l visited ls acc st r st')
  then show ?case by (meson search.search_skip)
next
  case (search_error l p visited st e st' ls acc)
  then show ?case
    by (intro exI [of _ "Inl (Wrapf (''fetch import '' @ p) e)"]) (simp add: search.search_error [simplified])
next
  case (search_inner l p visited st src st1 acc e st' ls)
  from search_inner.IH [of acc2]
  have "search fetch add2 (source_lines src) (insert p visited) acc2 st1 (Inl e) st'"
    by (auto dest: same_runE)
  with search_inner.hyps show ?case by (intro exI [of _ "Inl e"]) (simp add: search.search_inner)
next
  case (search_import l p visited st src st1 acc v1 acc1 st2 ls r st')
  from search_import.IH(1) [of acc2] obtain a2 where
    "search fetch add2 (source_lines src) (insert p visited) acc2 st1 (Inr (v1, a2)) st2"
    by (auto dest: same_runE)
  moreover from search_import.IH(2) [of "add2 p src a2"] obtain r2 where
    "search fetch add2 ls v1 (add2 p src a2) st2 r2 st'" "same_run r r2" by blast
  ultimately show ?case
    using search_import.hyps by (meson search.search_import)
qed

text \<open>So every run has a trace, of which its result is the image.\<close>

lemma collect_trace:
  assumes "collect fetch add ls visited (h []) st = Some (Inr (v, a), st')"
    and "\<And>p src a. h (trace p src a) = add p src (h a)"
  obtains tr where "search fetch trace ls visited [] st (Inr (v, tr)) st'" and "a = h tr"
proof -
  have "search fetch add ls visited (h []) st (Inr (v, a)) st'"
    using collect_search [OF assms(1)] by simp
  from search_any [OF this, of trace "[]"] obtain tr where
    tr: "search fetch trace ls visited [] st (Inr (v, tr)) st'"
    by (auto dest: same_runE)
  with search_image [OF tr, of h add] assms show thesis by (intro that [of tr]) auto
qed

section \<open>What fetching promises\<close>

definition dep :: "(string \<Rightarrow> string option) \<Rightarrow> (string \<times> string) set" where
  "dep prog = {(p, q). \<exists>s. prog p = Some s \<and> q \<in> imports_of s}"

text \<open>Every program comes after the programs it imports.\<close>

definition topo :: "(string \<times> string) list \<Rightarrow> bool" where
  "topo xs = (\<forall>i < length xs. imports_of (snd (xs ! i)) \<subseteq> fst ` set (take i xs))"

lemma topo_Nil [simp]: "topo []"
  by (simp add: topo_def)

lemma topo_snoc: "topo (xs @ [(p, s)]) \<longleftrightarrow> topo xs \<and> imports_of s \<subseteq> fst ` set xs"
  by (auto simp: topo_def nth_append less_Suc_eq)

text \<open>
  What a search over the lines \<open>ls\<close> adds to a trace, with \<open>visited\<close> seen before it: programs that are
  new, each once; with them everything is seen that the lines and the added sources import; and no
  program without need, so they are in every set with the imports of the lines and, with one of them,
  the imports of its source.
\<close>

definition import_trace :: "string list \<Rightarrow> string set \<Rightarrow> (string \<times> string) list \<Rightarrow> bool" where
  "import_trace ls visited new =
     (distinct (map fst new) \<and> visited \<inter> fst ` set new = {} \<and>
      imports_in ls \<subseteq> visited \<union> fst ` set new \<and>
      (\<forall>p s. (p, s) \<in> set new \<longrightarrow> imports_of s \<subseteq> visited \<union> fst ` set new) \<and>
      (\<forall>X. imports_in ls \<subseteq> X \<longrightarrow> (\<forall>p s. (p, s) \<in> set new \<longrightarrow> p \<in> X \<longrightarrow> imports_of s \<subseteq> X) \<longrightarrow>
        fst ` set new \<subseteq> X))"

lemma import_traceI:
  assumes "distinct (map fst new)" and "visited \<inter> fst ` set new = {}"
    and "imports_in ls \<subseteq> visited \<union> fst ` set new"
    and "\<And>p s. (p, s) \<in> set new \<Longrightarrow> imports_of s \<subseteq> visited \<union> fst ` set new"
    and "\<And>X. imports_in ls \<subseteq> X \<Longrightarrow>
      (\<And>p s. (p, s) \<in> set new \<Longrightarrow> p \<in> X \<Longrightarrow> imports_of s \<subseteq> X) \<Longrightarrow> fst ` set new \<subseteq> X"
  shows "import_trace ls visited new"
  unfolding import_trace_def
  by (intro conjI allI impI) (rule assms(1,2,3) | erule assms(4) | (erule assms(5), simp))+

lemma import_traceD:
  assumes "import_trace ls visited new"
  shows "distinct (map fst new)" and "visited \<inter> fst ` set new = {}"
    and "imports_in ls \<subseteq> visited \<union> fst ` set new"
    and "(p, s) \<in> set new \<Longrightarrow> imports_of s \<subseteq> visited \<union> fst ` set new"
    and "imports_in ls \<subseteq> X \<Longrightarrow>
      (\<And>p s. (p, s) \<in> set new \<Longrightarrow> p \<in> X \<Longrightarrow> imports_of s \<subseteq> X) \<Longrightarrow> fst ` set new \<subseteq> X"
proof -
  note tr = assms [unfolded import_trace_def]
  note rest = tr [THEN conjunct2]
  show "distinct (map fst new)" by (rule tr [THEN conjunct1])
  show "visited \<inter> fst ` set new = {}" by (rule rest [THEN conjunct1])
  show "imports_in ls \<subseteq> visited \<union> fst ` set new" by (rule rest [THEN conjunct2, THEN conjunct1])
  show "imports_of s \<subseteq> visited \<union> fst ` set new" if "(p, s) \<in> set new"
    using rest [THEN conjunct2, THEN conjunct2, THEN conjunct1] that by simp
  assume "imports_in ls \<subseteq> X" and "\<And>p s. (p, s) \<in> set new \<Longrightarrow> p \<in> X \<Longrightarrow> imports_of s \<subseteq> X"
  then show "fst ` set new \<subseteq> X"
    by (intro rest [THEN conjunct2, THEN conjunct2, THEN conjunct2, rule_format])
qed

lemma import_trace_skip:
  assumes "import_of l = None \<or> (\<exists>p. import_of l = Some p \<and> (p \<in> visited \<or> p = credits_aleo))"
    and "import_trace ls visited new"
  shows "import_trace (l # ls) visited new"
proof (rule import_traceI)
  note tr = import_traceD [OF assms(2)]
  have sub: "imports_in ls \<subseteq> imports_in (l # ls)" "imports_in (l # ls) \<subseteq> visited \<union> imports_in ls"
    using assms(1) by (auto split: if_splits)
  show "imports_in (l # ls) \<subseteq> visited \<union> fst ` set new" using sub(2) tr(3) by blast
  fix X
  assume "imports_in (l # ls) \<subseteq> X" and "\<And>p s. (p, s) \<in> set new \<Longrightarrow> p \<in> X \<Longrightarrow> imports_of s \<subseteq> X"
  then show "fst ` set new \<subseteq> X" using sub(1) by (intro tr(5)) (rule subset_trans)
qed (fact import_traceD [OF assms(2)])+

lemma import_trace_import:
  assumes "import_of l = Some p" and "p \<notin> visited" and "p \<noteq> credits_aleo"
    and "import_trace (source_lines src) (insert p visited) new1"
    and "import_trace ls (insert p visited \<union> fst ` set new1) new2"
  shows "import_trace (l # ls) visited (new1 @ [(p, src)] @ new2)"
proof (rule import_traceI)
  note one = import_traceD [OF assms(4)] and two = import_traceD [OF assms(5)]
  have imp: "imports_in (l # ls) = insert p (imports_in ls)" using assms(1,3) by simp
  show "distinct (map fst (new1 @ [(p, src)] @ new2))" "visited \<inter> fst ` set (new1 @ [(p, src)] @ new2) = {}"
    using one(1,2) two(1,2) assms(2) by auto
  show "imports_in (l # ls) \<subseteq> visited \<union> fst ` set (new1 @ [(p, src)] @ new2)"
    using two(3) unfolding imp by auto
  have src: "imports_of src \<subseteq> insert p visited \<union> fst ` set new1" using one(3) by (simp add: imports_of_def)
  show "imports_of s \<subseteq> visited \<union> fst ` set (new1 @ [(p, src)] @ new2)"
    if "(q, s) \<in> set (new1 @ [(p, src)] @ new2)" for q s
  proof -
    from that consider "(q, s) \<in> set new1" | "s = src" | "(q, s) \<in> set new2" by auto
    then have "imports_of s \<subseteq> insert p visited \<union> fst ` set new1 \<union> fst ` set new2"
      using one(4) two(4) src by cases blast+
    then show ?thesis by auto
  qed
  fix X
  assume first: "imports_in (l # ls) \<subseteq> X"
    and closed: "\<And>q s. (q, s) \<in> set (new1 @ [(p, src)] @ new2) \<Longrightarrow> q \<in> X \<Longrightarrow> imports_of s \<subseteq> X"
  have p: "p \<in> X" and ls: "imports_in ls \<subseteq> X" using first unfolding imp by auto
  from p closed [of p src] have "imports_in (source_lines src) \<subseteq> X" by (simp add: imports_of_def)
  then have "fst ` set new1 \<subseteq> X" by (rule one(5)) (rule closed, simp_all)
  moreover from ls have "fst ` set new2 \<subseteq> X" by (rule two(5)) (rule closed, simp_all)
  ultimately show "fst ` set (new1 @ [(p, src)] @ new2) \<subseteq> X" using p by (simp add: image_Un)
qed

lemma import_trace_deps:
  assumes "import_trace ls {} new"
  shows "fst ` set new = (dep (map_of new))\<^sup>* `` imports_in ls"
proof
  note tr = import_traceD [OF assms]
  let ?D = "dep (map_of new)"
  have dep: "(p, q) \<in> ?D" if "(p, s) \<in> set new" "q \<in> imports_of s" for p s q
    using tr(1) that by (auto simp: dep_def)
  show "fst ` set new \<subseteq> ?D\<^sup>* `` imports_in ls"
    by (rule tr(5)) (use dep in \<open>blast intro: rtrancl_into_rtrancl\<close>)+
  show "?D\<^sup>* `` imports_in ls \<subseteq> fst ` set new"
  proof
    fix q
    assume "q \<in> ?D\<^sup>* `` imports_in ls"
    then obtain p where "p \<in> imports_in ls" "(p, q) \<in> ?D\<^sup>*" by auto
    from this(2,1) show "q \<in> fst ` set new"
    proof (induction rule: rtrancl_induct)
      case base
      then show ?case using tr(3) by auto
    next
      case (step y z)
      from step.hyps(2) obtain s where "map_of new y = Some s" "z \<in> imports_of s"
        by (auto simp: dep_def)
      then show ?case using tr(4) [OF map_of_SomeD] by blast
    qed
  qed
qed

text \<open>
  A state of the search: the visited programs are those on the path (\<open>S\<close>) and those finished
  (in the trace \<open>a\<close>); the trace has no duplicates, tells the truth and is in order.
\<close>

definition search_inv ::
  "(string \<Rightarrow> string option) \<Rightarrow> string set \<Rightarrow> string set \<Rightarrow> (string \<times> string) list \<Rightarrow> bool" where
  "search_inv prog S visited a =
     (visited = S \<union> fst ` set a \<and> S \<inter> fst ` set a = {} \<and> topo a \<and> distinct (map fst a) \<and>
      (\<forall>(p, s) \<in> set a. prog p = Some s))"

text \<open>
  The contract comes in two steps. Any fetch whose state keeps an invariant keeps it through a whole
  resolution; a \<open>program_source\<close> also tells the truth about the deployed programs.
\<close>

locale stateful_fetch =
  fixes fetch :: "string \<Rightarrow> 's \<Rightarrow> string result \<times> 's"
    and inv :: "'s \<Rightarrow> bool"
  assumes fetch_inv: "inv st \<Longrightarrow> fetch p st = (r, st') \<Longrightarrow> inv st'"
begin

lemma search_keeps_inv: "search fetch add ls visited acc st r st' \<Longrightarrow> inv st \<Longrightarrow> inv st'"
  by (induction rule: search.induct) (auto dest: fetch_inv)

lemma collect_keeps_inv: "collect fetch add ls visited acc st = Some (r, st') \<Longrightarrow> inv st \<Longrightarrow> inv st'"
  using search_keeps_inv by (fastforce dest: collect_search)

text \<open>The sources in a trace are those that were fetched under the programs' names.\<close>

lemma search_trace:
  assumes "search fetch trace ls visited acc st r st'" and "r = Inr (v, a)" and "inv st"
  shows "\<exists>new. a = acc @ new \<and> v = visited \<union> fst ` set new \<and> import_trace ls visited new \<and>
    (\<forall>x \<in> set new. \<exists>u u'. inv u \<and> fetch (fst x) u = (Inr (snd x), u'))"
  using assms
proof (induction arbitrary: v a)
  case (search_done visited acc st)
  then show ?case by (simp add: import_trace_def)
next
  case (search_skip l visited ls acc st r st')
  from search_skip.IH [OF search_skip.prems] obtain new where "a = acc @ new"
    "v = visited \<union> fst ` set new" "import_trace ls visited new"
    "\<forall>x \<in> set new. \<exists>u u'. inv u \<and> fetch (fst x) u = (Inr (snd x), u')" by blast
  with import_trace_skip [OF search_skip.hyps(1)] show ?case by blast
next
  case (search_import l p visited st src st1 acc v1 acc1 st2 ls r st')
  have st1: "inv st1" using fetch_inv search_import.hyps(4) search_import.prems(2) by blast
  have st2: "inv st2" using search_keeps_inv [OF search_import.hyps(5) st1] .
  from search_import.IH(1) [OF refl st1] obtain new1 where one: "acc1 = acc @ new1"
    "v1 = insert p visited \<union> fst ` set new1" "import_trace (source_lines src) (insert p visited) new1"
    "\<forall>x \<in> set new1. \<exists>u u'. inv u \<and> fetch (fst x) u = (Inr (snd x), u')" by blast
  from search_import.IH(2) [OF search_import.prems(1) st2] obtain new2 where
    two: "a = trace p src acc1 @ new2" "v = v1 \<union> fst ` set new2" "import_trace ls v1 new2"
    "\<forall>x \<in> set new2. \<exists>u u'. inv u \<and> fetch (fst x) u = (Inr (snd x), u')" by blast
  have "import_trace (l # ls) visited (new1 @ [(p, src)] @ new2)"
    using import_trace_import [OF search_import.hyps(1-3) one(3)] two(3) one(2) by simp
  moreover have "\<exists>u u'. inv u \<and> fetch (fst (p, src)) u = (Inr (snd (p, src)), u')"
    using search_import.hyps(4) search_import.prems(2) unfolding fst_conv snd_conv by blast
  then have "\<forall>x \<in> set (new1 @ [(p, src)] @ new2). \<exists>u u'. inv u \<and> fetch (fst x) u = (Inr (snd x), u')"
    using one(4) two(4) by (simp only: set_append ball_Un list.set ball_simps HOL.simp_thms)
  moreover have "a = acc @ (new1 @ [(p, src)] @ new2)"
    "v = visited \<union> fst ` set (new1 @ [(p, src)] @ new2)"
    using one(1,2) two(1,2) by (auto simp: trace_def)
  ultimately show ?case by blast
qed simp_all

end

locale program_source = stateful_fetch fetch inv
  for fetch :: "string \<Rightarrow> 's \<Rightarrow> string result \<times> 's" and inv :: "'s \<Rightarrow> bool" +
  fixes prog :: "string \<Rightarrow> string option"
  assumes fetch_sound: "inv st \<Longrightarrow> fetch p st = (Inr src, st') \<Longrightarrow> prog p = Some src"
begin

lemma search_sound:
  assumes "search fetch trace ls visited acc st r st'" and "r = Inr (v, a)" and "inv st"
    and "acyclic (dep prog)" and "search_inv prog S visited acc"
    and "\<forall>x \<in> S. \<forall>q \<in> imports_in ls. (x, q) \<in> (dep prog)\<^sup>+"
  shows "search_inv prog S v a \<and> imports_in ls \<subseteq> fst ` set a \<and>
    (\<exists>new. a = acc @ new \<and> (\<forall>p \<in> fst ` set new. \<exists>q \<in> imports_in ls. (q, p) \<in> (dep prog)\<^sup>*))"
  using assms(1-3,5,6)
proof (induction arbitrary: S v a)
  case (search_done visited acc st)
  then show ?case by simp
next
  case (search_skip l visited ls acc st r st')
  have "search_inv prog S v a \<and> imports_in ls \<subseteq> fst ` set a \<and>
    (\<exists>new. a = acc @ new \<and> (\<forall>p \<in> fst ` set new. \<exists>q \<in> imports_in ls. (q, p) \<in> (dep prog)\<^sup>*))"
    using search_skip.prems by (intro search_skip.IH) auto
  moreover have "p \<in> fst ` set acc" if p: "import_of l = Some p" "p \<noteq> credits_aleo" for p
  proof -
    have "p \<in> visited" using search_skip.hyps(1) p by auto
    moreover have "p \<notin> S"
      using search_skip.prems(4) p assms(4) by (auto simp: acyclic_def)
    ultimately show ?thesis using search_skip.prems(3) by (auto simp: search_inv_def)
  qed
  ultimately show ?case by (auto split: option.splits)
next
  case (search_import l p visited st src st1 acc v1 acc1 st2 ls r st')
  have prog: "prog p = Some src" using fetch_sound search_import.hyps(4) search_import.prems(2) by blast
  have st1: "inv st1" using fetch_inv search_import.hyps(4) search_import.prems(2) by blast
  have st2: "inv st2" using search_keeps_inv [OF search_import.hyps(5) st1] .
  have dep: "(p, q) \<in> dep prog" if "q \<in> imports_in (source_lines src)" for q
    using that prog by (auto simp: dep_def imports_of_def)
  have path: "(x, p) \<in> (dep prog)\<^sup>+" if "x \<in> S" for x
    using search_import.prems(4) that search_import.hyps(1,3) by auto
  have inner: "search_inv prog (insert p S) v1 acc1 \<and> imports_in (source_lines src) \<subseteq> fst ` set acc1 \<and>
    (\<exists>new. acc1 = acc @ new \<and> (\<forall>p' \<in> fst ` set new. \<exists>q \<in> imports_in (source_lines src).
       (q, p') \<in> (dep prog)\<^sup>*))"
  proof (rule search_import.IH(1) [OF refl st1])
    show "search_inv prog (insert p S) (insert p visited) acc"
      using search_import.prems(3) search_import.hyps(2) by (auto simp: search_inv_def)
    show "\<forall>x \<in> insert p S. \<forall>q \<in> imports_in (source_lines src). (x, q) \<in> (dep prog)\<^sup>+"
      using dep path by (auto intro: trancl_into_trancl)
  qed
  then obtain new1 where new1: "acc1 = acc @ new1"
    "\<forall>p' \<in> fst ` set new1. \<exists>q \<in> imports_in (source_lines src). (q, p') \<in> (dep prog)\<^sup>*" by blast
  have outer: "search_inv prog S v a \<and> imports_in ls \<subseteq> fst ` set a \<and>
    (\<exists>new. a = trace p src acc1 @ new \<and>
       (\<forall>p' \<in> fst ` set new. \<exists>q \<in> imports_in ls. (q, p') \<in> (dep prog)\<^sup>*))"
  proof (rule search_import.IH(2) [OF search_import.prems(1) st2])
    show "search_inv prog S v1 (trace p src acc1)"
      using inner prog search_import.hyps(2) search_import.prems(3)
      by (auto simp: search_inv_def trace_def topo_snoc imports_of_def)
    show "\<forall>x \<in> S. \<forall>q \<in> imports_in ls. (x, q) \<in> (dep prog)\<^sup>+"
      using search_import.prems(4) by auto
  qed
  then obtain new2 where new2: "a = trace p src acc1 @ new2"
    "\<forall>p' \<in> fst ` set new2. \<exists>q \<in> imports_in ls. (q, p') \<in> (dep prog)\<^sup>*" by blast
  have p_in: "p \<in> imports_in (l # ls)" using search_import.hyps(1,3) by simp
  have "\<exists>q \<in> imports_in (l # ls). (q, p') \<in> (dep prog)\<^sup>*"
    if "p' \<in> fst ` set (new1 @ [(p, src)] @ new2)" for p'
  proof -
    have "(p, p') \<in> (dep prog)\<^sup>*" if "p' \<in> fst ` set new1"
      using new1(2) that dep by (meson converse_rtrancl_into_rtrancl)
    moreover have "\<exists>q \<in> imports_in (l # ls). (q, p') \<in> (dep prog)\<^sup>*" if "p' \<in> fst ` set new2"
      using new2(2) that by auto
    ultimately show ?thesis using that p_in by auto
  qed
  moreover have "a = acc @ (new1 @ [(p, src)] @ new2)"
    using new1(1) new2(1) by (simp add: trace_def)
  moreover have "imports_in (l # ls) \<subseteq> fst ` set a"
    using outer new2(1) search_import.hyps(1,3) by (auto simp: trace_def)
  ultimately show ?case using outer by blast
qed simp_all

text \<open>
  With finitely many programs to be had the search returns, also when imports are cyclic: every
  program is entered at most once.
\<close>

lemma collect_returns:
  assumes "finite (dom prog)" and "inv st"
  shows "\<exists>r st'. collect fetch add ls visited acc st = Some (r, st') \<and>
    (\<forall>v a. r = Inr (v, a) \<longrightarrow> visited \<subseteq> v \<and> inv st')"
  using assms(2)
proof (induction "card (dom prog - visited)" arbitrary: ls visited acc st rule: less_induct)
  case less
  have outer: "\<exists>r st'. collect fetch add ls v acc st = Some (r, st') \<and>
      (\<forall>v' a. r = Inr (v', a) \<longrightarrow> v \<subseteq> v' \<and> inv st')" if "visited \<subseteq> v" "inv st" for ls v acc st
    using that
  proof (induction ls arbitrary: v acc st)
    case (Cons l ls)
    show ?case
    proof (cases "import_of l = None \<or> (\<exists>p. import_of l = Some p \<and> (p \<in> v \<or> p = credits_aleo))")
      case True
      with Cons show ?thesis by (simp add: collect_skip)
    next
      case False
      then obtain p where p: "import_of l = Some p" "p \<notin> v" "p \<noteq> credits_aleo" by auto
      obtain f st1 where f: "fetch p st = (f, st1)" by (cases "fetch p st")
      show ?thesis
      proof (cases f)
        case (Inl e)
        with f p show ?thesis by (simp add: collect_import)
      next
        case (Inr src)
        with f fetch_sound Cons.prems(2) have "p \<in> dom prog" by blast
        with p(2) Cons.prems(1) assms(1) have "card (dom prog - insert p v) < card (dom prog - visited)"
          by (intro psubset_card_mono) auto
        moreover have "inv st1" using f Inr fetch_inv Cons.prems(2) by blast
        ultimately obtain q st2 where
          q: "collect fetch add (source_lines src) (insert p v) acc st1 = Some (q, st2)"
            "\<forall>v' a. q = Inr (v', a) \<longrightarrow> insert p v \<subseteq> v' \<and> inv st2"
          using less.hyps [of "insert p v" st1 "source_lines src" acc] by blast
        show ?thesis
        proof (cases q)
          case (Inl e)
          with f p q Inr show ?thesis by (simp add: collect_import)
        next
          case (Inr va)
          obtain v1 a1 where va: "va = (v1, a1)" by (cases va)
          with q(2) Inr have "insert p v \<subseteq> v1" "inv st2" by blast+
          with Cons.IH [of v1 st2 "add p src a1"] Cons.prems obtain r st' where
            "collect fetch add ls v1 (add p src a1) st2 = Some (r, st')"
            "\<forall>v' a. r = Inr (v', a) \<longrightarrow> v1 \<subseteq> v' \<and> inv st'"
            by blast
          with f p q(1) Inr va \<open>f = Inr src\<close> \<open>insert p v \<subseteq> v1\<close> show ?thesis
            by (auto simp: collect_import)
        qed
      qed
    qed
  qed simp
  show ?case by (rule outer) (use less.prems in simp_all)
qed

text \<open>A truthful trace in order holds, with a program, everything that is reachable from it.\<close>

lemma topo_closed:
  assumes "topo tr" and "\<forall>(p, s) \<in> set tr. prog p = Some s"
    and "p \<in> fst ` set tr" and "(p, q) \<in> (dep prog)\<^sup>*"
  shows "q \<in> fst ` set tr"
  using assms(4)
proof (induction rule: rtrancl_induct)
  case (step y z)
  then obtain i where i: "i < length tr" "fst (tr ! i) = y" by (auto simp: in_set_conv_nth)
  have "prog (fst (tr ! i)) = Some (snd (tr ! i))"
    using bspec [OF assms(2) nth_mem [OF i(1)]] by (simp add: case_prod_beta)
  then have "prog y = Some (snd (tr ! i))" by (simp only: i(2))
  with step.hyps(2) have "z \<in> imports_of (snd (tr ! i))" by (auto simp: dep_def)
  then have "z \<in> fst ` set (take i tr)" using assms(1) i(1) unfolding topo_def by blast
  then show ?case using set_take_subset [of i tr] by blast
qed (rule assms(3))

lemma search_order:
  assumes "search fetch trace (source_lines source) {} [] st (Inr (v, tr)) st'" and "inv st"
    and "acyclic (dep prog)"
  shows "distinct (map fst tr) \<and> map prog (map fst tr) = map Some (map snd tr) \<and>
    set (map fst tr) = (dep prog)\<^sup>* `` imports_of source \<and>
    (\<forall>i < length (map fst tr). imports_of (map snd tr ! i) \<subseteq> set (take i (map fst tr)))"
proof -
  have sound: "search_inv prog {} v tr \<and> imports_in (source_lines source) \<subseteq> fst ` set tr \<and>
      (\<exists>new. tr = [] @ new \<and> (\<forall>p \<in> fst ` set new. \<exists>q \<in> imports_in (source_lines source).
         (q, p) \<in> (dep prog)\<^sup>*))"
    using assms(2,3) by (intro search_sound [OF assms(1) refl]) (auto simp: search_inv_def)
  then have topo: "topo tr" and dist: "distinct (map fst tr)"
    and prog: "\<forall>(p, s) \<in> set tr. prog p = Some s"
    and first: "imports_of source \<subseteq> fst ` set tr"
    unfolding search_inv_def imports_of_def by blast+
  have "fst ` set tr \<subseteq> (dep prog)\<^sup>* `` imports_of source"
    using sound unfolding imports_of_def by fastforce
  moreover have "(dep prog)\<^sup>* `` imports_of source \<subseteq> fst ` set tr"
    using topo_closed [OF topo prog] first by blast
  ultimately have "set (map fst tr) = (dep prog)\<^sup>* `` imports_of source" by auto
  moreover have "map prog (map fst tr) = map Some (map snd tr)" using prog by auto
  moreover have "\<forall>i < length (map fst tr). imports_of (map snd tr ! i) \<subseteq> set (take i (map fst tr))"
    using topo by (simp add: topo_def take_map)
  ultimately show ?thesis using dist by blast
qed

end

end
