(* ===== verification/Retry.thy ===== *)
theory Retry
  imports SDK_World
begin

text \<open>
  The shape of the SDK's retry loops, \<open>for attempt := 0; attempt <= max; attempt++\<close> with a body that
  either returns from the function or continues, shared by \<open>NetworkClient.get\<close> and
  \<open>SubmitProvingRequestSafe\<close>, and their exponential back-off. The contract of a loop body is a
  locale: the world only moves forward and one attempt sends a bounded number of requests. What
  follows for the whole loop is proved once, and both clients interpret it.
\<close>

section \<open>The loop\<close>

datatype ('a, 'b) step = Stop 'a | Again 'b

text \<open>
  \<open>n\<close> attempts are left, the next one has number \<open>k\<close>, \<open>prev\<close> is what the previous attempt left
  behind and \<open>fin\<close> the value returned when no attempt is left.
\<close>

fun retry ::
  "(nat \<Rightarrow> world \<Rightarrow> ('a, 'b) step \<times> world) \<Rightarrow> ('b \<Rightarrow> 'a) \<Rightarrow> nat \<Rightarrow> nat \<Rightarrow> 'b \<Rightarrow> 'a io" where
  "retry body fin 0 k prev w = (fin prev, w)"
| "retry body fin (Suc n) k prev w =
     (case body k w of
        (Stop r, w') \<Rightarrow> (r, w')
      | (Again l, w') \<Rightarrow> retry body fin n (Suc k) l w')"

text \<open>\<open>attempt\<close> runs from 0 to the configured maximum inclusive, not at all for a negative one.\<close>

definition attempts :: "int \<Rightarrow> nat" where
  "attempts max_retries = nat (max_retries + 1)"

section \<open>Exponential back-off\<close>

text \<open>
  \<open>base * time.Duration(math.Pow(2, float64(attempt-1)))\<close>: the power is exact while it fits a
  signed 64-bit integer; beyond that Go leaves the conversion to the platform. The product wraps.
\<close>

definition pow2_duration :: "env \<Rightarrow> nat \<Rightarrow> int" where
  "pow2_duration E k = (if k < 63 then 2 ^ k else float_to_int E k)"

definition backoff :: "env \<Rightarrow> int \<Rightarrow> nat \<Rightarrow> int" where
  "backoff E base attempt = wrap64 (base * pow2_duration E (attempt - 1))"

definition backoff_wait :: "env \<Rightarrow> ctx \<Rightarrow> int \<Rightarrow> nat \<Rightarrow> sdk_error option io" where
  "backoff_wait E c base attempt w =
     (if attempt > 0 then wait_select E c (backoff E base attempt) w else (None, w))"

lemma backoff_exact:
  assumes "0 \<le> base" and "0 < k" and "k \<le> 63" and "base * 2 ^ (k - 1) \<le> max_int64"
  shows "backoff E base k = base * 2 ^ (k - 1)"
proof -
  have "k - 1 < 63" using assms by linarith
  then show ?thesis using assms by (simp add: backoff_def pow2_duration_def wrap64_nonneg_id)
qed

lemma later_backoff_wait [simp]: "later w (snd (backoff_wait E c base k w))"
  by (simp add: backoff_wait_def)

lemma requests_backoff_wait [world_simps]: "requests (snd (backoff_wait E c base k w)) = requests w"
  by (simp add: backoff_wait_def requests_wait)

section \<open>The contract of a loop body\<close>

locale retry_body =
  fixes body :: "nat \<Rightarrow> world \<Rightarrow> ('a, 'b) step \<times> world"
    and cost :: nat
  assumes body_later: "later w (snd (body k w))"
    and body_cost: "requests (snd (body k w)) \<le> requests w + cost"
begin

lemma retry_later: "later w (snd (retry body fin n k prev w))"
proof (induction n arbitrary: k prev w)
  case (Suc n)
  show ?case
  proof (cases "body k w")
    case (Pair st w')
    then have "later w w'" using body_later [of w k] by simp
    with Pair Suc.IH show ?thesis
      by (auto split: step.split intro: later_trans)
  qed
qed simp

lemma retry_cost: "requests (snd (retry body fin n k prev w)) \<le> requests w + n * cost"
proof (induction n arbitrary: k prev w)
  case (Suc n)
  obtain st w' where b: "body k w = (st, w')" by (cases "body k w")
  then have le: "requests w' \<le> requests w + cost" using body_cost [of k w] by simp
  show ?case
  proof (cases st)
    case (Stop x)
    with b le show ?thesis by simp
  next
    case (Again l)
    have "requests (snd (retry body fin n (Suc k) l w')) \<le> requests w' + n * cost"
      by (rule Suc.IH)
    with b le Again show ?thesis by simp
  qed
qed simp

text \<open>
  How a loop ends: no attempt was allowed, some attempt returned, or the final attempt wanted
  another one.
\<close>

lemma retry_ends:
  assumes "retry body fin n k prev w = (r, w')"
  shows "n = 0 \<and> r = fin prev \<and> w' = w
    \<or> (\<exists>j v. k \<le> j \<and> j < k + n \<and> later w v \<and> body j v = (Stop r, w'))
    \<or> (\<exists>v l. 0 < n \<and> later w v \<and> body (k + n - 1) v = (Again l, w') \<and> r = fin l)"
  using assms
proof (induction n arbitrary: k prev w)
  case (Suc n)
  obtain st u where b: "body k w = (st, u)" by (cases "body k w")
  then have u: "later w u" using body_later [of w k] by simp
  show ?case
  proof (cases st)
    case (Stop x)
    with b Suc.prems have "body k w = (Stop r, w')" by simp
    then show ?thesis by (intro disjI2 disjI1 exI [of _ k] exI [of _ w]) simp
  next
    case (Again l)
    with b Suc.prems have rec: "retry body fin n (Suc k) l u = (r, w')" by simp
    show ?thesis
      using Suc.IH [OF rec]
    proof (elim disjE exE conjE)
      assume "n = 0" "r = fin l" "w' = u"
      with b Again show ?thesis by (intro disjI2 exI [of _ w] exI [of _ l]) simp
    next
      fix j v
      assume "Suc k \<le> j" "j < Suc k + n" "later u v" "body j v = (Stop r, w')"
      with u show ?thesis
        by (intro disjI2 disjI1 exI [of _ j] exI [of _ v]) (auto intro: later_trans)
    next
      fix v l'
      assume "0 < n" "later u v" "body (Suc k + n - 1) v = (Again l', w')" "r = fin l'"
      with u show ?thesis
        by (intro disjI2 exI [of _ v] exI [of _ l']) (auto intro: later_trans)
    qed
  qed
qed simp

end

section \<open>A loop as a fold over its answers\<close>

text \<open>What a loop returns when its attempts come out as the given steps, in this order.\<close>

fun first_stop :: "('b \<Rightarrow> 'a) \<Rightarrow> 'b \<Rightarrow> ('a, 'b) step list \<Rightarrow> 'a" where
  "first_stop fin prev [] = fin prev"
| "first_stop fin prev (Stop r # steps) = r"
| "first_stop fin prev (Again l # steps) = first_stop fin l steps"

fun is_again :: "('a, 'b) step \<Rightarrow> bool" where
  "is_again (Again _) = True"
| "is_again (Stop _) = False"

text \<open>A body whose outcome is a function of how many requests were sent before it.\<close>

lemma retry_first_stop:
  assumes "\<And>k w. \<exists>v. body k w = (outcome (requests w), v) \<and> requests v = Suc (requests w)"
  shows "fst (retry body fin n k prev w) =
      first_stop fin prev (map outcome [requests w..<requests w + n]) \<and>
    requests (snd (retry body fin n k prev w)) = requests w +
      min n (Suc (length (takeWhile is_again (map outcome [requests w..<requests w + n]))))"
proof (induction n arbitrary: k prev w)
  case (Suc n)
  obtain v where b: "body k w = (outcome (requests w), v)" and v: "requests v = Suc (requests w)"
    using assms by blast
  have "[requests w..<requests w + Suc n] = requests w # [requests v..<requests v + n]"
    using v by (simp add: upt_conv_Cons)
  then show ?case
    using b v Suc.IH [of "Suc k" _ v] by (cases "outcome (requests w)") (simp_all del: upt.simps)
qed simp

end
