(* ===== verification/Network_Client.thy ===== *)
theory Network_Client
  imports Retry
begin

text \<open>
  The client of an Aleo node's REST API (\<open>network_client.go\<close>) and the facade \<open>Client\<close>
  (\<open>aleo.go\<close>): configuration by option functions, the retrying \<open>get\<close>, the query operations
  over it, the two POST operations and \<open>WaitForTransaction\<close>. \<open>GetProgramImports\<close> is in
  \<open>Authorization_Builder\<close> and the block iterator in \<open>Block_Iterator\<close>. A byte slice that may be nil is
  a \<open>raw_message\<close>. The \<open>headers\<close> map is listed in the order in which the run of
  \<open>applyHeaders\<close> visits it; the logger is kept as an opaque value and what it prints is not modelled.
  The \<open>%q\<close> verb in an error message shows the value unquoted.
\<close>

section \<open>Configuration\<close>

record network_client =
  nc_host :: string
  nc_network :: network
  nc_http :: http_client
  nc_headers :: "(string \<times> string) list"
  nc_logger :: nat
  nc_max_retries :: int
  nc_base_delay :: int
  nc_rate_limiter :: "int option"

type_synonym network_client_option = "network_client \<Rightarrow> network_client"

text \<open>An option function mutates the client it is given.\<close>

definition WithHTTPClient :: "http_client \<Rightarrow> network_client_option" where
  "WithHTTPClient h nc = nc\<lparr>nc_http := h\<rparr>"

definition map_put :: "string \<Rightarrow> string \<Rightarrow> (string \<times> string) list \<Rightarrow> (string \<times> string) list" where
  "map_put k v m = (k, v) # filter (\<lambda>(k', _). k' \<noteq> k) m"

definition WithHeader :: "string \<Rightarrow> string \<Rightarrow> network_client_option" where
  "WithHeader key v nc = nc\<lparr>nc_headers := map_put key v (nc_headers nc)\<rparr>"

definition WithRetry :: "int \<Rightarrow> int \<Rightarrow> network_client_option" where
  "WithRetry max_retries base_delay nc =
     nc\<lparr>nc_max_retries := max_retries, nc_base_delay := base_delay\<rparr>"

definition WithLogger :: "nat \<Rightarrow> network_client_option" where
  "WithLogger l nc = nc\<lparr>nc_logger := l\<rparr>"

definition WithRateLimit :: "int \<Rightarrow> network_client_option" where
  "WithRateLimit req_per_sec nc =
     (if req_per_sec > 0 then nc\<lparr>nc_rate_limiter := Some req_per_sec\<rparr> else nc)"

definition default_network_client :: "string \<Rightarrow> network \<Rightarrow> network_client" where
  "default_network_client host net =
     \<lparr>nc_host = trim_right_set host ''/'', nc_network = net, nc_http = Built_Client (30 * second),
      nc_headers = [], nc_logger = 0, nc_max_retries = 3, nc_base_delay = 500 * millisecond,
      nc_rate_limiter = None\<rparr>"

definition NewNetworkClient :: "string \<Rightarrow> network \<Rightarrow> network_client_option list \<Rightarrow> network_client" where
  "NewNetworkClient host net opts = fold (\<lambda>opt nc. opt nc) opts (default_network_client host net)"

definition Host :: "network_client \<Rightarrow> string" where "Host nc = nc_host nc"

definition Network :: "network_client \<Rightarrow> network" where "Network nc = nc_network nc"

definition base_path :: "network_client \<Rightarrow> string" where
  "base_path nc = ''/'' @ nc_network nc"

definition api_url :: "network_client \<Rightarrow> string \<Rightarrow> string" where
  "api_url nc path = nc_host nc @ base_path nc @ path"

section \<open>Requests\<close>

definition apply_headers :: "network_client \<Rightarrow> header \<Rightarrow> header" where
  "apply_headers nc h = fold (\<lambda>(k, v) h. header_set k v h) (nc_headers nc) h"

definition get_request :: "network_client \<Rightarrow> string \<Rightarrow> http_request" where
  "get_request nc url = \<lparr>rq_client = nc_http nc, rq_method = ''GET'', rq_url = url,
     rq_headers = apply_headers nc [], rq_body = []\<rparr>"

definition post_request :: "network_client \<Rightarrow> string \<Rightarrow> bytes \<Rightarrow> http_request" where
  "post_request nc url body = \<lparr>rq_client = nc_http nc, rq_method = ''POST'', rq_url = url,
     rq_headers = apply_headers nc (header_set ''Content-Type'' ''application/json'' []),
     rq_body = body\<rparr>"

section \<open>The retrying GET\<close>

text \<open>\<open>Retry-After\<close>: honoured when it is a positive decimal number of seconds.\<close>

definition retry_after_wait :: "env \<Rightarrow> ctx \<Rightarrow> http_response \<Rightarrow> sdk_error option io" where
  "retry_after_wait E c rs w =
     (let ra = header_get ''Retry-After'' (rs_headers rs)
      in if rs_status rs = 429 \<and> ra \<noteq> [] then
           (case parse_int ra of
              Inr secs \<Rightarrow>
                if secs > 0 then wait_select E c (wrap64 (secs * second)) w else (None, w)
            | Inl _ \<Rightarrow> (None, w))
         else (None, w))"

definition retryable :: "int \<Rightarrow> bool" where
  "retryable status = (status = 429 \<or> status \<ge> 500)"

definition http_error :: "http_response \<Rightarrow> sdk_error" where
  "http_error rs = Errorf (''HTTP '' @ show_int (rs_status rs) @ '': '' @ rs_body rs)"

type_synonym get_step = "(raw_message result, sdk_error option) step"

definition classify_reply :: "env \<Rightarrow> ctx \<Rightarrow> http_response \<Rightarrow> get_step io" where
  "classify_reply E c rs w =
     (if rs_status rs = 200 then (Stop (Inr (Some (rs_body rs))), w)
      else if retryable (rs_status rs) then
        (case retry_after_wait E c rs w of
           (Some e, w') \<Rightarrow> (Stop (Inl e), w')
         | (None, w') \<Rightarrow> (Again (Some (http_error rs)), w'))
      else (Stop (Inl (http_error rs)), w))"

definition rate_wait :: "env \<Rightarrow> network_client \<Rightarrow> unit result io" where
  "rate_wait E nc w =
     (case nc_rate_limiter nc of None \<Rightarrow> (Inr (), w) | Some r \<Rightarrow> limiter_wait E r w)"

definition get_attempt :: "env \<Rightarrow> network_client \<Rightarrow> ctx \<Rightarrow> string \<Rightarrow> nat \<Rightarrow> get_step io" where
  "get_attempt E nc c url k w =
     (case backoff_wait E c (nc_base_delay nc) k w of
        (Some e, w1) \<Rightarrow> (Stop (Inl e), w1)
      | (None, w1) \<Rightarrow>
          (case rate_wait E nc w1 of
             (Inl e, w2) \<Rightarrow> (Stop (Inl e), w2)
           | (Inr _, w2) \<Rightarrow>
               if url_error E url then (Stop (Inl (LibErr ''url'')), w2)
               else
                 (case http_do E (get_request nc url) w2 of
                    (Transport_Error m, w3) \<Rightarrow> (Again (Some (LibErr m)), w3)
                  | (Read_Error rs m, w3) \<Rightarrow> (Again (Some (LibErr m)), w3)
                  | (Reply rs, w3) \<Rightarrow> classify_reply E c rs w3)))"

text \<open>\<open>return nil, lastErr\<close> after the loop; \<open>lastErr\<close> is still nil when no attempt was made.\<close>

fun get_exhausted :: "sdk_error option \<Rightarrow> raw_message result" where
  "get_exhausted None = Inr None"
| "get_exhausted (Some e) = Inl e"

definition nc_get :: "env \<Rightarrow> network_client \<Rightarrow> ctx \<Rightarrow> string \<Rightarrow> raw_message result io" where
  "nc_get E nc c url w =
     retry (get_attempt E nc c url) get_exhausted (attempts (nc_max_retries nc)) 0 None w"

section \<open>Queries\<close>

definition decode_json :: "(string \<Rightarrow> 'a option) \<Rightarrow> string \<Rightarrow> raw_message \<Rightarrow> 'a result" where
  "decode_json dec msg body =
     (case dec (raw_string body) of None \<Rightarrow> Inl (Wrapf msg (LibErr ''json'')) | Some x \<Rightarrow> Inr x)"

text \<open>A string member of the reply, or the reply itself when it is not a JSON string.\<close>

definition decode_or_raw :: "raw_message \<Rightarrow> string result" where
  "decode_or_raw body =
     Inr (case unmarshal_string (raw_string body) of None \<Rightarrow> raw_string body | Some s \<Rightarrow> s)"

definition query :: "env \<Rightarrow> network_client \<Rightarrow> ctx \<Rightarrow> string \<Rightarrow> string \<Rightarrow>
    (raw_message \<Rightarrow> 'a result) \<Rightarrow> 'a result io" where
  "query E nc c path what dec =
     then_io (nc_get E nc c (api_url nc path)) (Wrapf what) (\<lambda>body. ret_io (dec body))"

definition GetBlock :: "env \<Rightarrow> network_client \<Rightarrow> ctx \<Rightarrow> u64 \<Rightarrow> block result io" where
  "GetBlock E nc c height =
     query E nc c (''/block/'' @ show_u64 height) (''get block '' @ show_u64 height)
       (decode_json (unmarshal dec_block) (''decode block '' @ show_u64 height))"

definition GetBlockByHash :: "env \<Rightarrow> network_client \<Rightarrow> ctx \<Rightarrow> string \<Rightarrow> block result io" where
  "GetBlockByHash E nc c hash =
     query E nc c (''/block/'' @ hash) (''get block '' @ hash)
       (decode_json (unmarshal dec_block) (''decode block '' @ hash))"

definition GetProgram :: "env \<Rightarrow> network_client \<Rightarrow> ctx \<Rightarrow> string \<Rightarrow> string result io" where
  "GetProgram E nc c program_id =
     query E nc c (''/program/'' @ program_id) (''get program '' @ program_id) decode_or_raw"

definition GetMappingValue ::
  "env \<Rightarrow> network_client \<Rightarrow> ctx \<Rightarrow> string \<Rightarrow> string \<Rightarrow> string \<Rightarrow> string result io" where
  "GetMappingValue E nc c program_id mapping_name key =
     query E nc c (''/program/'' @ program_id @ ''/mapping/'' @ mapping_name @ ''/'' @ key)
       (''get mapping '' @ program_id @ ''/'' @ mapping_name @ ''/'' @ key) decode_or_raw"

definition GetTransaction :: "env \<Rightarrow> network_client \<Rightarrow> ctx \<Rightarrow> string \<Rightarrow> transaction result io" where
  "GetTransaction E nc c txid =
     query E nc c (''/transaction/'' @ txid) (''get transaction '' @ txid)
       (decode_json (unmarshal dec_transaction) (''decode transaction '' @ txid))"

definition GetTransactionRaw :: "env \<Rightarrow> network_client \<Rightarrow> ctx \<Rightarrow> string \<Rightarrow> raw_message result io" where
  "GetTransactionRaw E nc c txid =
     query E nc c (''/transaction/'' @ txid) (''get transaction '' @ txid) Inr"

definition GetLatestBlockHeight :: "env \<Rightarrow> network_client \<Rightarrow> ctx \<Rightarrow> u64 result io" where
  "GetLatestBlockHeight E nc c =
     query E nc c ''/latest/height'' ''get latest height'' (decode_json unmarshal_uint ''decode height'')"

definition GetLatestBlock :: "env \<Rightarrow> network_client \<Rightarrow> ctx \<Rightarrow> block result io" where
  "GetLatestBlock E nc c =
     query E nc c ''/latest/block'' ''get latest block''
       (decode_json (unmarshal dec_block) ''decode latest block'')"

text \<open>\<open>strings.Trim(s, "\" \n")\<close>.\<close>

definition trim_quotes :: "string \<Rightarrow> string" where
  "trim_quotes s = trim_set s [CHR 0x22, CHR '' '', CHR 0x0A]"

definition GetLatestHash :: "env \<Rightarrow> network_client \<Rightarrow> ctx \<Rightarrow> string result io" where
  "GetLatestHash E nc c =
     query E nc c ''/latest/hash'' ''get latest hash'' (\<lambda>body. Inr (trim_quotes (raw_string body)))"

definition GetStateRoot :: "env \<Rightarrow> network_client \<Rightarrow> ctx \<Rightarrow> string result io" where
  "GetStateRoot E nc c =
     query E nc c ''/latest/stateRoot'' ''get state root''
       (\<lambda>body. Inr (trim_quotes (raw_string body)))"

definition GetCommittee :: "env \<Rightarrow> network_client \<Rightarrow> ctx \<Rightarrow> raw_message result io" where
  "GetCommittee E nc c = query E nc c ''/committee/latest'' ''get committee'' Inr"

definition GetMempool :: "env \<Rightarrow> network_client \<Rightarrow> ctx \<Rightarrow> raw_message result io" where
  "GetMempool E nc c = query E nc c ''/memoryPool/transactions'' ''get mempool'' Inr"

definition GetPeers :: "env \<Rightarrow> network_client \<Rightarrow> ctx \<Rightarrow> string list option result io" where
  "GetPeers E nc c =
     query E nc c ''/peers/all'' ''get peers'' (decode_json unmarshal_strings ''decode peers'')"

definition GetPeerCount :: "env \<Rightarrow> network_client \<Rightarrow> ctx \<Rightarrow> int result io" where
  "GetPeerCount E nc c =
     query E nc c ''/peers/count'' ''get peer count'' (decode_json unmarshal_int ''decode peer count'')"

definition GetBlockRange ::
  "env \<Rightarrow> network_client \<Rightarrow> ctx \<Rightarrow> u64 \<Rightarrow> u64 \<Rightarrow> block option list result io" where
  "GetBlockRange E nc c start end_height =
     query E nc c (''/blocks?start='' @ show_u64 start @ ''&end='' @ show_u64 end_height)
       (''get block range '' @ show_u64 start @ ''-'' @ show_u64 end_height)
       (decode_json (unmarshal dec_blocks) ''decode block range'')"

definition GetTransactionsByBlock :: "env \<Rightarrow> network_client \<Rightarrow> ctx \<Rightarrow> u64 \<Rightarrow> raw_message result io"
  where
  "GetTransactionsByBlock E nc c height =
     query E nc c (''/block/'' @ show_u64 height @ ''/transactions'')
       (''get transactions for block '' @ show_u64 height) Inr"

definition GetMappingNames ::
  "env \<Rightarrow> network_client \<Rightarrow> ctx \<Rightarrow> string \<Rightarrow> string list option result io" where
  "GetMappingNames E nc c program_id =
     query E nc c (''/program/'' @ program_id @ ''/mappings'') (''get mappings '' @ program_id)
       (decode_json unmarshal_strings ''decode mappings'')"

definition GetPublicBalance :: "env \<Rightarrow> network_client \<Rightarrow> ctx \<Rightarrow> string \<Rightarrow> u64 result io" where
  "GetPublicBalance E nc c address =
     then_io (GetMappingValue E nc c ''credits.aleo'' ''account'' address)
       (Wrapf ''get public balance'')
       (\<lambda>val0. let val = trim_suffix (trim_set (trim_space val0) [CHR 0x22]) ''u64''
         in case parse_uint val of
              Inl _ \<Rightarrow> ret_io (Inl (Wrapf (''parse balance '' @ val) (LibErr ''strconv'')))
            | Inr balance \<Rightarrow> ret_io (Inr balance))"

section \<open>Submissions\<close>

definition GetStatePaths ::
  "env \<Rightarrow> network_client \<Rightarrow> ctx \<Rightarrow> string list option \<Rightarrow> raw_message result io" where
  "GetStatePaths E nc c commitments w =
     (let url = api_url nc ''/statePath''
      in if url_error E url then (Inl (Wrapf ''create state path request'' (LibErr ''url'')), w)
         else
           (case http_do E (post_request nc url (marshal_strings commitments)) w of
              (Transport_Error m, w') \<Rightarrow> (Inl (Wrapf ''state path request failed'' (LibErr m)), w')
            | (Read_Error _ m, w') \<Rightarrow> (Inl (Wrapf ''read state path response'' (LibErr m)), w')
            | (Reply rs, w') \<Rightarrow>
                if rs_status rs \<noteq> 200 then (Inl (status_error ''state path failed'' rs), w')
                else (Inr (Some (rs_body rs)), w')))"

definition submit_transaction ::
  "env \<Rightarrow> network_client \<Rightarrow> ctx \<Rightarrow> raw_message \<Rightarrow> bool \<Rightarrow> string result io" where
  "submit_transaction E nc c tx debug w =
     (let url = api_url nc ''/transaction/broadcast'' @ (if debug then ''?debug=true'' else [])
      in if url_error E url then (Inl (Wrapf ''create broadcast request'' (LibErr ''url'')), w)
         else
           (case http_do E (post_request nc url (raw_string tx)) w of
              (Transport_Error m, w') \<Rightarrow> (Inl (Wrapf ''broadcast request failed'' (LibErr m)), w')
            | (Read_Error _ m, w') \<Rightarrow> (Inl (Wrapf ''read broadcast response'' (LibErr m)), w')
            | (Reply rs, w') \<Rightarrow>
                if rs_status rs \<noteq> 200 \<and> rs_status rs \<noteq> 201 then
                  (Inl (status_error ''broadcast failed'' rs), w')
                else (Inr (trim_quotes (rs_body rs)), w')))"

definition SubmitTransaction :: "env \<Rightarrow> network_client \<Rightarrow> ctx \<Rightarrow> raw_message \<Rightarrow> string result io" where
  "SubmitTransaction E nc c tx = submit_transaction E nc c tx False"

definition SubmitTransactionDebug :: "env \<Rightarrow> network_client \<Rightarrow> ctx \<Rightarrow> raw_message \<Rightarrow> string result io"
  where
  "SubmitTransactionDebug E nc c tx = submit_transaction E nc c tx True"

section \<open>Waiting for a transaction\<close>

text \<open>The polling loop need not end: not returning is \<open>None\<close>.\<close>

partial_function (option) poll_transaction ::
  "env \<Rightarrow> network_client \<Rightarrow> ctx \<Rightarrow> string \<Rightarrow> int \<Rightarrow> world \<Rightarrow> (transaction result \<times> world) option"
  where
  "poll_transaction E nc c txid poll w =
     (case GetTransaction E nc c txid w of
        (Inr tx, w1) \<Rightarrow> Some (Inr tx, w1)
      | (Inl _, w1) \<Rightarrow>
          (case wait_select E c poll w1 of
             (Some e, w2) \<Rightarrow> Some (Inl e, w2)
           | (None, w2) \<Rightarrow> poll_transaction E nc c txid poll w2))"

definition WaitForTransaction ::
  "env \<Rightarrow> network_client \<Rightarrow> ctx \<Rightarrow> string \<Rightarrow> int \<Rightarrow> world \<Rightarrow> (transaction result \<times> world) option"
  where
  "WaitForTransaction E nc c txid poll_interval =
     poll_transaction E nc c txid (if poll_interval = 0 then 3 * second else poll_interval)"

section \<open>The facade\<close>

record client =
  cl_network_client :: network_client

type_synonym client_option = "client \<Rightarrow> client"

definition WithClientHTTP :: "http_client \<Rightarrow> client_option" where
  "WithClientHTTP h cl = cl\<lparr>cl_network_client := (cl_network_client cl)\<lparr>nc_http := h\<rparr>\<rparr>"

definition WithClientLogger :: "nat \<Rightarrow> client_option" where
  "WithClientLogger l cl = cl\<lparr>cl_network_client := (cl_network_client cl)\<lparr>nc_logger := l\<rparr>\<rparr>"

definition WithClientRetries :: "int \<Rightarrow> int \<Rightarrow> client_option" where
  "WithClientRetries max_retries base_delay cl =
     cl\<lparr>cl_network_client := (cl_network_client cl)
       \<lparr>nc_max_retries := max_retries, nc_base_delay := base_delay\<rparr>\<rparr>"

definition WithClientRateLimit :: "int \<Rightarrow> client_option" where
  "WithClientRateLimit req_per_sec cl =
     (if req_per_sec > 0 then
        cl\<lparr>cl_network_client := (cl_network_client cl)\<lparr>nc_rate_limiter := Some req_per_sec\<rparr>\<rparr>
      else cl)"

definition NewClient :: "string \<Rightarrow> network \<Rightarrow> client_option list \<Rightarrow> client" where
  "NewClient host net opts =
     fold (\<lambda>opt cl. opt cl) opts \<lparr>cl_network_client = NewNetworkClient host net []\<rparr>"

section \<open>One attempt\<close>

lemma retry_after_cases:
  obtains "retry_after_wait E c rs w = (None, w)"
  | d where "rs_status rs = 429" and "retry_after_wait E c rs w = wait_select E c d w"
proof (cases "rs_status rs = 429 \<and> header_get ''Retry-After'' (rs_headers rs) \<noteq> []")
  case True
  show thesis
  proof (cases "parse_int (header_get ''Retry-After'' (rs_headers rs))")
    case (Inl e)
    with True show thesis by (intro that(1)) (simp add: retry_after_wait_def)
  next
    case (Inr secs)
    with True show thesis
      using that(1) that(2) [of "wrap64 (secs * second)"]
      by (cases "0 < secs") (simp_all add: retry_after_wait_def)
  qed
next
  case False
  then show thesis by (intro that(1)) (auto simp: retry_after_wait_def Let_def)
qed

lemma later_retry_after [simp]: "later w (snd (retry_after_wait E c rs w))"
  and requests_retry_after [world_simps]: "requests (snd (retry_after_wait E c rs w)) = requests w"
  by (cases rule: retry_after_cases [of E c rs w]; simp add: requests_wait)+

lemma later_classify [simp]: "later w (snd (classify_reply E c rs w))"
  and requests_classify [world_simps]: "requests (snd (classify_reply E c rs w)) = requests w"
  using later_retry_after [of w E c rs] requests_retry_after [of E c rs w]
  by (cases "retry_after_wait E c rs w"; simp add: classify_reply_def split: option.split)+

lemma later_rate_wait [simp]: "later w (snd (rate_wait E nc w))"
  and requests_rate_wait [world_simps]: "requests (snd (rate_wait E nc w)) = requests w"
  by (auto simp: rate_wait_def requests_limiter split: option.split)

text \<open>How an attempt goes: it ends before a request is sent, or on what its one request yields.\<close>

lemma get_attempt_cases:
  obtains (early) e w' where "get_attempt E nc c url k w = (Stop (Inl e), w')"
      and "later w w'" and "requests w' = requests w"
  | (sent) w2 out w3 where "later w w2" and "requests w2 = requests w"
      and "http_do E (get_request nc url) w2 = (out, w3)"
      and "get_attempt E nc c url k w =
        (case out of Transport_Error m \<Rightarrow> (Again (Some (LibErr m)), w3)
         | Read_Error rs m \<Rightarrow> (Again (Some (LibErr m)), w3)
         | Reply rs \<Rightarrow> classify_reply E c rs w3)"
proof -
  obtain b w1 where b: "backoff_wait E c (nc_base_delay nc) k w = (b, w1)"
    by (cases "backoff_wait E c (nc_base_delay nc) k w")
  have w1: "later w w1" "requests w1 = requests w"
    using later_backoff_wait [of w E c "nc_base_delay nc" k]
      requests_backoff_wait [of E c "nc_base_delay nc" k w] b by auto
  obtain r w2 where r: "rate_wait E nc w1 = (r, w2)" by (cases "rate_wait E nc w1")
  then have "later w1 w2" "requests w2 = requests w"
    using later_rate_wait [of w1 E nc] requests_rate_wait [of E nc w1] w1 by auto
  with w1 have w2: "later w w2" "requests w2 = requests w" by (auto intro: later_trans)
  obtain out w3 where h: "http_do E (get_request nc url) w2 = (out, w3)"
    by (cases "http_do E (get_request nc url) w2")
  show thesis
  proof (cases b)
    case (Some e)
    with b w1 show thesis by (intro early [of e w1]) (auto simp: get_attempt_def)
  next
    case None
    show thesis
    proof (cases r)
      case (Inl e)
      with None b r w2 show thesis by (intro early [of e w2]) (auto simp: get_attempt_def)
    next
      case (Inr u)
      show thesis
      proof (cases "url_error E url")
        case True
        with Inr None b r w2 show thesis
          by (intro early [of "LibErr ''url''" w2]) (auto simp: get_attempt_def)
      next
        case False
        with Inr None b r h show thesis by (intro sent [OF w2 h]) (simp add: get_attempt_def)
      qed
    qed
  qed
qed

lemma http_do_world:
  "http_do E rq w = (out, w') \<Longrightarrow>
     later w w' \<and> requests w' = Suc (requests w) \<and> hist w' = Ev_Http rq out # hist w"
  using later_http [of w E rq] requests_http [of E rq w] http_do_sel [of E rq w] by auto

lemma later_get_attempt: "later w (snd (get_attempt E nc c url k w))"
proof (cases rule: get_attempt_cases [of E nc c url k w])
  case (sent w2 out w3)
  then have "later w w3" using http_do_world [OF sent(3)] later_trans by blast
  moreover have "later w3 (snd (classify_reply E c rs w3))" for rs by simp
  ultimately show ?thesis
    using sent(4) by (cases out) (auto intro: later_trans)
qed simp

lemma requests_get_attempt: "requests (snd (get_attempt E nc c url k w)) \<le> requests w + 1"
proof (cases rule: get_attempt_cases [of E nc c url k w])
  case (sent w2 out w3)
  then show ?thesis
    using http_do_world [OF sent(3)] by (cases out) (simp_all add: requests_classify)
qed simp

interpretation get_retry: retry_body "get_attempt E nc c url" 1 for E nc c url
  by unfold_locales (rule later_get_attempt, rule requests_get_attempt)

section \<open>The whole GET\<close>

lemma forward_get [simp, intro]: "forward (nc_get E nc c url)"
  by (rule forwardI) (simp add: nc_get_def get_retry.retry_later)

lemma sends_get: "sends (nc_get E nc c url) (attempts (nc_max_retries nc))"
  using get_retry.retry_cost [of E nc c url get_exhausted "attempts (nc_max_retries nc)" 0 None]
  by (intro sendsI) (simp add: nc_get_def)

lemma forward_query [simp, intro]: "forward (query E nc c path what dec)"
  unfolding query_def by blast

lemma sends_query: "sends (query E nc c path what dec) (attempts (nc_max_retries nc))"
  unfolding query_def using sends_then [OF sends_get, where l = 0] by force

lemma get_attempt_again: "get_attempt E nc c url k w = (Again l, w') \<Longrightarrow> l \<noteq> None"
  by (cases rule: get_attempt_cases [of E nc c url k w])
    (auto simp: classify_reply_def split: http_outcome.splits if_splits prod.splits option.splits)

text \<open>An attempt that returns a body ends with the request whose 200 reply carries it.\<close>

definition answered :: "network_client \<Rightarrow> string \<Rightarrow> raw_message \<Rightarrow> world \<Rightarrow> bool" where
  "answered nc url b w =
     (\<exists>rs h. b = Some (rs_body rs) \<and> rs_status rs = 200 \<and>
        hist w = Ev_Http (get_request nc url) (Reply rs) # h)"

lemma get_attempt_answered:
  assumes "get_attempt E nc c url k w = (Stop (Inr b), w')"
  shows "answered nc url b w'"
proof (cases rule: get_attempt_cases [of E nc c url k w])
  case (sent w2 out w3)
  obtain rs where out: "out = Reply rs" and "classify_reply E c rs w3 = (Stop (Inr b), w')"
    using sent(4) assms by (auto split: http_outcome.splits)
  then have "rs_status rs = 200" "b = Some (rs_body rs)" "w' = w3"
    by (auto simp: classify_reply_def split: if_splits prod.splits option.splits)
  then show ?thesis
    using http_do_world [OF sent(3)] out by (auto simp: answered_def)
qed (use assms in simp)

lemma get_answered:
  assumes "0 \<le> nc_max_retries nc" and "nc_get E nc c url w = (Inr b, w')"
  shows "answered nc url b w'"
  using get_retry.retry_ends [OF assms(2) [unfolded nc_get_def]]
proof (elim disjE exE conjE)
  assume "attempts (nc_max_retries nc) = 0"
  with assms(1) show ?thesis by (simp add: attempts_def)
next
  fix j v
  assume "get_attempt E nc c url j v = (Stop (Inr b), w')"
  then show ?thesis by (rule get_attempt_answered)
next
  fix v l
  assume "get_attempt E nc c url (0 + attempts (nc_max_retries nc) - 1) v = (Again l, w')"
    and "Inr b = get_exhausted l"
  moreover from this(1) have "l \<noteq> None" by (rule get_attempt_again)
  ultimately show ?thesis by auto
qed

section \<open>Properties of the GET loop\<close>

text \<open>C16: A GET of a client whose \<open>maxRetries\<close> is not negative succeeds only with the body of a 200
  reply to its own request, and that reply is the final thing that happened: nothing is sent or waited
  for afterwards. When \<open>maxRetries\<close> is negative, which \<open>WithRetry\<close> does not refuse, a GET that succeeds
  has a nil body and nothing happened at all.\<close>

theorem get_only_200:
  assumes "nc_get E nc c url w = (Inr b, w')"
  shows "if 0 \<le> nc_max_retries nc
    then \<exists>rs h. b = Some (rs_body rs) \<and> rs_status rs = 200 \<and>
      hist w' = Ev_Http (get_request nc url) (Reply rs) # h
    else b = None \<and> w' = w"
proof (cases "0 \<le> nc_max_retries nc")
  case True
  with get_answered [OF True assms] show ?thesis by (simp add: answered_def)
next
  case False
  with assms show ?thesis by (simp add: nc_get_def attempts_def)
qed

definition ok_env :: "string \<Rightarrow> env" where
  "ok_env body = quiet_env\<lparr>respond :=
     (\<lambda>_ _. Reply \<lparr>rs_status = 200, rs_headers = [], rs_body = body\<rparr>)\<rparr>"

definition sample_client :: network_client where
  "sample_client = NewNetworkClient ''https://node/v2/'' TestnetV0 []"

lemmas sample_defs = sample_client_def NewNetworkClient_def default_network_client_def
  quiet_env_def start_world_def second_def millisecond_def background_def

lemma get_first_attempt:
  assumes "nc_rate_limiter nc = None" and "\<not> url_error E url"
  shows "get_attempt E nc c url 0 w =
    (case http_do E (get_request nc url) w of
       (Transport_Error m, w3) \<Rightarrow> (Again (Some (LibErr m)), w3)
     | (Read_Error rs m, w3) \<Rightarrow> (Again (Some (LibErr m)), w3)
     | (Reply rs, w3) \<Rightarrow> classify_reply E c rs w3)"
  using assms by (simp add: get_attempt_def backoff_wait_def rate_wait_def)

lemma attempts_Suc: "0 \<le> m \<Longrightarrow> attempts m = Suc (nat m)"
  by (simp add: attempts_def)

lemma get_definitive:
  assumes "0 \<le> nc_max_retries nc" and "nc_rate_limiter nc = None" and "\<not> url_error E url"
    and "respond E (hist w) (get_request nc url) = Reply rs" and "\<not> retryable (rs_status rs)"
  shows "nc_get E nc c url w =
    (if rs_status rs = 200 then Inr (Some (rs_body rs)) else Inl (http_error rs),
     snd (http_do E (get_request nc url) w))"
proof -
  obtain v where v: "http_do E (get_request nc url) w = (Reply rs, v)"
    using http_do_sel(1) [of E "get_request nc url" w] assms(4)
    by (cases "http_do E (get_request nc url) w") simp
  then have "get_attempt E nc c url 0 w = classify_reply E c rs v"
    by (simp add: get_first_attempt [OF assms(2,3)])
  with assms(1,5) v show ?thesis
    by (simp add: nc_get_def attempts_Suc classify_reply_def)
qed

lemma ok_env_get:
  "nc_get (ok_env body) sample_client c url start_world =
     (Inr (Some body), snd (http_do (ok_env body) (get_request sample_client url) start_world))"
  by (subst get_definitive [where rs = "\<lparr>rs_status = 200, rs_headers = [], rs_body = body\<rparr>"])
    (simp_all add: ok_env_def sample_defs retryable_def)

theorem get_only_200_witness:
  "\<exists>w'. nc_get (ok_env ''7'') sample_client background ''u'' start_world = (Inr (Some ''7''), w') \<and>
     (\<exists>rs h. Some ''7'' = Some (rs_body rs) \<and> rs_status rs = 200 \<and>
        hist w' = Ev_Http (get_request sample_client ''u'') (Reply rs) # h)"
proof -
  have "0 \<le> nc_max_retries sample_client" by (simp add: sample_defs)
  from get_only_200 [OF ok_env_get [of "''7''" background "''u''"], unfolded if_P [OF this]] show ?thesis
    by (intro exI [of _ "snd (http_do (ok_env ''7'') (get_request sample_client ''u'') start_world)"]
        conjI ok_env_get)
qed

text \<open>Whatever the server does, a GET sends at most \<open>maxRetries + 1\<close> requests; the clock does not
  go back and the history is only extended.\<close>

theorem get_request_bound:
  "requests (snd (nc_get E nc c url w)) \<le> requests w + nat (nc_max_retries nc + 1) \<and>
   later w (snd (nc_get E nc c url w))"
  using sends_get [of E nc c url] forward_get [of E nc c url]
  by (simp add: sends_def forward_def attempts_def)

text \<open>A first reply that is neither 429 nor 5xx settles the GET with one request and no wait:
  its body on 200, the error "HTTP status: body" otherwise.\<close>

theorem get_definitive_reply:
  assumes "0 \<le> nc_max_retries nc" and "nc_rate_limiter nc = None" and "\<not> url_error E url"
    and "respond E (hist w) (get_request nc url) = Reply rs"
    and "rs_status rs \<noteq> 429" and "rs_status rs < 500"
  shows "nc_get E nc c url w =
    (if rs_status rs = 200 then Inr (Some (rs_body rs)) else Inl (http_error rs),
     snd (http_do E (get_request nc url) w))"
  using get_definitive [OF assms(1-4)] assms(5,6) by (simp add: retryable_def)

definition reply_env :: "int \<Rightarrow> string \<Rightarrow> env" where
  "reply_env status body = quiet_env\<lparr>respond :=
     (\<lambda>_ _. Reply \<lparr>rs_status = status, rs_headers = [], rs_body = body\<rparr>)\<rparr>"

theorem get_definitive_reply_witness:
  "fst (nc_get (reply_env 404 ''no'') sample_client background ''u'' start_world) =
     Inl (Errorf ''HTTP 404: no'')"
proof -
  let ?rs = "\<lparr>rs_status = 404, rs_headers = [], rs_body = ''no''\<rparr>"
  have "nc_get (reply_env 404 ''no'') sample_client background ''u'' start_world =
    (if rs_status ?rs = 200 then Inr (Some (rs_body ?rs)) else Inl (http_error ?rs),
     snd (http_do (reply_env 404 ''no'') (get_request sample_client ''u'') start_world))"
    by (rule get_definitive_reply) (simp_all add: reply_env_def sample_defs)
  moreover have "http_error ?rs = Errorf ''HTTP 404: no''"
    by (simp add: http_error_def) code_simp
  ultimately show ?thesis by simp
qed

section \<open>The back-off schedule\<close>

fun ev_waits :: "event list \<Rightarrow> int list" where
  "ev_waits [] = []"
| "ev_waits (Ev_Wait d # h) = d # ev_waits h"
| "ev_waits (_ # h) = ev_waits h"

definition waits :: "world \<Rightarrow> int list" where
  "waits w = ev_waits (hist w)"

fun transient :: "http_outcome \<Rightarrow> bool" where
  "transient (Transport_Error _) = True"
| "transient (Read_Error _ _) = True"
| "transient (Reply rs) = (rs_status rs \<ge> 500)"

definition planned_wait :: "int \<Rightarrow> nat \<Rightarrow> int list" where
  "planned_wait base k = (if k = 0 then [] else [base * 2 ^ (k - 1)])"

lemma wait_select_never_done:
  "cancel_at c = None \<Longrightarrow> wait_select E c d w =
     (None, \<lparr>clock = clock w + max 0 d, hist = Ev_Wait (max 0 d) # hist w\<rparr>)"
  by (simp add: wait_select_def done_wins_def timer_at_def)

lemma http_do_eq: "http_do E rq w = (respond E (hist w) rq, snd (http_do E rq w))"
  by (simp add: prod_eq_iff http_do_sel)

lemma classify_transient:
  "rs_status rs \<ge> 500 \<Longrightarrow> classify_reply E c rs w = (Again (Some (http_error rs)), w)"
  by (simp add: classify_reply_def retryable_def retry_after_wait_def)

lemma get_attempt_transient:
  assumes "cancel_at c = None" and "nc_rate_limiter nc = None" and "\<not> url_error E url"
    and "\<And>h. transient (respond E h (get_request nc url))"
    and "0 \<le> nc_base_delay nc" and "k \<le> 63"
    and "nc_base_delay nc * 2 ^ (k - 1) \<le> max_int64"
  obtains l w' where "get_attempt E nc c url k w = (Again (Some l), w')"
    and "waits w' = planned_wait (nc_base_delay nc) k @ waits w"
    and "requests w' = Suc (requests w)"
proof -
  define w1 where "w1 = snd (backoff_wait E c (nc_base_delay nc) k w)"
  have b: "backoff_wait E c (nc_base_delay nc) k w = (None, w1)"
    and w1: "waits w1 = planned_wait (nc_base_delay nc) k @ waits w" "requests w1 = requests w"
    using assms(1,5-7) backoff_exact [of "nc_base_delay nc" k E]
    by (auto simp: w1_def backoff_wait_def wait_select_never_done planned_wait_def waits_def
        requests_def)
  define w3 where "w3 = snd (http_do E (get_request nc url) w1)"
  have h: "http_do E (get_request nc url) w1 = (respond E (hist w1) (get_request nc url), w3)"
    unfolding w3_def by (rule http_do_eq)
  have w3: "waits w3 = waits w1" "requests w3 = Suc (requests w1)"
    using http_do_world [OF h] by (auto simp: waits_def)
  have "\<exists>l. get_attempt E nc c url k w = (Again (Some l), w3)"
    using assms(4) [of "hist w1"] b h assms(2,3)
    by (cases "respond E (hist w1) (get_request nc url)")
      (simp_all add: get_attempt_def rate_wait_def classify_transient)
  then show thesis using that w1 w3 by auto
qed

lemma retry_transient:
  assumes "cancel_at c = None" and "nc_rate_limiter nc = None" and "\<not> url_error E url"
    and "\<And>h. transient (respond E h (get_request nc url))"
    and "0 \<le> nc_base_delay nc" and "k + n \<le> 64"
    and "nc_base_delay nc * 2 ^ (k + n - 2) \<le> max_int64"
    and "retry (get_attempt E nc c url) get_exhausted n k prev w = (r, w')"
  shows "waits w' = concat (rev (map (planned_wait (nc_base_delay nc)) [k..<k + n])) @ waits w
    \<and> requests w' = requests w + n \<and> (n = 0 \<and> r = get_exhausted prev \<or> (\<exists>e. r = Inl e))"
  using assms(6-8)
proof (induction n arbitrary: k prev w)
  case (Suc n)
  have "nc_base_delay nc * 2 ^ (k - 1) \<le> nc_base_delay nc * 2 ^ (k + Suc n - 2)"
    using assms(5) by (intro mult_left_mono power_increasing) auto
  then have le: "nc_base_delay nc * 2 ^ (k - 1) \<le> max_int64" using Suc.prems(2) by linarith
  obtain l v where v: "get_attempt E nc c url k w = (Again (Some l), v)"
    and waits: "waits v = planned_wait (nc_base_delay nc) k @ waits w"
    and req: "requests v = Suc (requests w)"
  proof (rule get_attempt_transient [OF assms(1-5) _ le])
    show "k \<le> 63" using Suc.prems(1) by simp
  qed blast
  have rec: "retry (get_attempt E nc c url) get_exhausted n (Suc k) (Some l) v = (r, w')"
    using Suc.prems(3) v by simp
  have "waits w' = concat (rev (map (planned_wait (nc_base_delay nc)) [Suc k..<Suc k + n])) @ waits v
    \<and> requests w' = requests v + n \<and> (n = 0 \<and> r = get_exhausted (Some l) \<or> (\<exists>e. r = Inl e))"
    by (rule Suc.IH [OF _ _ rec]) (use Suc.prems(1,2) in simp_all)
  moreover have "[k..<k + Suc n] = k # [Suc k..<Suc k + n]" by (simp add: upt_conv_Cons)
  ultimately show ?case using waits req by auto
qed simp

lemma planned_waits:
  "concat (rev (map (planned_wait b) [0..<Suc n])) = rev (map (\<lambda>k. b * 2 ^ k) [0..<n])"
  by (induction n) (simp_all add: planned_wait_def)

text \<open>Against a server that fails every request transiently (no connection, a cut body or 5xx), a
  GET makes exactly \<open>maxRetries + 1\<close> requests, waits \<open>baseDelay\<close>, \<open>2 * baseDelay\<close>, \<open>4 * baseDelay\<close>,
  ... between them, and ends in an error, as long as the delays fit a 64-bit duration.\<close>

theorem get_backoff_schedule:
  assumes "cancel_at c = None" and "nc_rate_limiter nc = None" and "\<not> url_error E url"
    and "\<forall>h. transient (respond E h (get_request nc url))"
    and "nc_max_retries nc = int n" and "n \<le> 63"
    and "0 \<le> nc_base_delay nc" and "nc_base_delay nc * 2 ^ (n - 1) \<le> max_int64"
    and "nc_get E nc c url w = (r, w')"
  shows "waits w' = rev (map (\<lambda>k. nc_base_delay nc * 2 ^ k) [0..<n]) @ waits w \<and>
    requests w' = requests w + n + 1 \<and> (\<exists>e. r = Inl e)"
proof -
  have a: "attempts (nc_max_retries nc) = Suc n" using assms(5) by (simp add: attempts_def)
  then have "retry (get_attempt E nc c url) get_exhausted (Suc n) 0 None w = (r, w')"
    using assms(9) by (simp add: nc_get_def)
  note main = retry_transient [OF assms(1-3) spec [OF assms(4)] assms(7) _ _ this]
  have "0 + Suc n \<le> 64" "nc_base_delay nc * 2 ^ (0 + Suc n - 2) \<le> max_int64"
    using assms(6,8) by simp_all
  from main [OF this]
  show ?thesis by (simp only: planned_waits add_0) simp
qed

theorem get_backoff_schedule_witness:
  "\<exists>w'. waits w' = [2000000000, 1000000000, 500000000] \<and> requests w' = 4 \<and>
     w' = snd (nc_get quiet_env sample_client background ''u'' start_world)"
proof -
  obtain r w' where e: "nc_get quiet_env sample_client background ''u'' start_world = (r, w')"
    by (cases "nc_get quiet_env sample_client background ''u'' start_world")
  have "waits w' = rev (map (\<lambda>k. nc_base_delay sample_client * 2 ^ k) [0..<3]) @ waits start_world \<and>
    requests w' = requests start_world + 3 + 1 \<and> (\<exists>e. r = Inl e)"
    by (rule get_backoff_schedule [OF _ _ _ _ _ _ _ _ e]) (simp_all add: sample_defs max_int64_def)
  then show ?thesis using e by (simp add: sample_defs requests_def waits_def numeral_3_eq_3)
qed

text \<open>C37: A context that ends during the back-off stops the GET there: for a client that retries, with a
  positive \<open>baseDelay\<close> and without a rate limiter, after a transient first failure and with a
  cancellation before \<open>baseDelay\<close> has passed, the result is the context's error after exactly one
  request.\<close>

theorem get_cancelled_in_backoff:
  assumes "nc_rate_limiter nc = None" and "\<not> url_error E url" and "0 < nc_max_retries nc"
    and "transient (respond E (hist w) (get_request nc url))"
    and "cancel_at c = Some t" and "0 < nc_base_delay nc" and "nc_base_delay nc \<le> max_int64"
    and "t < clock (snd (http_do E (get_request nc url) w)) + nc_base_delay nc"
  shows "fst (nc_get E nc c url w) = Inl (CtxErr (cancel_err c)) \<and>
    requests (snd (nc_get E nc c url w)) = requests w + 1"
proof -
  define v where "v = snd (http_do E (get_request nc url) w)"
  have h: "http_do E (get_request nc url) w = (respond E (hist w) (get_request nc url), v)"
    unfolding v_def by (rule http_do_eq)
  have a: "\<exists>l. get_attempt E nc c url 0 w = (Again (Some l), v)"
    using assms(4) h
    by (cases "respond E (hist w) (get_request nc url)")
      (simp_all add: get_first_attempt [OF assms(1,2)] classify_transient)
  have "backoff E (nc_base_delay nc) 1 = nc_base_delay nc"
    using assms(6,7) by (subst backoff_exact) simp_all
  moreover have "done_wins E c (nc_base_delay nc) v"
    using assms(5,6,8) by (simp add: done_wins_def timer_at_def v_def)
  ultimately have "\<exists>u. get_attempt E nc c url (Suc 0) v = (Stop (Inl (CtxErr (cancel_err c))), u) \<and>
      requests u = requests v"
    by (simp add: get_attempt_def backoff_wait_def wait_select_def requests_def)
  moreover have "nat (nc_max_retries nc) = Suc (nat (nc_max_retries nc - 1))"
    using assms(3) by simp
  ultimately show ?thesis
    using a assms(3) http_do_world [OF h] by (auto simp: nc_get_def attempts_Suc)
qed

theorem get_cancelled_in_backoff_witness:
  "fst (nc_get quiet_env sample_client \<lparr>cancel_at = Some 100, cancel_err = DeadlineExceeded\<rparr>
     ''u'' start_world) = Inl (CtxErr DeadlineExceeded)"
proof -
  let ?c = "\<lparr>cancel_at = Some 100, cancel_err = DeadlineExceeded\<rparr>"
  have "fst (nc_get quiet_env sample_client ?c ''u'' start_world) = Inl (CtxErr (cancel_err ?c)) \<and>
    requests (snd (nc_get quiet_env sample_client ?c ''u'' start_world)) = requests start_world + 1"
    by (rule get_cancelled_in_backoff [where t = 100])
      (simp_all add: sample_defs http_do_def Let_def max_int64_def)
  then show ?thesis by simp
qed

lemma parse_int_Nil: "\<not> is_ok (parse_int [])"
  by code_simp

text \<open>On a 429 reply with \<open>Retry-After: secs\<close> the next attempt is not begun before \<open>secs\<close> seconds
  have passed: the attempt waits exactly that long, when the context allows it, and asks for another.\<close>

theorem retry_after_honoured:
  assumes "rs_status rs = 429" and "parse_int (header_get ''Retry-After'' (rs_headers rs)) = Inr secs"
    and "0 < secs" and "secs \<le> 9223372036"
    and "\<forall>t. cancel_at c = Some t \<longrightarrow> clock w + secs * second < t"
  shows "classify_reply E c rs w = (Again (Some (http_error rs)),
    \<lparr>clock = clock w + secs * second, hist = Ev_Wait (secs * second) # hist w\<rparr>)"
proof -
  have ne: "header_get ''Retry-After'' (rs_headers rs) \<noteq> []"
    using assms(2) parse_int_Nil by (metis is_ok_simps(1))
  have "wrap64 (secs * second) = secs * second"
    using assms(3,4) by (intro wrap64_nonneg_id) (simp_all add: second_def max_int64_def)
  moreover have "\<not> done_wins E c (secs * second) w"
    using assms(3,5) by (auto simp: done_wins_def timer_at_def second_def split: option.split)
  ultimately have "retry_after_wait E c rs w =
      (None, \<lparr>clock = clock w + secs * second, hist = Ev_Wait (secs * second) # hist w\<rparr>)"
    using assms(1-3) ne
    by (simp add: retry_after_wait_def wait_select_def timer_at_def second_def)
  then show ?thesis
    using assms(1) by (simp add: classify_reply_def retryable_def)
qed

theorem retry_after_honoured_witness:
  "classify_reply quiet_env background
     \<lparr>rs_status = 429, rs_headers = [(''Retry-After'', ''2'')], rs_body = ''slow down''\<rparr> start_world =
   (Again (Some (http_error
     \<lparr>rs_status = 429, rs_headers = [(''Retry-After'', ''2'')], rs_body = ''slow down''\<rparr>)),
    \<lparr>clock = 2000000000, hist = [Ev_Wait 2000000000]\<rparr>)"
proof -
  let ?rs = "\<lparr>rs_status = 429, rs_headers = [(''Retry-After'', ''2'')], rs_body = ''slow down''\<rparr>"
  have "show_int 2 = ''2''" and h: "header_get ''Retry-After'' (rs_headers ?rs) = ''2''"
    by code_simp+
  with parse_int_show [of 2] have "parse_int (header_get ''Retry-After'' (rs_headers ?rs)) = Inr 2"
    by (simp add: min_int64_def max_int64_def)
  from retry_after_honoured [OF _ this, of background start_world quiet_env]
  show ?thesis by (simp add: sample_defs)
qed

text \<open>With a negative \<open>maxRetries\<close> the loop body never runs: no request is sent and yet the GET
  reports success with a nil body, so that \<open>GetProgram\<close> returns an empty program without an error.\<close>

theorem get_negative_retries:
  assumes "nc_max_retries nc < 0"
  shows "nc_get E nc c url w = (Inr None, w) \<and> GetProgram E nc c program_id w = (Inr [], w)"
proof -
  have get: "nc_get E nc c u w = (Inr None, w)" for u
    using assms by (simp add: nc_get_def attempts_def)
  moreover have "unmarshal_string [] = None" by code_simp
  ultimately have "GetProgram E nc c program_id w = (Inr [], w)"
    by (simp add: GetProgram_def query_def decode_or_raw_def raw_string_def)
  with get show ?thesis by blast
qed

theorem get_negative_retries_witness:
  "GetProgram quiet_env (WithRetry (- 1) 0 sample_client) background ''credits.aleo'' start_world =
     (Inr [], start_world)"
  using get_negative_retries [of "WithRetry (- 1) 0 sample_client" quiet_env background]
  by (simp add: WithRetry_def)

section \<open>Queries\<close>

lemma query_definitive:
  assumes "0 \<le> nc_max_retries nc" and "nc_rate_limiter nc = None" and "\<not> url_error E (api_url nc path)"
    and "respond E (hist w) (get_request nc (api_url nc path)) = Reply rs" and "rs_status rs = 200"
  shows "fst (query E nc c path what dec w) = dec (Some (rs_body rs))"
proof -
  have "nc_get E nc c (api_url nc path) w =
      (Inr (Some (rs_body rs)), snd (http_do E (get_request nc (api_url nc path)) w))"
    using get_definitive [OF assms(1-4)] assms(5) by (simp add: retryable_def)
  then show ?thesis by (simp add: query_def)
qed

definition balance_path :: "string \<Rightarrow> string" where
  "balance_path address = ''/program/'' @ ''credits.aleo'' @ ''/mapping/'' @ ''account'' @ ''/'' @ address"

lemma GetMappingValue_balance:
  "GetMappingValue E nc c ''credits.aleo'' ''account'' address =
     query E nc c (balance_path address)
       (''get mapping '' @ ''credits.aleo'' @ ''/'' @ ''account'' @ ''/'' @ address) decode_or_raw"
  by (simp add: GetMappingValue_def balance_path_def)

lemma fst_then_pure:
  assumes "fst (m w) = Inr x" and "\<And>v. fst (k x v) = r"
  shows "fst (then_io m wrap k w) = r"
  using assms by (cases "m w") simp

text \<open>The text of a balance: the digits followed by the type suffix.\<close>

definition balance_text :: "u64 \<Rightarrow> string" where
  "balance_text n = show_u64 n @ ''u64''"

lemma balance_text_chars: "c \<in> set (balance_text n) \<Longrightarrow> is_digit c \<or> c = CHR ''u''"
  using show_nat_digits by (auto simp: balance_text_def show_u64_def is_digit_def)

lemma balance_text_ascii: "list_all ascii (balance_text n)"
  by (auto simp: list_all_iff ascii_def is_digit_def dest!: balance_text_chars)

lemma balance_text_ends:
  "balance_text n \<noteq> []" "is_digit (hd (balance_text n))" "last (balance_text n) = CHR ''4''"
  using show_nat_digits [of "hd (show_nat (unat n))" "unat n"]
  by (simp_all add: balance_text_def show_u64_def)

lemma digit_not_special:
  "is_digit c \<Longrightarrow> byte c < (128 :: nat) \<and> \<not> ascii_space c \<and> c \<noteq> CHR 0x22"
  by (auto simp: is_digit_def ascii_space_def)

lemma trim_balance_text:
  "trim_suffix (trim_set (trim_space (balance_text n)) [CHR 0x22]) ''u64'' = show_u64 n"
proof -
  have hd: "byte (hd (balance_text n)) < (128 :: nat)" "\<not> ascii_space (hd (balance_text n))"
      "hd (balance_text n) \<noteq> CHR 0x22"
    using digit_not_special [OF balance_text_ends(2)] by blast+
  have four: "\<not> ascii_space (CHR ''4'')" by (simp add: ascii_space_def)
  have "trim_space (balance_text n) = balance_text n"
    by (rule trim_space_ascii) (simp_all add: hd balance_text_ends four)
  moreover have "trim_set (balance_text n) [CHR 0x22] = balance_text n"
    by (rule trim_set_id) (simp_all add: hd balance_text_ends)
  ultimately show ?thesis by (simp add: balance_text_def)
qed

text \<open>C34: \<open>GetPublicBalance\<close> reads back every balance: for a client whose \<open>maxRetries\<close> is not negative and
  that has no rate limiter, when the node answers with the JSON string of a
  \<open>u64\<close> literal of Aleo, the digits of n followed by "u64", the result is n, for all 64-bit n.\<close>

theorem public_balance_round_trip:
  assumes "0 \<le> nc_max_retries nc" and "nc_rate_limiter nc = None"
    and "\<not> url_error E (api_url nc (balance_path address))"
    and "respond E (hist w) (get_request nc (api_url nc (balance_path address))) = Reply rs"
    and "rs_status rs = 200" and "rs_body rs = quote (show_u64 n @ ''u64'')"
  shows "fst (GetPublicBalance E nc c address w) = Inr n"
proof -
  have "to_valid_utf8 (balance_text n) = balance_text n"
    by (intro to_valid_utf8_id valid_utf8_ascii balance_text_ascii)
  then have "decode_or_raw (Some (rs_body rs)) = Inr (balance_text n)"
    using assms(6) unmarshal_quote [of "balance_text n"]
    by (simp add: decode_or_raw_def raw_string_def balance_text_def)
  then have "fst (GetMappingValue E nc c ''credits.aleo'' ''account'' address w) = Inr (balance_text n)"
    using query_definitive [OF assms(1-5), where dec = decode_or_raw] by (simp add: GetMappingValue_balance)
  then show ?thesis
    unfolding GetPublicBalance_def
    by (rule fst_then_pure) (simp add: Let_def trim_balance_text)
qed

theorem public_balance_round_trip_witness:
  "fst (GetPublicBalance (ok_env (quote (show_u64 (- 1) @ ''u64''))) sample_client background
     ''aleo1xyz'' start_world) = Inr (- 1 :: u64)"
  by (rule public_balance_round_trip
      [where rs = "\<lparr>rs_status = 200, rs_headers = [], rs_body = quote (show_u64 (- 1) @ ''u64'')\<rparr>"])
    (simp_all add: ok_env_def sample_defs)

text \<open>For an address without a balance the node's mapping query answers \<open>null\<close>, and
  \<open>GetPublicBalance\<close> reports a parse error instead of the balance 0.\<close>

theorem public_balance_of_null:
  assumes "0 \<le> nc_max_retries nc" and "nc_rate_limiter nc = None"
    and "\<not> url_error E (api_url nc (balance_path address))"
    and "respond E (hist w) (get_request nc (api_url nc (balance_path address))) = Reply rs"
    and "rs_status rs = 200" and "rs_body rs = ''null''"
  shows "fst (GetPublicBalance E nc c address w) =
    Inl (Wrapf ''parse balance '' (LibErr ''strconv''))"
proof -
  have "unmarshal_string ''null'' = Some []" by code_simp
  then have "decode_or_raw (Some (rs_body rs)) = Inr []"
    using assms(6) by (simp add: decode_or_raw_def raw_string_def)
  then have m: "fst (GetMappingValue E nc c ''credits.aleo'' ''account'' address w) = Inr []"
    using query_definitive [OF assms(1-5), where dec = decode_or_raw] by (simp add: GetMappingValue_balance)
  have e: "trim_suffix (trim_set (trim_space []) [CHR 0x22]) ''u64'' = []" by code_simp
  have "parse_uint [] = Inl Err_Syntax" by (simp add: parse_uint_def parse_nat64_def)
  then have k: "fst ((let val = trim_suffix (trim_set (trim_space []) [CHR 0x22]) ''u64''
      in case parse_uint val of
           Inl _ \<Rightarrow> ret_io (Inl (Wrapf (''parse balance '' @ val) (LibErr ''strconv'')))
         | Inr balance \<Rightarrow> ret_io (Inr balance)) v)
      = (Inl (Wrapf ''parse balance '' (LibErr ''strconv'')) :: u64 result)" for v
    unfolding e Let_def by simp
  show ?thesis
    unfolding GetPublicBalance_def
    by (rule fst_then_pure, rule m, rule k)
qed

theorem public_balance_of_null_witness:
  "fst (GetPublicBalance (ok_env ''null'') sample_client background ''aleo1xyz'' start_world) =
     Inl (Wrapf ''parse balance '' (LibErr ''strconv''))"
  by (rule public_balance_of_null
      [where rs = "\<lparr>rs_status = 200, rs_headers = [], rs_body = ''null''\<rparr>"])
    (simp_all add: ok_env_def sample_defs)

section \<open>Submitting a transaction\<close>

text \<open>C33: A broadcast is one POST of exactly the transaction's bytes to
  \<open>{host}/{network}/transaction/broadcast\<close>, never retried; it succeeds if and only if the reply is 200
  or 201, with the reply's text stripped of quotes as the transaction id.\<close>

theorem broadcast_outcome:
  assumes "\<not> url_error E (api_url nc ''/transaction/broadcast'')"
  shows "requests (snd (SubmitTransaction E nc c tx w)) = requests w + 1 \<and>
    hist (snd (SubmitTransaction E nc c tx w)) =
      Ev_Http (post_request nc (api_url nc ''/transaction/broadcast'') (raw_string tx))
        (respond E (hist w) (post_request nc (api_url nc ''/transaction/broadcast'') (raw_string tx)))
      # hist w \<and>
    (\<forall>id. fst (SubmitTransaction E nc c tx w) = Inr id \<longleftrightarrow>
      (\<exists>rs. respond E (hist w)
          (post_request nc (api_url nc ''/transaction/broadcast'') (raw_string tx)) = Reply rs \<and>
        (rs_status rs = 200 \<or> rs_status rs = 201) \<and> id = trim_quotes (rs_body rs)))"
proof -
  define rq where "rq = post_request nc (api_url nc ''/transaction/broadcast'') (raw_string tx)"
  obtain out v where h: "http_do E rq w = (out, v)" by (cases "http_do E rq w")
  have v: "requests v = requests w + 1" "hist v = Ev_Http rq out # hist w"
    using http_do_world [OF h] by auto
  have out: "out = respond E (hist w) rq" using http_do_sel(1) [of E rq w] h by simp
  have eq: "SubmitTransaction E nc c tx w =
      (case (out, v) of
         (Transport_Error m, w') \<Rightarrow> (Inl (Wrapf ''broadcast request failed'' (LibErr m)), w')
       | (Read_Error _ m, w') \<Rightarrow> (Inl (Wrapf ''read broadcast response'' (LibErr m)), w')
       | (Reply rs, w') \<Rightarrow>
           if rs_status rs \<noteq> 200 \<and> rs_status rs \<noteq> 201 then
             (Inl (status_error ''broadcast failed'' rs), w')
           else (Inr (trim_quotes (rs_body rs)), w'))"
    using assms h by (simp add: SubmitTransaction_def submit_transaction_def rq_def)
  show ?thesis
    unfolding rq_def [symmetric] out [symmetric] eq
    using v by (cases out) auto
qed

theorem broadcast_outcome_witness:
  "fst (SubmitTransaction (reply_env 201 [CHR 0x22, CHR ''x'', CHR 0x22]) sample_client background
     (Some ''{}'') start_world) = Inr ''x''"
proof -
  have "trim_quotes [CHR 0x22, CHR ''x'', CHR 0x22] = ''x''" by code_simp
  then show ?thesis
    using broadcast_outcome [of "reply_env 201 [CHR 0x22, CHR ''x'', CHR 0x22]" sample_client background
        "Some ''{}''" start_world]
    by (simp add: reply_env_def quiet_env_def)
qed

section \<open>Waiting for a transaction\<close>

lemma forward_GetTransaction [simp, intro]: "forward (GetTransaction E nc c txid)"
  unfolding GetTransaction_def by blast

text \<open>With a negative \<open>maxRetries\<close> there is no body, and nothing decodes from that.\<close>

lemma GetTransaction_negative_retries:
  assumes "nc_max_retries nc < 0"
  shows "\<exists>e. GetTransaction E nc c txid w = (Inl e, w)"
proof -
  have "unmarshal dec_transaction [] = None" by code_simp
  moreover have "nc_get E nc c u w = (Inr None, w)" for u
    using assms by (simp add: nc_get_def attempts_def)
  ultimately show ?thesis
    by (simp add: GetTransaction_def query_def decode_json_def raw_string_def)
qed

lemma GetTransaction_ok:
  assumes "GetTransaction E nc c txid w = (Inr tx, w')"
  shows "\<exists>rs h. rs_status rs = 200 \<and> unmarshal dec_transaction (rs_body rs) = Some tx \<and>
    hist w' = Ev_Http (get_request nc (api_url nc (''/transaction/'' @ txid))) (Reply rs) # h"
proof -
  obtain b where get: "nc_get E nc c (api_url nc (''/transaction/'' @ txid)) w = (Inr b, w')"
    and b: "decode_json (unmarshal dec_transaction) (''decode transaction '' @ txid) b = Inr tx"
    using assms unfolding GetTransaction_def query_def
    by (auto elim!: then_io_Inr)
  have "0 \<le> nc_max_retries nc"
    using GetTransaction_negative_retries [of nc E c txid w] assms by force
  from get_answered [OF this get] b show ?thesis
    by (auto simp: answered_def decode_json_def raw_string_def split: option.splits)
qed

lemma poll_terminates:
  assumes "cancel_at c = Some t" and "0 < poll"
  shows "\<exists>r. poll_transaction E nc c txid poll w = Some r"
proof (induction "nat (t - clock w)" arbitrary: w rule: less_induct)
  case less
  obtain r w1 where g: "GetTransaction E nc c txid w = (r, w1)"
    by (cases "GetTransaction E nc c txid w")
  then have "clock w \<le> clock w1"
    using forwardD [OF forward_GetTransaction g] by (simp add: later_def)
  show ?case
  proof (cases r)
    case (Inr tx)
    with g show ?thesis by (simp add: poll_transaction.simps)
  next
    case (Inl e)
    show ?thesis
    proof (cases "done_wins E c poll w1")
      case True
      with Inl g show ?thesis
        by (simp add: poll_transaction.simps [of E nc c txid poll w] wait_select_def)
    next
      case False
      then have w2: "wait_select E c poll w1 =
          (None, \<lparr>clock = clock w1 + poll, hist = Ev_Wait poll # hist w1\<rparr>)"
        using assms(2) by (simp add: wait_select_def timer_at_def)
      have "clock w1 + poll \<le> t"
        using False assms by (auto simp: done_wins_def timer_at_def)
      with \<open>clock w \<le> clock w1\<close> assms(2)
      have "nat (t - (clock w1 + poll)) < nat (t - clock w)" by simp
      with less.hyps [of "\<lparr>clock = clock w1 + poll, hist = Ev_Wait poll # hist w1\<rparr>"]
      show ?thesis
        using Inl g w2 by (simp add: poll_transaction.simps [of E nc c txid poll w])
    qed
  qed
qed

text \<open>C26: \<open>WaitForTransaction\<close> returns whenever its context is cancelled at some instant, whatever
  the node answers, for every poll interval that is not negative (0 stands for three seconds).\<close>

theorem wait_terminates:
  assumes "cancel_at c = Some t" and "0 \<le> poll"
  shows "\<exists>r w'. WaitForTransaction E nc c txid poll w = Some (r, w')"
  using poll_terminates [OF assms(1), of "if poll = 0 then 3 * second else poll" E nc txid w] assms(2)
  by (auto simp: WaitForTransaction_def second_def)

theorem wait_terminates_witness:
  "\<exists>r w'. WaitForTransaction quiet_env sample_client \<lparr>cancel_at = Some 5, cancel_err = Canceled\<rparr>
     ''at1'' 0 start_world = Some (r, w')"
  by (rule wait_terminates) simp_all

lemmas poll_induct = poll_transaction.raw_induct [rotated -1, consumes 1, case_names step]

lemma poll_result:
  assumes "poll_transaction E nc c txid poll w = Some z"
  shows "(\<exists>tx v. z = (Inr tx, snd z) \<and> GetTransaction E nc c txid v = (Inr tx, snd z)) \<or>
    (\<exists>h. cancel_at c \<noteq> None \<and> z = (Inl (CtxErr (cancel_err c)), snd z) \<and>
       hist (snd z) = Ev_Cancelled # h)"
  using assms
proof (induction rule: poll_induct)
  case (step rec E nc c txid poll w z)
  obtain r w1 where g: "GetTransaction E nc c txid w = (r, w1)"
    by (cases "GetTransaction E nc c txid w")
  show ?case
  proof (cases r)
    case (Inr tx)
    with step.hyps g show ?thesis by auto
  next
    case (Inl e)
    show ?thesis
    proof (cases "done_wins E c poll w1")
      case True
      then have "cancel_at c \<noteq> None"
        by (auto simp: done_wins_def split: option.splits)
      moreover from True Inl g step.hyps have "snd z =
          \<lparr>clock = max (clock w1) (the (cancel_at c)), hist = Ev_Cancelled # hist w1\<rparr>"
        and "fst z = Inl (CtxErr (cancel_err c))"
        by (auto simp: wait_select_def)
      ultimately show ?thesis
        by (intro disjI2 exI [of _ "hist w1"] conjI) (simp_all add: prod_eq_iff)
    next
      case False
      with Inl g step.hyps have "rec E nc c txid poll
          \<lparr>clock = timer_at poll w1, hist = Ev_Wait (max 0 poll) # hist w1\<rparr> = Some z"
        by (simp add: wait_select_def)
      then show ?thesis by (rule step.IH)
    qed
  qed
qed

text \<open>C27: What \<open>WaitForTransaction\<close> returns is the transaction decoded from a 200 reply that was the
  final event, or the context's error after a cancellation; no other error ever comes out.\<close>

theorem wait_result:
  assumes "WaitForTransaction E nc c txid poll w = Some (r, w')"
  shows "(\<exists>tx rs h. r = Inr tx \<and> rs_status rs = 200 \<and>
      unmarshal dec_transaction (rs_body rs) = Some tx \<and>
      hist w' = Ev_Http (get_request nc (api_url nc (''/transaction/'' @ txid))) (Reply rs) # h) \<or>
    (r = Inl (CtxErr (cancel_err c)) \<and> cancel_at c \<noteq> None \<and> (\<exists>h. hist w' = Ev_Cancelled # h))"
  using poll_result [OF assms [unfolded WaitForTransaction_def]]
proof (elim disjE exE conjE)
  fix tx v
  assume "(r, w') = (Inr tx, snd (r, w'))" and "GetTransaction E nc c txid v = (Inr tx, snd (r, w'))"
  then show ?thesis using GetTransaction_ok [of E nc c txid v tx w'] by auto
qed auto

lemma poll_never:
  assumes "cancel_at c = None" and "\<And>v. \<exists>e v'. GetTransaction E nc c txid v = (Inl e, v')"
  shows "poll_transaction E nc c txid poll w \<noteq> Some z"
proof
  assume "poll_transaction E nc c txid poll w = Some z"
  from poll_result [OF this] show False
  proof (elim disjE exE conjE)
    fix tx v
    assume "GetTransaction E nc c txid v = (Inr tx, snd z)"
    then show False using assms(2) [of v] by auto
  qed (use assms(1) in simp)
qed

lemma GetTransaction_definitive_error:
  assumes "nc_rate_limiter nc = None"
    and "\<not> url_error E (api_url nc (''/transaction/'' @ txid))"
    and "respond E (hist w) (get_request nc (api_url nc (''/transaction/'' @ txid))) = Reply rs"
    and "rs_status rs \<noteq> 200" and "\<not> retryable (rs_status rs)"
  shows "\<exists>e w'. GetTransaction E nc c txid w = (Inl e, w')"
proof (cases "0 \<le> nc_max_retries nc")
  case True
  with get_definitive [OF True assms(1-3,5), of c] assms(4) show ?thesis
    by (simp add: GetTransaction_def query_def)
next
  case False
  with GetTransaction_negative_retries [of nc E c txid w] show ?thesis by auto
qed

text \<open>C38: Without a cancellable context and a rate limiter \<open>WaitForTransaction\<close> polls for ever when the node
  keeps giving a definitive error (a malformed id answered by 400, an unknown route by 404): such an error is
  treated like "not found yet".\<close>

theorem wait_polls_for_ever:
  assumes "cancel_at c = None" and "nc_rate_limiter nc = None"
    and "\<not> url_error E (api_url nc (''/transaction/'' @ txid))"
    and "\<forall>h. \<exists>rs. respond E h (get_request nc (api_url nc (''/transaction/'' @ txid))) = Reply rs \<and>
      rs_status rs \<noteq> 200 \<and> rs_status rs \<noteq> 429 \<and> rs_status rs < 500"
  shows "WaitForTransaction E nc c txid poll w = None"
proof -
  have "\<exists>e v'. GetTransaction E nc c txid v = (Inl e, v')" for v
  proof -
    obtain rs where "respond E (hist v) (get_request nc (api_url nc (''/transaction/'' @ txid))) = Reply rs"
      and "rs_status rs \<noteq> 200" and "\<not> retryable (rs_status rs)"
      using assms(4) unfolding retryable_def by force
    then show ?thesis by (rule GetTransaction_definitive_error [OF assms(2,3)])
  qed
  then show ?thesis
    using poll_never [OF assms(1)] unfolding WaitForTransaction_def
    by (metis not_Some_eq)
qed

theorem wait_polls_for_ever_witness:
  "WaitForTransaction (reply_env 404 ''unknown'') sample_client background ''at1'' 0 start_world = None"
  by (rule wait_polls_for_ever) (simp_all add: reply_env_def sample_defs)

theorem wait_result_witness:
  "\<exists>w'. WaitForTransaction (ok_env ''null'') sample_client background ''at1'' 0 start_world =
     Some (Inr zero_transaction, w') \<and> (\<exists>e. hist w' = [e])"
proof -
  have dec: "unmarshal dec_transaction ''null'' = Some zero_transaction" by code_simp
  define v where "v = snd (http_do (ok_env ''null'')
    (get_request sample_client (api_url sample_client ''/transaction/at1'')) start_world)"
  have "GetTransaction (ok_env ''null'') sample_client background ''at1'' start_world =
      (Inr zero_transaction, v)"
    using ok_env_get [of "''null''" background "api_url sample_client ''/transaction/at1''"]
    by (simp add: GetTransaction_def query_def decode_json_def raw_string_def dec v_def)
  then have W: "WaitForTransaction (ok_env ''null'') sample_client background ''at1'' 0 start_world =
      Some (Inr zero_transaction, v)"
    by (simp add: WaitForTransaction_def poll_transaction.simps)
  from wait_result [OF W] show ?thesis
    using W by (auto simp: v_def http_do_def Let_def start_world_def)
qed

section \<open>The facade\<close>

text \<open>A \<open>Client\<close> built with its own options wraps the very network client that \<open>NewNetworkClient\<close>
  builds with the corresponding ones: the host without trailing slashes, three retries from 500 ms
  and a 30 s HTTP client unless an option says otherwise.\<close>

theorem client_wraps_network_client:
  "NewClient host net [WithClientHTTP h, WithClientLogger l, WithClientRetries m d, WithClientRateLimit q] =
     \<lparr>cl_network_client =
        NewNetworkClient host net [WithHTTPClient h, WithLogger l, WithRetry m d, WithRateLimit q]\<rparr> \<and>
   NewClient host net [] = \<lparr>cl_network_client = \<lparr>nc_host = trim_right_set host ''/'', nc_network = net,
     nc_http = Built_Client 30000000000, nc_headers = [], nc_logger = 0, nc_max_retries = 3,
     nc_base_delay = 500000000, nc_rate_limiter = None\<rparr>\<rparr>"
  by (simp add: NewClient_def NewNetworkClient_def default_network_client_def second_def
      millisecond_def WithClientHTTP_def WithClientLogger_def WithClientRetries_def
      WithClientRateLimit_def WithHTTPClient_def WithLogger_def WithRetry_def WithRateLimit_def)

end
