(* ===== verification/FFI_Bridge.thy ===== *)
theory FFI_Bridge
  imports SDK_World
begin

text \<open>
  The boundary to the Rust library: the convention by which a C function of \<open>rust-bridge\<close> reports
  a result, an error or a panic in one C string (\<open>rust-bridge/src/helpers.rs\<close>), its reading in Go
  (\<open>resultOrError\<close> of \<open>internal/ffi/bridge.go\<close>), the Go wrappers of the C functions and the
  package-level functions of \<open>crypto.go\<close>, \<open>program.go\<close> and \<open>record.go\<close> that forward to them. What
  snarkVM computes is the environment's \<open>ffi\<close>.
\<close>

section \<open>The Go side\<close>

text \<open>\<open>C.CString\<close> and \<open>C.GoString\<close>: the other side sees the bytes up to the first NUL.\<close>

definition c_string :: "string \<Rightarrow> string" where
  "c_string s = takeWhile (\<lambda>c. c \<noteq> CHR 0x00) s"

lemma c_string_id: "CHR 0x00 \<notin> set s \<Longrightarrow> c_string s = s"
  by (auto simp: c_string_def takeWhile_eq_all_conv)

lemma c_string_idem [simp]: "c_string (c_string s) = c_string s"
  by (simp add: c_string_def takeWhile_idem)

definition err_prefix :: string where
  "err_prefix = ''{'' @ [CHR 0x22] @ ''error'' @ [CHR 0x22] @ '':'' @ [CHR 0x22]"

definition result_or_error :: "string option \<Rightarrow> string result" where
  "result_or_error cstr =
     (case cstr of
        None \<Rightarrow> Inl (Errorf ''bridge returned nil'')
      | Some p \<Rightarrow>
          (let s = c_string p
           in if length s > length err_prefix \<and> take (length err_prefix) s = err_prefix then
                (case unmarshal (dec_one_string ''error'') s of
                   Some msg \<Rightarrow> if msg \<noteq> [] then Inl (Errorf msg) else Inr s
                 | None \<Rightarrow> Inr s)
              else Inr s))"

definition bridge :: "env \<Rightarrow> ffi_call \<Rightarrow> string result io" where
  "bridge E f w = (let (p, w') = c_call E f w in (result_or_error p, w'))"

definition ffi_private_key_new :: "env \<Rightarrow> string result io" where
  "ffi_private_key_new E = bridge E C_private_key_new"

definition ffi_sign_message :: "env \<Rightarrow> string \<Rightarrow> bytes \<Rightarrow> string result io" where
  "ffi_sign_message E sk msg = bridge E (C_sign_message (c_string sk) msg)"

definition ffi_verify_signature :: "env \<Rightarrow> string \<Rightarrow> bytes \<Rightarrow> string \<Rightarrow> bool result io" where
  "ffi_verify_signature E addr msg sig w =
     (let (r, w') = c_verify E (c_string addr) msg (c_string sig) w
      in (if r = 1 then Inr True
          else if r = 0 then Inr False
          else Inl (Errorf ''signature verification failed (internal error)''), w'))"

definition ffi_decrypt_record :: "env \<Rightarrow> string \<Rightarrow> string \<Rightarrow> string result io" where
  "ffi_decrypt_record E ciphertext view_key =
     bridge E (C_decrypt_record (c_string ciphertext) (c_string view_key))"

definition ffi_execute_program ::
  "env \<Rightarrow> string \<Rightarrow> string \<Rightarrow> string \<Rightarrow> string \<Rightarrow> string result io" where
  "ffi_execute_program E src fn inputs sk =
     bridge E (C_execute_program (c_string src) (c_string fn) (c_string inputs) (c_string sk))"

definition ffi_program_id :: "env \<Rightarrow> string \<Rightarrow> string result io" where
  "ffi_program_id E src = bridge E (C_program_id (c_string src))"

definition ffi_proving_request_to_bytes ::
  "env \<Rightarrow> string \<Rightarrow> string \<Rightarrow> bool \<Rightarrow> string result io" where
  "ffi_proving_request_to_bytes E auth fee broadcast =
     bridge E (C_proving_request_to_bytes (c_string auth)
       (if fee \<noteq> [] then Some (c_string fee) else None) broadcast)"

definition ffi_authorize ::
  "env \<Rightarrow> string \<Rightarrow> string \<Rightarrow> string \<Rightarrow> string \<Rightarrow> string \<Rightarrow> string result io" where
  "ffi_authorize E sk src fn inputs imports =
     bridge E (C_authorize (c_string sk) (c_string src) (c_string fn) (c_string inputs)
       (c_string imports))"

definition ffi_derive_all_keys :: "env \<Rightarrow> string \<Rightarrow> string result io" where
  "ffi_derive_all_keys E sk = bridge E (C_derive_all_keys (c_string sk))"

definition ffi_HashBHP256 :: "env \<Rightarrow> string \<Rightarrow> string result io" where
  "ffi_HashBHP256 E input = bridge E (C_hash Hash_bhp256 (c_string input))"

definition ffi_HashBHP512 :: "env \<Rightarrow> string \<Rightarrow> string result io" where
  "ffi_HashBHP512 E input = bridge E (C_hash Hash_bhp512 (c_string input))"

definition ffi_HashBHP768 :: "env \<Rightarrow> string \<Rightarrow> string result io" where
  "ffi_HashBHP768 E input = bridge E (C_hash Hash_bhp768 (c_string input))"

definition ffi_HashBHP1024 :: "env \<Rightarrow> string \<Rightarrow> string result io" where
  "ffi_HashBHP1024 E input = bridge E (C_hash Hash_bhp1024 (c_string input))"

definition ffi_HashPedersen64 :: "env \<Rightarrow> string \<Rightarrow> string result io" where
  "ffi_HashPedersen64 E input = bridge E (C_hash Hash_ped64 (c_string input))"

definition ffi_HashPedersen128 :: "env \<Rightarrow> string \<Rightarrow> string result io" where
  "ffi_HashPedersen128 E input = bridge E (C_hash Hash_ped128 (c_string input))"

definition ffi_HashPoseidon2 :: "env \<Rightarrow> string \<Rightarrow> string result io" where
  "ffi_HashPoseidon2 E input = bridge E (C_hash Hash_psd2 (c_string input))"

definition ffi_HashPoseidon4 :: "env \<Rightarrow> string \<Rightarrow> string result io" where
  "ffi_HashPoseidon4 E input = bridge E (C_hash Hash_psd4 (c_string input))"

definition ffi_HashPoseidon8 :: "env \<Rightarrow> string \<Rightarrow> string result io" where
  "ffi_HashPoseidon8 E input = bridge E (C_hash Hash_psd8 (c_string input))"

definition ffi_HashPoseidon2Multi :: "env \<Rightarrow> string \<Rightarrow> string result io" where
  "ffi_HashPoseidon2Multi E inputs = bridge E (C_hash Hash_psd2_multi (c_string inputs))"

definition ffi_HashPoseidon4Multi :: "env \<Rightarrow> string \<Rightarrow> string result io" where
  "ffi_HashPoseidon4Multi E inputs = bridge E (C_hash Hash_psd4_multi (c_string inputs))"

definition ffi_HashPoseidon8Multi :: "env \<Rightarrow> string \<Rightarrow> string result io" where
  "ffi_HashPoseidon8Multi E inputs = bridge E (C_hash Hash_psd8_multi (c_string inputs))"

lemmas ffi_hash_defs = ffi_HashBHP256_def ffi_HashBHP512_def ffi_HashBHP768_def
  ffi_HashBHP1024_def ffi_HashPedersen64_def ffi_HashPedersen128_def ffi_HashPoseidon2_def
  ffi_HashPoseidon4_def ffi_HashPoseidon8_def

lemmas ffi_multi_defs = ffi_HashPoseidon2Multi_def ffi_HashPoseidon4Multi_def
  ffi_HashPoseidon8Multi_def

definition ffi_verify_execution :: "env \<Rightarrow> string \<Rightarrow> bool result io" where
  "ffi_verify_execution E exec_json w =
     (case bridge E (C_verify_execution (c_string exec_json)) w of
        (Inl e, w') \<Rightarrow> (Inl e, w')
      | (Inr r, w') \<Rightarrow> (Inr (r = ''true''), w'))"

lemma bridge_sel [world_simps]:
  "fst (bridge E f w) = result_or_error (ffi E (hist w) f)"
  "snd (bridge E f w) = log_event (Ev_Ffi f) w"
  by (simp_all add: bridge_def c_call_def)

lemma bridge_eq: "bridge E f w = (result_or_error (ffi E (hist w) f), log_event (Ev_Ffi f) w)"
  by (simp add: bridge_def c_call_def)

lemma later_bridge [simp]: "later w (snd (bridge E f w))"
  by (simp add: bridge_sel)

section \<open>Package-level functions\<close>

definition program_id :: "env \<Rightarrow> string \<Rightarrow> string result io" where
  "program_id E src = ffi_program_id E src"

definition decrypt_record :: "env \<Rightarrow> string \<Rightarrow> string \<Rightarrow> string result io" where
  "decrypt_record E ciphertext view_key = ffi_decrypt_record E ciphertext view_key"

definition verify :: "env \<Rightarrow> string \<Rightarrow> bytes \<Rightarrow> string \<Rightarrow> bool result io" where
  "verify E address msg signature = ffi_verify_signature E address msg signature"

definition verify_execution :: "env \<Rightarrow> string \<Rightarrow> bool result io" where
  "verify_execution E exec_json = ffi_verify_execution E exec_json"

type_synonym hash_algorithm = string

definition BHP256 :: hash_algorithm where "BHP256 = ''bhp256''"
definition BHP512 :: hash_algorithm where "BHP512 = ''bhp512''"
definition BHP768 :: hash_algorithm where "BHP768 = ''bhp768''"
definition BHP1024 :: hash_algorithm where "BHP1024 = ''bhp1024''"
definition Pedersen64 :: hash_algorithm where "Pedersen64 = ''pedersen64''"
definition Pedersen128 :: hash_algorithm where "Pedersen128 = ''pedersen128''"
definition Poseidon2 :: hash_algorithm where "Poseidon2 = ''poseidon2''"
definition Poseidon4 :: hash_algorithm where "Poseidon4 = ''poseidon4''"
definition Poseidon8 :: hash_algorithm where "Poseidon8 = ''poseidon8''"

lemmas algorithm_defs = BHP256_def BHP512_def BHP768_def BHP1024_def Pedersen64_def
  Pedersen128_def Poseidon2_def Poseidon4_def Poseidon8_def

definition hash :: "env \<Rightarrow> hash_algorithm \<Rightarrow> string \<Rightarrow> string result io" where
  "hash E algo input w =
     (if algo = BHP256 then ffi_HashBHP256 E input w
      else if algo = BHP512 then ffi_HashBHP512 E input w
      else if algo = BHP768 then ffi_HashBHP768 E input w
      else if algo = BHP1024 then ffi_HashBHP1024 E input w
      else if algo = Pedersen64 then ffi_HashPedersen64 E input w
      else if algo = Pedersen128 then ffi_HashPedersen128 E input w
      else if algo = Poseidon2 then ffi_HashPoseidon2 E input w
      else if algo = Poseidon4 then ffi_HashPoseidon4 E input w
      else if algo = Poseidon8 then ffi_HashPoseidon8 E input w
      else (Inl (Errorf (''unknown hash algorithm: '' @ algo)), w))"

definition HashBHP256 :: "env \<Rightarrow> string \<Rightarrow> string result io" where
  "HashBHP256 E input = ffi_HashBHP256 E input"

definition HashBHP512 :: "env \<Rightarrow> string \<Rightarrow> string result io" where
  "HashBHP512 E input = ffi_HashBHP512 E input"

definition HashBHP768 :: "env \<Rightarrow> string \<Rightarrow> string result io" where
  "HashBHP768 E input = ffi_HashBHP768 E input"

definition HashBHP1024 :: "env \<Rightarrow> string \<Rightarrow> string result io" where
  "HashBHP1024 E input = ffi_HashBHP1024 E input"

definition HashPedersen64 :: "env \<Rightarrow> string \<Rightarrow> string result io" where
  "HashPedersen64 E input = ffi_HashPedersen64 E input"

definition HashPedersen128 :: "env \<Rightarrow> string \<Rightarrow> string result io" where
  "HashPedersen128 E input = ffi_HashPedersen128 E input"

definition HashPoseidon2 :: "env \<Rightarrow> string \<Rightarrow> string result io" where
  "HashPoseidon2 E input = ffi_HashPoseidon2 E input"

definition HashPoseidon4 :: "env \<Rightarrow> string \<Rightarrow> string result io" where
  "HashPoseidon4 E input = ffi_HashPoseidon4 E input"

definition HashPoseidon8 :: "env \<Rightarrow> string \<Rightarrow> string result io" where
  "HashPoseidon8 E input = ffi_HashPoseidon8 E input"

definition hash_multi ::
  "(string \<Rightarrow> string result io) \<Rightarrow> string list option \<Rightarrow> string result io" where
  "hash_multi fn inputs = fn (marshal_strings inputs)"

definition HashPoseidon2Multi :: "env \<Rightarrow> string list option \<Rightarrow> string result io" where
  "HashPoseidon2Multi E inputs = hash_multi (ffi_HashPoseidon2Multi E) inputs"

definition HashPoseidon4Multi :: "env \<Rightarrow> string list option \<Rightarrow> string result io" where
  "HashPoseidon4Multi E inputs = hash_multi (ffi_HashPoseidon4Multi E) inputs"

definition HashPoseidon8Multi :: "env \<Rightarrow> string list option \<Rightarrow> string result io" where
  "HashPoseidon8Multi E inputs = hash_multi (ffi_HashPoseidon8Multi E) inputs"

section \<open>The Rust side\<close>

text \<open>
  A Rust computation ends with a value, an error message or a panic; the body of an exported
  function with a string. The JSON text of a string is written by \<open>serde_json\<close>, a parameter \<open>ser\<close>.
\<close>

datatype 'a rust_outcome = R_Ok 'a | R_Err string | R_Panic

text \<open>\<open>CString::new\<close> refuses an interior NUL; the bridge then returns the default, empty string.\<close>

definition to_c_string :: "string \<Rightarrow> string" where
  "to_c_string s = (if CHR 0x00 \<in> set s then [] else s)"

definition error_json :: "(string \<Rightarrow> string) \<Rightarrow> string \<Rightarrow> string" where
  "error_json ser msg =
     ''{'' @ [CHR 0x22] @ ''error'' @ [CHR 0x22] @ '':'' @ ser msg @ ''}''"

definition error_result :: "(string \<Rightarrow> string) \<Rightarrow> string \<Rightarrow> string" where
  "error_result ser msg = to_c_string (error_json ser msg)"

definition ffi_catch :: "(string \<Rightarrow> string) \<Rightarrow> string \<Rightarrow> string rust_outcome \<Rightarrow> string" where
  "ffi_catch ser panic_msg out =
     (case out of
        R_Ok s \<Rightarrow> to_c_string s
      | R_Err e \<Rightarrow> error_result ser e
      | R_Panic \<Rightarrow> error_result ser panic_msg)"

text \<open>
  What the bridge relies on in \<open>serde_json\<close>: the text of a (valid UTF-8) string is a JSON string
  literal that reads back as the string, and control characters, NUL among them, are escaped.
\<close>

definition serde_ok :: "(string \<Rightarrow> string) \<Rightarrow> bool" where
  "serde_ok ser =
     (\<forall>m. valid_utf8 m \<longrightarrow>
        (\<exists>body. ser m = CHR 0x22 # body @ [CHR 0x22] \<and> CHR 0x00 \<notin> set body \<and>
           (\<forall>r. json_string (body @ CHR 0x22 # r) = Some (m, r))))"

lemma escape_ascii_no_nul: "CHR 0x00 \<notin> set (escape_ascii c)"
proof -
  have "hex_val (CHR 0x00) = None"
    by (simp add: hex_val_def is_digit_def)
  then have hd: "CHR 0x00 \<noteq> hex_digit d" if "d < 16" for d
    using hex_val_digit [OF that] by auto
  have "byte c div 16 < (16::nat)" "byte c mod 16 < (16::nat)"
    using byte_less [of c] by (simp_all add: less_mult_imp_div_less)
  with hd have u: "CHR 0x00 \<notin> set (u00 c)"
    by (simp add: u00_def)
  show ?thesis
  proof (cases "c = CHR 0x00")
    case True
    with u show ?thesis by (simp add: escape_ascii_def)
  next
    case False
    with u show ?thesis by (simp add: escape_ascii_def)
  qed
qed

lemma escape_rune_no_nul: "CHR 0x00 \<notin> set p \<Longrightarrow> CHR 0x00 \<notin> set (escape_rune p)"
  by (simp add: escape_rune_def)

lemma cont_no_nul:
  "cont_byte b \<Longrightarrow> b \<noteq> CHR 0x00" "second3 a b \<Longrightarrow> b \<noteq> CHR 0x00" "second4 a b \<Longrightarrow> b \<noteq> CHR 0x00"
  "\<not> ascii b \<Longrightarrow> b \<noteq> CHR 0x00"
  by (auto simp: ascii_def cont_byte_def second3_def second4_def split: if_splits)

lemma utf8_rune_no_nul:
  "\<not> ascii c \<Longrightarrow> CHR 0x00 \<notin> set (take (utf8_len (c # s)) (c # s))"
  by (cases "c # s" rule: utf8_len.cases) (auto dest: cont_no_nul)

lemma quote_body_no_nul: "CHR 0x00 \<notin> set (quote_body s)"
proof (induction s rule: quote_body.induct)
  case (2 c s)
  then show ?case
    using escape_ascii_no_nul [of c] escape_rune_no_nul [OF utf8_rune_no_nul, of c s]
    by (subst quote_body.simps(2)) simp
qed simp

text \<open>The encoder of the Go library satisfies the hypothesis.\<close>

lemma serde_ok_quote: "serde_ok quote"
  unfolding serde_ok_def
proof (intro allI impI)
  fix m :: string
  assume "valid_utf8 m"
  then show "\<exists>body. quote m = CHR 0x22 # body @ [CHR 0x22] \<and> CHR 0x00 \<notin> set body \<and>
      (\<forall>r. json_string (body @ CHR 0x22 # r) = Some (m, r))"
    by (intro exI [of _ "quote_body m"])
       (simp add: quote_def quote_body_no_nul json_string_quote_body to_valid_utf8_id)
qed

lemma json_string_error: "json_string (''error'' @ CHR 0x22 # r) = Some (''error'', r)"
  using json_string_quote_body [of "''error''" r]
  by (simp add: quote_body.simps ascii_def escape_ascii_def)

lemma json_error_members:
  assumes js: "\<And>r. json_string (body @ CHR 0x22 # r) = Some (m, r)"
  shows "unmarshal (dec_one_string ''error'') (err_prefix @ body @ [CHR 0x22] @ ''}'') = Some m"
proof -
  let ?tail = "CHR 0x22 # body @ CHR 0x22 # ''}''"
  have val: "json_value d ?tail = Some (JStr m, ''}'')" for d
    by (subst json_value.simps) (simp add: json_scalar_def has_prefix_def js)
  have mem: "json_members (Suc 0) (CHR 0x22 # ''error'' @ CHR 0x22 # CHR '':'' # ?tail) =
      Some ([(''error'', CHR 0x22 # body @ [CHR 0x22], JStr m)], [])"
    using json_string_error [of "CHR '':'' # ?tail"] val
    by (subst json_members.simps) (simp add: Let_def)
  have "json_parse (err_prefix @ body @ [CHR 0x22] @ ''}'') =
      Some (JObj [(''error'', CHR 0x22 # body @ [CHR 0x22], JStr m)])"
    using mem
    by (simp add: json_parse_def err_prefix_def json_value.simps [of 0 "_ # _"] max_nesting_def
        has_prefix_def)
  then show ?thesis
    by (simp add: unmarshal_def dec_one_string_def find_field_def fld_string_def)
qed

lemma result_or_error_text:
  assumes ok: "serde_ok ser" and utf: "valid_utf8 m"
  shows "result_or_error (Some (error_result ser m)) =
    (if m = [] then Inr (error_json ser []) else Inl (Errorf m))"
proof -
  from ok utf obtain body where "ser m = CHR 0x22 # body @ [CHR 0x22]"
      and "CHR 0x00 \<notin> set body" and "\<forall>r. json_string (body @ CHR 0x22 # r) = Some (m, r)"
    unfolding serde_ok_def by blast
  note body = this(1,2) and js = this(3)
  have err_eq: "error_json ser m = err_prefix @ body @ [CHR 0x22] @ ''}''"
    by (simp add: error_json_def err_prefix_def body(1))
  have nul: "CHR 0x00 \<notin> set (error_json ser m)"
    using body(2) by (simp add: err_eq err_prefix_def)
  have cs: "c_string (error_result ser m) = err_prefix @ body @ [CHR 0x22] @ ''}''"
    using nul by (simp add: error_result_def to_c_string_def c_string_id err_eq)
  have um: "unmarshal (dec_one_string ''error'') (err_prefix @ body @ [CHR 0x22] @ ''}'') = Some m"
    using js by (intro json_error_members) simp
  show ?thesis
    using cs um err_eq by (cases "m = []") (simp_all add: result_or_error_def Let_def)
qed

lemma result_or_error_plain:
  "CHR 0x00 \<notin> set s \<Longrightarrow> take (length err_prefix) s \<noteq> err_prefix \<Longrightarrow> result_or_error (Some s) = Inr s"
  by (simp add: result_or_error_def c_string_id Let_def)

lemma marshal_strings_no_nul: "CHR 0x00 \<notin> set (marshal_strings v)"
proof -
  have "CHR 0x00 \<notin> set (join (CHR '','') (map quote xs))" for xs
    by (induction xs rule: induct_list012) (auto simp: quote_def quote_body_no_nul)
  then show ?thesis
    by (auto simp: marshal_strings_def split: option.splits)
qed

lemma c_string_marshal [simp]: "c_string (marshal_strings v) = marshal_strings v"
  by (simp add: c_string_id marshal_strings_no_nul)

section \<open>Properties\<close>

text \<open>
  C23: every outcome of a Rust function crosses the boundary unchanged. A returned string comes
  back as the result, an error as a Go error with the same message and a panic as an error with
  the panic message, provided the string has no NUL byte and does not itself start like the
  error object, and the messages are not empty.
\<close>

theorem ffi_catch_round_trip:
  assumes "serde_ok ser" and "valid_utf8 pm" and "pm \<noteq> []"
    and "case out of
        R_Ok s \<Rightarrow> CHR 0x00 \<notin> set s \<and> take (length err_prefix) s \<noteq> err_prefix
      | R_Err e \<Rightarrow> valid_utf8 e \<and> e \<noteq> []
      | R_Panic \<Rightarrow> True"
  shows "result_or_error (Some (ffi_catch ser pm out)) =
    (case out of R_Ok s \<Rightarrow> Inr s | R_Err e \<Rightarrow> Inl (Errorf e) | R_Panic \<Rightarrow> Inl (Errorf pm))"
  using assms
  by (cases out)
     (simp_all add: ffi_catch_def to_c_string_def result_or_error_plain result_or_error_text)

theorem ffi_catch_round_trip_witness:
  "result_or_error (Some (ffi_catch quote ''panic during signing'' (R_Err ''bad key''))) =
     Inl (Errorf ''bad key'')"
proof -
  have v: "valid_utf8 ''panic during signing''" "valid_utf8 ''bad key''"
    by (simp_all add: valid_utf8_ascii ascii_def)
  show ?thesis
    using ffi_catch_round_trip [OF serde_ok_quote v(1), of "R_Err ''bad key''"] v(2) by simp
qed

text \<open>
  C36: two outcomes do not survive the boundary. An error with an empty message is read by Go as
  a success whose value is the error object itself, and a result string that contains a NUL byte
  arrives as the empty string, also as a success.
\<close>

theorem ffi_lost_outcomes:
  assumes "serde_ok ser" and "CHR 0x00 \<in> set s"
  shows "result_or_error (Some (ffi_catch ser pm (R_Err []))) = Inr (error_json ser []) \<and>
    result_or_error (Some (ffi_catch ser pm (R_Ok s))) = Inr []"
proof
  have "valid_utf8 []" by (simp add: valid_utf8.simps)
  then show "result_or_error (Some (ffi_catch ser pm (R_Err []))) = Inr (error_json ser [])"
    using assms(1) by (simp add: ffi_catch_def result_or_error_text)
  show "result_or_error (Some (ffi_catch ser pm (R_Ok s))) = Inr []"
    using assms(2)
    by (simp add: ffi_catch_def to_c_string_def result_or_error_def c_string_def err_prefix_def)
qed

theorem ffi_lost_outcomes_witness:
  "result_or_error (Some (ffi_catch quote ''panic'' (R_Ok [CHR ''a'', CHR 0x00, CHR ''b'']))) = Inr []"
  using ffi_lost_outcomes [OF serde_ok_quote, of "[CHR ''a'', CHR 0x00, CHR ''b'']"] by simp

text \<open>
  \<open>HashPoseidon2Multi\<close>, \<open>HashPoseidon4Multi\<close> and \<open>HashPoseidon8Multi\<close> make one call of
  their C function, whose argument reads back as exactly the given slice (with invalid UTF-8
  replaced), whatever bytes the inputs contain.
\<close>

theorem hash_multi_argument:
  "\<exists>j. hist (snd (HashPoseidon2Multi E inputs w)) = Ev_Ffi (C_hash Hash_psd2_multi j) # hist w \<and>
     hist (snd (HashPoseidon4Multi E inputs w)) = Ev_Ffi (C_hash Hash_psd4_multi j) # hist w \<and>
     hist (snd (HashPoseidon8Multi E inputs w)) = Ev_Ffi (C_hash Hash_psd8_multi j) # hist w \<and>
     unmarshal_strings j = Some (map_option (map to_valid_utf8) inputs)"
  by (intro exI [of _ "marshal_strings inputs"])
     (simp add: HashPoseidon2Multi_def HashPoseidon4Multi_def HashPoseidon8Multi_def
       hash_multi_def ffi_multi_defs bridge_sel unmarshal_marshal_strings)

text \<open>The C function that \<open>Hash\<close> documents for each algorithm name.\<close>

definition documented_hashes :: "(hash_algorithm \<times> hash_fn) list" where
  "documented_hashes =
     [(''bhp256'', Hash_bhp256), (''bhp512'', Hash_bhp512), (''bhp768'', Hash_bhp768),
      (''bhp1024'', Hash_bhp1024), (''pedersen64'', Hash_ped64), (''pedersen128'', Hash_ped128),
      (''poseidon2'', Hash_psd2), (''poseidon4'', Hash_psd4), (''poseidon8'', Hash_psd8)]"

text \<open>
  \<open>Hash\<close> makes exactly one call, of the C function of the named algorithm, and returns its
  result; on an unknown name it makes no call and returns an error that names the algorithm.
\<close>

theorem hash_dispatch:
  "hash E algo input w =
     (case map_of documented_hashes algo of
        Some h \<Rightarrow> (result_or_error (ffi E (hist w) (C_hash h (c_string input))),
                   log_event (Ev_Ffi (C_hash h (c_string input))) w)
      | None \<Rightarrow> (Inl (Errorf (''unknown hash algorithm: '' @ algo)), w))"
  by (simp add: hash_def documented_hashes_def algorithm_defs ffi_hash_defs bridge_eq)

text \<open>
  \<open>Verify\<close> answers true only for the code 1 and false only for the code 0 of the C
  function, and any other code is an error; \<open>VerifyExecution\<close> answers true only when the bridge
  returned the text true, and passes an error on.
\<close>

theorem verify_codes:
  "fst (verify E addr msg sig w) =
     (let r = ffi_verify E (hist w) (c_string addr) msg (c_string sig)
      in if r = 1 then Inr True else if r = 0 then Inr False
         else Inl (Errorf ''signature verification failed (internal error)'')) \<and>
   fst (verify_execution E j w) =
     (case result_or_error (ffi E (hist w) (C_verify_execution (c_string j))) of
        Inl e \<Rightarrow> Inl e | Inr s \<Rightarrow> Inr (s = ''true''))"
  by (simp add: verify_def ffi_verify_signature_def c_verify_def Let_def verify_execution_def
      ffi_verify_execution_def bridge_eq split: sum.split)

end
