(* ===== verification/Authorization_Builder.thy ===== *)
theory Authorization_Builder
  imports Import_Resolver Network_Client FFI_Bridge
begin

text \<open>
  Building an authorization (\<open>authorization.go\<close>): fetching program sources through the optional
  cache, resolving the transitive imports, and the call of snarkVM's \<open>Process::authorize\<close>. The
  \<open>sync.Map\<close> of a program manager is a map, \<open>None\<close> is the nil cache; it is threaded with the world.
  \<open>NetworkClient.GetProgramImports\<close> is here because it shares the resolution.
\<close>

section \<open>Fetching with a cache\<close>

type_synonym cache = "(string \<rightharpoonup> string) option"
type_synonym fetch_state = "cache \<times> world"

definition fetch_program_cached ::
  "env \<Rightarrow> network_client \<Rightarrow> ctx \<Rightarrow> string \<Rightarrow> fetch_state \<Rightarrow> string result \<times> fetch_state" where
  "fetch_program_cached E nc c pid st =
     (case st of (cache, w) \<Rightarrow>
        (case (case cache of None \<Rightarrow> None | Some m \<Rightarrow> m pid) of
           Some src \<Rightarrow> (Inr src, cache, w)
         | None \<Rightarrow>
             (case GetProgram E nc c pid w of
                (Inl e, w') \<Rightarrow> (Inl e, cache, w')
              | (Inr src, w') \<Rightarrow> (Inr src, map_option (\<lambda>m. m(pid \<mapsto> src)) cache, w'))))"

section \<open>Resolving imports\<close>

definition collect_imports ::
  "env \<Rightarrow> network_client \<Rightarrow> ctx \<Rightarrow> string \<Rightarrow> string set \<Rightarrow> string list \<Rightarrow> fetch_state \<Rightarrow>
    ((string set \<times> string list) result \<times> fetch_state) option" where
  "collect_imports E nc c source visited ordered st =
     collect (fetch_program_cached E nc c) (\<lambda>_ src ordered. ordered @ [src]) (source_lines source)
       visited ordered st"

definition collect_imports_map ::
  "env \<Rightarrow> network_client \<Rightarrow> ctx \<Rightarrow> string \<Rightarrow> string set \<Rightarrow> (string \<rightharpoonup> string) \<Rightarrow> fetch_state \<Rightarrow>
    ((string set \<times> (string \<rightharpoonup> string)) result \<times> fetch_state) option" where
  "collect_imports_map E nc c source visited imports st =
     collect (fetch_program_cached E nc c) (\<lambda>p src imports. imports(p \<mapsto> src)) (source_lines source)
       visited imports st"

definition resolve_imports_ordered ::
  "env \<Rightarrow> network_client \<Rightarrow> ctx \<Rightarrow> string \<Rightarrow> fetch_state \<Rightarrow> (string list result \<times> fetch_state) option" where
  "resolve_imports_ordered E nc c source st =
     (case collect_imports E nc c source {} [] st of
        None \<Rightarrow> None
      | Some (Inl e, st') \<Rightarrow> Some (Inl e, st')
      | Some (Inr (_, ordered), st') \<Rightarrow> Some (Inr ordered, st'))"

definition GetProgramImports ::
  "env \<Rightarrow> network_client \<Rightarrow> ctx \<Rightarrow> string \<Rightarrow> world \<Rightarrow> ((string \<rightharpoonup> string) result \<times> world) option" where
  "GetProgramImports E nc c source w =
     (case collect_imports_map E nc c source {} Map.empty (None, w) of
        None \<Rightarrow> None
      | Some (Inl e, st) \<Rightarrow> Some (Inl e, snd st)
      | Some (Inr (_, imports), st) \<Rightarrow> Some (Inr imports, snd st))"

section \<open>Building the authorization\<close>

record proving_request_options =
  po_program_name :: string
  po_function_name :: string
  po_inputs :: "string list option"
  po_broadcast :: bool
  po_dps_privacy :: bool
  po_private_key :: string
  po_prover_url :: string

definition authorize ::
  "env \<Rightarrow> proving_request_options \<Rightarrow> string \<Rightarrow> string list \<Rightarrow> authorization result io" where
  "authorize E opts source import_sources =
     then_io (ffi_authorize E (po_private_key opts) source (po_function_name opts)
         (marshal_strings (po_inputs opts)) (marshal_strings (Some import_sources)))
       (Wrapf (''authorize '' @ po_program_name opts @ ''/'' @ po_function_name opts))
       (\<lambda>auth_json. ret_io (Inr \<lparr>auth_raw = Some auth_json\<rparr>))"

definition BuildAuthorizationWithCache ::
  "env \<Rightarrow> network_client \<Rightarrow> ctx \<Rightarrow> proving_request_options \<Rightarrow> fetch_state \<Rightarrow>
    (authorization result \<times> fetch_state) option" where
  "BuildAuthorizationWithCache E nc c opts st =
     (if po_private_key opts = [] then Some (Inl ErrNoPrivateKey, st)
      else
        (case fetch_program_cached E nc c (po_program_name opts) st of
           (Inl e, st1) \<Rightarrow> Some (Inl (Wrapf (''fetch program '' @ po_program_name opts) e), st1)
         | (Inr source, st1) \<Rightarrow>
             (case resolve_imports_ordered E nc c source st1 of
                None \<Rightarrow> None
              | Some (Inl e, st2) \<Rightarrow> Some (Inl (Wrapf ''resolve imports'' e), st2)
              | Some (Inr import_sources, cache2, w2) \<Rightarrow>
                  (case authorize E opts source import_sources w2 of
                     (r, w3) \<Rightarrow> Some (r, cache2, w3)))))"

definition BuildAuthorization ::
  "env \<Rightarrow> network_client \<Rightarrow> ctx \<Rightarrow> proving_request_options \<Rightarrow> world \<Rightarrow>
    (authorization result \<times> world) option" where
  "BuildAuthorization E nc c opts w =
     (case BuildAuthorizationWithCache E nc c opts (None, w) of
        None \<Rightarrow> None
      | Some (r, _, w') \<Rightarrow> Some (r, w'))"

section \<open>The cached fetch keeps the contract of a program source\<close>

text \<open>
  A node is consistent with \<open>prog\<close> when every successful \<open>GetProgram\<close> returns the deployed source; a
  cache is, when it holds deployed sources only.
\<close>

definition node_serves :: "env \<Rightarrow> network_client \<Rightarrow> ctx \<Rightarrow> (string \<rightharpoonup> string) \<Rightarrow> bool" where
  "node_serves E nc c prog = (\<forall>w p s. fst (GetProgram E nc c p w) = Inr s \<longrightarrow> prog p = Some s)"

definition cache_ok :: "(string \<rightharpoonup> string) \<Rightarrow> cache \<Rightarrow> bool" where
  "cache_ok prog cache = (\<forall>m p s. cache = Some m \<longrightarrow> m p = Some s \<longrightarrow> prog p = Some s)"

lemma fetch_hit: "m p = Some src \<Longrightarrow> fetch_program_cached E nc c p (Some m, w) = (Inr src, Some m, w)"
  by (simp add: fetch_program_cached_def)

lemma fetch_cases:
  assumes "fetch_program_cached E nc c p (cache, w) = (r, cache', w')"
  obtains (hit) m src where "cache = Some m" and "m p = Some src" and "r = Inr src"
      and "cache' = cache" and "w' = w"
  | (failed) e where "GetProgram E nc c p w = (Inl e, w')" and "r = Inl e" and "cache' = cache"
  | (fetched) src where "GetProgram E nc c p w = (Inr src, w')" and "r = Inr src"
      and "cache' = map_option (\<lambda>m. m(p \<mapsto> src)) cache" and "\<forall>m. cache = Some m \<longrightarrow> m p = None"
  using assms
  by (cases "GetProgram E nc c p w")
    (auto simp: fetch_program_cached_def split: option.splits sum.splits)

interpretation cached: program_source "fetch_program_cached E nc c"
    "\<lambda>st. node_serves E nc c prog \<and> cache_ok prog (fst st)" prog for E nc c prog
proof (unfold_locales, goal_cases)
  case (1 st p r st')
  obtain cache w cache' w' where st: "st = (cache, w)" "st' = (cache', w')" by (cases st; cases st') auto
  from 1(2) [unfolded st] show ?case
  proof (cases rule: fetch_cases)
    case (fetched src)
    then have "prog p = Some src" using 1(1) unfolding node_serves_def by (metis fst_conv)
    with 1(1) fetched show ?thesis by (auto simp: cache_ok_def st split: if_splits)
  qed (use 1(1) st in simp_all)
next
  case (2 st p src st')
  obtain cache w cache' w' where st: "st = (cache, w)" "st' = (cache', w')" by (cases st; cases st') auto
  from 2(2) [unfolded st] show ?case
  proof (cases rule: fetch_cases)
    case (fetched src')
    with 2(1) show ?thesis unfolding node_serves_def by (metis fst_conv)
  next
    case (hit m src')
    with 2(1) st show ?thesis by (simp add: cache_ok_def)
  qed simp
qed

text \<open>Whatever the node answers, a fetch never drops or replaces what the cache holds.\<close>

interpretation growing: stateful_fetch "fetch_program_cached E nc c"
    "\<lambda>st. \<exists>m. fst st = Some m \<and> m0 \<subseteq>\<^sub>m m" for E nc c m0
proof (unfold_locales, goal_cases)
  case (1 st p r st')
  obtain cache w cache' w' where st: "st = (cache, w)" "st' = (cache', w')" by (cases st; cases st') auto
  from 1(2) [unfolded st] show ?case
  proof (cases rule: fetch_cases)
    case (fetched src)
    then obtain m where m: "cache = Some m" "m p = None" "m0 \<subseteq>\<^sub>m m" using 1(1) st by auto
    then have "m0 p = None" by (metis domIff map_le_implies_dom_le subsetD)
    with m fetched st show ?thesis by (auto simp: map_le_def)
  qed (use 1(1) st in simp_all)
qed

text \<open>Without a cache it stays so.\<close>

interpretation uncached: stateful_fetch "fetch_program_cached E nc c" "\<lambda>st. fst st = None" for E nc c
  by unfold_locales (auto simp: fetch_program_cached_def split: prod.splits sum.splits)

lemma fetch_uncached:
  "fst st = None \<Longrightarrow> fetch_program_cached E nc c p st = (Inr src, st') \<Longrightarrow>
     GetProgram E nc c p (snd st) = (Inr src, snd st')"
  by (auto simp: fetch_program_cached_def split: prod.splits sum.splits)

lemma resolve_search:
  assumes "resolve_imports_ordered E nc c source st = Some (Inr srcs, st')"
  obtains v where "collect_imports E nc c source {} [] st = Some (Inr (v, srcs), st')"
  using assms by (auto simp: resolve_imports_ordered_def split: option.splits sum.splits)

text \<open>The three steps of an authorization keep every invariant that the fetch keeps.\<close>

lemma authorization_keeps:
  assumes "stateful_fetch (fetch_program_cached E nc c) ok" and "\<And>cache w w'. ok (cache, w) \<Longrightarrow> ok (cache, w')"
    and "BuildAuthorizationWithCache E nc c opts st = Some (r, st')" and "ok st"
  shows "ok st'"
proof (cases "po_private_key opts = []")
  case True
  with assms(3,4) show ?thesis by (auto simp: BuildAuthorizationWithCache_def)
next
  case False
  obtain x st1 where f: "fetch_program_cached E nc c (po_program_name opts) st = (x, st1)"
    by (cases "fetch_program_cached E nc c (po_program_name opts) st")
  then have ok1: "ok st1" by (rule stateful_fetch.fetch_inv [OF assms(1,4)])
  show ?thesis
  proof (cases x)
    case (Inl e)
    with False f ok1 assms(3) show ?thesis by (simp add: BuildAuthorizationWithCache_def)
  next
    case (Inr source)
    have rest: "BuildAuthorizationWithCache E nc c opts st =
      (case resolve_imports_ordered E nc c source st1 of
         None \<Rightarrow> None
       | Some (Inl e, st2) \<Rightarrow> Some (Inl (Wrapf ''resolve imports'' e), st2)
       | Some (Inr srcs, cache2, w2) \<Rightarrow>
           (case authorize E opts source srcs w2 of (r, w3) \<Rightarrow> Some (r, cache2, w3)))"
      using False f Inr by (simp add: BuildAuthorizationWithCache_def)
    obtain y cache2 w2 where r: "resolve_imports_ordered E nc c source st1 = Some (y, cache2, w2)"
      using assms(3) unfolding rest by (cases "resolve_imports_ordered E nc c source st1") auto
    then obtain z where "collect_imports E nc c source {} [] st1 = Some (z, cache2, w2)"
      by (auto simp: resolve_imports_ordered_def split: option.splits sum.splits prod.splits)
    then have "ok (cache2, w2)"
      using stateful_fetch.collect_keeps_inv [OF assms(1) _ ok1] by (simp add: collect_imports_def)
    moreover have "\<exists>w3. st' = (cache2, w3) \<and> (w3 = w2 \<or> (\<exists>srcs. y = Inr srcs))"
      using assms(3) r unfolding rest by (cases y) (auto split: prod.splits)
    ultimately show ?thesis using assms(2) by blast
  qed
qed

section \<open>Properties\<close>

lemma resolve_trace:
  assumes "resolve_imports_ordered E nc c source st = Some (Inr srcs, st')"
  obtains v tr where
    "search (fetch_program_cached E nc c) trace (source_lines source) {} [] st (Inr (v, tr)) st'"
    and "srcs = map snd tr"
proof -
  obtain v where "collect_imports E nc c source {} [] st = Some (Inr (v, srcs), st')"
    using assms by (rule resolve_search)
  then have "collect (fetch_program_cached E nc c) (\<lambda>_ src ordered. ordered @ [src])
      (source_lines source) {} (map snd []) st = Some (Inr (v, srcs), st')"
    by (simp add: collect_imports_def)
  then show thesis
    by (rule collect_trace) (auto simp: trace_def intro: that)
qed

lemma resolved_order:
  assumes "node_serves E nc c prog" and "cache_ok prog cache" and "acyclic (dep prog)"
    and "resolve_imports_ordered E nc c source (cache, w) = Some (Inr srcs, cache', w')"
  shows "\<exists>ids. distinct ids \<and> map prog ids = map Some srcs \<and>
    set ids = (dep prog)\<^sup>* `` imports_of source \<and>
    (\<forall>i < length ids. imports_of (srcs ! i) \<subseteq> set (take i ids))"
proof -
  obtain v tr where
    run: "search (fetch_program_cached E nc c) trace (source_lines source) {} [] (cache, w)
      (Inr (v, tr)) (cache', w')" and srcs: "srcs = map snd tr"
    using assms(4) by (rule resolve_trace)
  from cached.search_order [OF run _ assms(3)] assms(1,2) show ?thesis
    unfolding srcs by (intro exI [of _ "map fst tr"]) simp
qed

text \<open>C5: The resolved imports are complete, duplicate-free and in dependency order. For a node and a
  cache that serve the deployed programs \<open>prog\<close>, whose imports are acyclic, the resolver returns
  the sources of exactly the programs reachable from the source's imports (the built-in
  \<open>credits.aleo\<close> aside), each once, and each after everything it imports itself.\<close>

theorem imports_resolved_in_order:
  assumes "node_serves E nc c prog" and "cache_ok prog cache" and "acyclic (dep prog)"
    and "resolve_imports_ordered E nc c source (cache, w) = Some (Inr srcs, cache', w')"
  shows "\<exists>ids. distinct ids \<and> map prog ids = map Some srcs \<and>
    set ids = (dep prog)\<^sup>* `` imports_of source \<and>
    (\<forall>i < length ids. imports_of (srcs ! i) \<subseteq> set (take i ids))"
  by (rule resolved_order [OF assms])

text \<open>C24: Resolution returns, for every source and cache, when only finitely many programs are deployed,
  even if their imports are cyclic.\<close>

theorem imports_resolution_returns:
  assumes "node_serves E nc c prog" and "cache_ok prog cache" and "finite (dom prog)"
  shows "\<exists>r st'. resolve_imports_ordered E nc c source (cache, w) = Some (r, st')"
proof -
  have "node_serves E nc c prog \<and> cache_ok prog (fst (cache, w))" using assms(1,2) by simp
  from cached.collect_returns [OF assms(3) this, of "\<lambda>_ src ordered. ordered @ [src]"
      "source_lines source" "{}" "[]"]
  obtain r st' where "collect_imports E nc c source {} [] (cache, w) = Some (r, st')"
    unfolding collect_imports_def by (elim exE conjE)
  then show ?thesis
    by (cases r) (auto simp: resolve_imports_ordered_def split: prod.split)
qed

section \<open>A node with two programs\<close>

definition a_source :: string where "a_source = ''import b.aleo;''"
definition b_source :: string where "b_source = ''program b.aleo;''"

definition two_programs :: "string \<rightharpoonup> string" where
  "two_programs p =
     (if p = ''a.aleo'' then Some a_source else if p = ''b.aleo'' then Some b_source else None)"

definition program_reply :: "string \<Rightarrow> http_response" where
  "program_reply p =
     (case two_programs p of
        Some s \<Rightarrow> \<lparr>rs_status = 200, rs_headers = [], rs_body = quote s\<rparr>
      | None \<Rightarrow> \<lparr>rs_status = 404, rs_headers = [], rs_body = ''''\<rparr>)"

text \<open>The node finds the program's name after its base path.\<close>

definition import_env :: env where
  "import_env = quiet_env\<lparr>respond := (\<lambda>_ rq. Reply
     (program_reply (drop (length (api_url sample_client ''/program/'')) (rq_url rq)))),
     ffi := (\<lambda>_ _. Some ''{}'')\<rparr>"

lemma api_url_append: "api_url nc (p @ q) = api_url nc p @ q"
  by (simp add: api_url_def)

lemma import_env_program:
  "\<exists>w'. GetProgram import_env sample_client c p w =
    (case two_programs p of
       Some s \<Rightarrow> Inr s
     | None \<Rightarrow> Inl (Wrapf (''get program '' @ p) (http_error (program_reply p))), w')"
proof -
  have r: "respond import_env (hist w) (get_request sample_client (api_url sample_client (''/program/'' @ p))) =
      Reply (program_reply p)"
    unfolding api_url_append by (simp add: import_env_def get_request_def)
  have nr: "\<not> retryable (rs_status (program_reply p))"
    by (auto simp: program_reply_def retryable_def split: option.split)
  have dec: "decode_or_raw (Some (quote s)) = Inr s" if "two_programs p = Some s" for s
  proof -
    have "list_all ascii a_source" "list_all ascii b_source" by code_simp+
    with that have "to_valid_utf8 s = s"
      by (auto simp: two_programs_def intro!: to_valid_utf8_id valid_utf8_ascii split: if_splits)
    then show ?thesis by (simp add: decode_or_raw_def raw_string_def unmarshal_quote)
  qed
  have "nc_get import_env sample_client c (api_url sample_client (''/program/'' @ p)) w =
      (if rs_status (program_reply p) = 200 then Inr (Some (rs_body (program_reply p)))
       else Inl (http_error (program_reply p)),
       snd (http_do import_env (get_request sample_client (api_url sample_client (''/program/'' @ p))) w))"
    using nr r by (intro get_definitive) (simp_all add: import_env_def sample_defs)
  then show ?thesis
    using dec by (auto simp: GetProgram_def query_def then_io_def program_reply_def split: option.split)
qed

lemma two_programs_served: "node_serves import_env sample_client c two_programs"
  unfolding node_serves_def
proof (intro allI impI)
  fix w p s
  assume "fst (GetProgram import_env sample_client c p w) = Inr s"
  with import_env_program [of c p w] show "two_programs p = Some s" by (auto split: option.splits)
qed

lemma two_programs_dom: "dom two_programs = {''a.aleo'', ''b.aleo''}"
  by (auto simp: two_programs_def split: if_splits)

lemma program_imports:
  "source_lines a_source = [a_source]" "source_lines b_source = [b_source]"
  "import_of a_source = Some ''b.aleo''" "import_of b_source = None"
  "import_of ''import a.aleo;'' = Some ''a.aleo''" "source_lines ''import a.aleo;'' = [''import a.aleo;'']"
  "credits_aleo \<noteq> ''a.aleo''" "credits_aleo \<noteq> ''b.aleo''"
  by code_simp+

lemma two_programs_acyclic: "acyclic (dep two_programs)"
proof -
  have "dep two_programs \<subseteq> {(''a.aleo'', ''b.aleo'')}"
    using program_imports
    by (auto simp: dep_def two_programs_def imports_of_def split: if_splits option.splits)
  moreover have "acyclic {(''a.aleo'', ''b.aleo'')}"
    by (simp add: acyclic_insert) (simp add: acyclic_def)
  ultimately show ?thesis by (rule acyclic_subset [rotated])
qed

lemma two_programs_resolved:
  "\<exists>st. resolve_imports_ordered import_env sample_client background ''import a.aleo;'' (None, w) =
     Some (Inr [b_source, a_source], st)"
proof -
  obtain w1 where a: "GetProgram import_env sample_client background ''a.aleo'' w = (Inr a_source, w1)"
    using import_env_program [of background "''a.aleo''" w] by (auto simp: two_programs_def)
  obtain w2 where b: "GetProgram import_env sample_client background ''b.aleo'' w1 = (Inr b_source, w2)"
    using import_env_program [of background "''b.aleo''" w1] by (auto simp: two_programs_def)
  have fa: "fetch_program_cached import_env sample_client background ''a.aleo'' (None, w) =
      (Inr a_source, None, w1)"
    and fb: "fetch_program_cached import_env sample_client background ''b.aleo'' (None, w1) =
      (Inr b_source, None, w2)"
    using a b by (simp_all add: fetch_program_cached_def)
  show ?thesis
    using program_imports fa fb
    by (simp add: resolve_imports_ordered_def collect_imports_def collect_import collect_skip
        del: not_None_eq)
qed

theorem imports_resolved_in_order_witness:
  "\<exists>ids. distinct ids \<and> map two_programs ids = map Some [b_source, a_source] \<and>
    set ids = (dep two_programs)\<^sup>* `` imports_of ''import a.aleo;''"
proof -
  obtain cache' w' where
    "resolve_imports_ordered import_env sample_client background ''import a.aleo;'' (None, start_world) =
      Some (Inr [b_source, a_source], cache', w')"
    using two_programs_resolved [of start_world] by auto
  from imports_resolved_in_order [OF two_programs_served _ two_programs_acyclic this]
  show ?thesis by (auto simp: cache_ok_def)
qed

theorem imports_resolution_returns_witness:
  "\<exists>r st'. resolve_imports_ordered import_env sample_client background ''import a.aleo;''
     (None, start_world) = Some (r, st')"
  by (rule imports_resolution_returns [OF two_programs_served])
    (simp_all add: cache_ok_def two_programs_dom)

section \<open>Further properties\<close>

text \<open>The trace of a resolution without a cache: its sources under the programs' names.\<close>

lemma uncached_trace:
  assumes "search (fetch_program_cached E nc c) trace (source_lines source) {} [] (None, w) (Inr (v, tr)) st'"
  shows "import_trace (source_lines source) {} tr"
    and "i < length tr \<Longrightarrow> \<exists>u u'. GetProgram E nc c (map fst tr ! i) u = (Inr (map snd tr ! i), u')"
proof -
  from uncached.search_trace [OF assms refl] obtain new where new: "tr = [] @ new"
    "import_trace (source_lines source) {} new"
    "\<forall>x \<in> set new. \<exists>u u'. fst u = None \<and>
       fetch_program_cached E nc c (fst x) u = (Inr (snd x), u')" by auto
  from new(1,2) show "import_trace (source_lines source) {} tr" by simp
  show "\<exists>u u'. GetProgram E nc c (map fst tr ! i) u = (Inr (map snd tr ! i), u')" if "i < length tr"
  proof -
    from nth_mem [OF that] new(1,3) obtain u u' where "fst u = None"
      "fetch_program_cached E nc c (fst (tr ! i)) u = (Inr (snd (tr ! i)), u')"
      unfolding append_Nil by blast
    then have "GetProgram E nc c (fst (tr ! i)) (snd u) = (Inr (snd (tr ! i)), snd u')"
      by (rule fetch_uncached)
    with that show ?thesis by auto
  qed
qed

text \<open>C25: The two resolvers agree. When \<open>resolveImportsOrdered\<close> succeeds without a cache,
  \<open>GetProgramImports\<close> on the same source succeeds too, after the same events, and its map is that of
  the resolved sources under distinct program names: each source is the one that \<open>GetProgram\<close> returned
  for its name, and the names are exactly the programs that the source imports, directly or through
  the sources in the map (the built-in \<open>credits.aleo\<close> aside).\<close>

theorem import_map_agrees:
  assumes "resolve_imports_ordered E nc c source (None, w) = Some (Inr srcs, cache', w')"
  shows "\<exists>ids. distinct ids \<and> length ids = length srcs \<and>
    set ids = (dep (map_of (zip ids srcs)))\<^sup>* `` imports_of source \<and>
    (\<forall>i < length ids. \<exists>v v'. GetProgram E nc c (ids ! i) v = (Inr (srcs ! i), v')) \<and>
    GetProgramImports E nc c source w = Some (Inr (map_of (zip ids srcs)), w')"
proof -
  obtain v tr where
    run: "search (fetch_program_cached E nc c) trace (source_lines source) {} [] (None, w)
      (Inr (v, tr)) (cache', w')" and srcs: "srcs = map snd tr"
    using assms by (rule resolve_trace)
  note names = uncached_trace [OF run]
  have dist: "distinct (map fst tr)" by (rule import_traceD(1) [OF names(1)])
  have zip: "zip (map fst tr) srcs = tr" by (simp add: srcs zip_map_fst_snd)
  have "collect (fetch_program_cached E nc c) (\<lambda>p src imports. imports(p \<mapsto> src)) (source_lines source)
      {} (map_of (rev [])) (None, w) =
    Some (map_sum id (map_prod id (\<lambda>tr. map_of (rev tr))) (Inr (v, tr)), cache', w')"
    using search_image [OF run, of "\<lambda>tr. map_of (rev tr)" "\<lambda>p src imports. imports(p \<mapsto> src)"]
    by (simp add: trace_def)
  moreover have "map_of (rev tr) = map_of tr"
    using dist by (intro map_of_inject_set [THEN iffD2]) (simp_all add: rev_map [symmetric])
  ultimately have "GetProgramImports E nc c source w = Some (Inr (map_of (zip (map fst tr) srcs)), w')"
    by (simp add: GetProgramImports_def collect_imports_map_def zip)
  moreover have "set (map fst tr) = (dep (map_of (zip (map fst tr) srcs)))\<^sup>* `` imports_of source"
    using import_trace_deps [OF names(1)] by (simp add: zip imports_of_def)
  ultimately show ?thesis
    using dist names(2) srcs by (intro exI [of _ "map fst tr"]) simp
qed

theorem import_map_agrees_witness:
  "\<exists>ids w'. distinct ids \<and> length ids = length [b_source, a_source] \<and>
     set ids = (dep (map_of (zip ids [b_source, a_source])))\<^sup>* `` imports_of ''import a.aleo;'' \<and>
     GetProgramImports import_env sample_client background ''import a.aleo;'' start_world =
       Some (Inr (map_of (zip ids [b_source, a_source])), w')"
proof -
  obtain cache' w' where
    "resolve_imports_ordered import_env sample_client background ''import a.aleo;'' (None, start_world) =
      Some (Inr [b_source, a_source], cache', w')"
    using two_programs_resolved [of start_world] by auto
  from import_map_agrees [OF this] show ?thesis by blast
qed

text \<open>A cached program is fetched once: after a successful fetch through a cache, every further fetch
  of the program, with whatever node and context, returns the same source without touching the world,
  and what the cache held before is still there.\<close>

theorem cached_program_fetched_once:
  assumes "fetch_program_cached E nc c p (Some m, w) = (Inr src, Some m', w')"
  shows "fetch_program_cached E2 nc2 c2 p (Some m', v) = (Inr src, Some m', v) \<and>
    (\<forall>q. q \<noteq> p \<longrightarrow> m' q = m q) \<and> (\<forall>q s. m q = Some s \<longrightarrow> m' q = Some s)"
  using assms
proof (cases rule: fetch_cases)
  case (fetched src')
  then show ?thesis by (auto simp: fetch_hit)
qed (auto simp: fetch_hit)

theorem cached_program_fetched_once_witness:
  "\<exists>m' w'. fetch_program_cached import_env sample_client background ''a.aleo''
      (Some Map.empty, start_world) = (Inr a_source, Some m', w') \<and>
    fetch_program_cached quiet_env sample_client background ''a.aleo'' (Some m', w') =
      (Inr a_source, Some m', w')"
proof -
  obtain w' where "GetProgram import_env sample_client background ''a.aleo'' start_world = (Inr a_source, w')"
    using import_env_program [of background "''a.aleo''" start_world] by (auto simp: two_programs_def)
  then have "fetch_program_cached import_env sample_client background ''a.aleo''
      (Some Map.empty, start_world) = (Inr a_source, Some [''a.aleo'' \<mapsto> a_source], w')"
    by (simp add: fetch_program_cached_def)
  with cached_program_fetched_once [OF this, of quiet_env sample_client background w'] show ?thesis by blast
qed

lemma authorization_event:
  assumes "node_serves E nc c prog" and "cache_ok prog cache"
    and "BuildAuthorizationWithCache E nc c opts (cache, w) = Some (Inr a, cache', w')"
  shows "\<exists>source srcs st h. prog (po_program_name opts) = Some source \<and> po_private_key opts \<noteq> [] \<and>
    cache_ok prog (fst st) \<and> resolve_imports_ordered E nc c source st = Some (Inr srcs, cache', \<lparr>clock = clock w', hist = h\<rparr>) \<and>
    hist w' = Ev_Ffi (C_authorize (c_string (po_private_key opts)) (c_string source)
      (c_string (po_function_name opts)) (marshal_strings (po_inputs opts))
      (marshal_strings (Some srcs))) # h"
proof -
  have key: "po_private_key opts \<noteq> []"
    using assms(3) by (auto simp: BuildAuthorizationWithCache_def)
  obtain f st1 where f: "fetch_program_cached E nc c (po_program_name opts) (cache, w) = (f, st1)"
    by (cases "fetch_program_cached E nc c (po_program_name opts) (cache, w)")
  with assms(3) key obtain source where src: "f = Inr source"
    by (cases f) (auto simp: BuildAuthorizationWithCache_def)
  have prog: "prog (po_program_name opts) = Some source"
    using cached.fetch_sound [of E nc c prog "(cache, w)"] f src assms(1,2) by auto
  have ok: "cache_ok prog (fst st1)"
    using cached.fetch_inv [of E nc c prog "(cache, w)", OF _ f] assms(1,2) by simp
  obtain srcs cache2 w2 where
    res: "resolve_imports_ordered E nc c source st1 = Some (Inr srcs, cache2, w2)"
    and auth: "authorize E opts source srcs w2 = (Inr a, w')" and "cache' = cache2"
    using assms(3) key f src
    by (auto simp: BuildAuthorizationWithCache_def split: option.splits sum.splits prod.splits)
  have "w' = log_event (Ev_Ffi (C_authorize (c_string (po_private_key opts)) (c_string source)
      (c_string (po_function_name opts)) (marshal_strings (po_inputs opts))
      (marshal_strings (Some srcs)))) w2"
    using auth by (auto simp: authorize_def then_io_def ffi_authorize_def bridge_eq split: sum.splits)
  then show ?thesis
    using prog key ok res \<open>cache' = cache2\<close>
    by (intro exI [of _ source] exI [of _ srcs] exI [of _ st1] exI [of _ "hist w2"]) simp
qed

definition sample_opts :: proving_request_options where
  "sample_opts = \<lparr>po_program_name = ''b.aleo'', po_function_name = ''main'', po_inputs = None,
     po_broadcast = True, po_dps_privacy = False, po_private_key = ''APrivateKey1'', po_prover_url = []\<rparr>"

lemma import_fields:
  "Go_Strings.fields (''import '' @ t) = ''import'' # Go_Strings.fields t"
proof -
  have plain: "space_len (c # s) = 0" if "c \<in> set ''import''" for c s
    using that by (intro space_len_plain) (auto simp: ascii_space_def)
  have blank: "space_len (CHR '' '' # s) = 1" for s
    by (cases "CHR '' '' # s" rule: space_len.cases) (auto simp: ascii_space_def)
  have next_char: "fields_from acc (c # s) = fields_from (c # acc) s" if "c \<in> set ''import''" for acc c s
    using plain [OF that] by (subst fields_from.simps(2)) simp
  have next_field: "fields_from acc (CHR '' '' # s) = (if acc = [] then [] else [rev acc]) @ fields_from [] s"
    for acc s
    using blank [of s] by (subst fields_from.simps(2)) simp
  show ?thesis
    by (simp add: Go_Strings.fields_def next_char next_field)
qed

text \<open>No import line is dropped: a line is skipped only when it does not start, after trimming, with
  "import " - the later test for fewer than two fields never applies.\<close>

theorem import_line_never_dropped:
  "import_of line = None \<longleftrightarrow> \<not> has_prefix (trim_space line) ''import ''"
proof -
  have "\<not> length (Go_Strings.fields (trim_space line)) < 2" if pre: "has_prefix (trim_space line) ''import ''"
  proof
    obtain t where t: "trim_space line = ''import '' @ t" using pre by (rule has_prefixE)
    assume "length (Go_Strings.fields (trim_space line)) < 2"
    then have "Go_Strings.fields t = []" unfolding t import_fields by simp
    then have sp: "all_space t" using fields_from_empty by (simp add: Go_Strings.fields_def)
    have "space_len_rev (rev (trim_space line)) \<noteq> 0"
    proof (cases "t = []")
      case True
      then show ?thesis unfolding t by (simp add: ascii_space_def)
    next
      case False
      with all_space_end [OF sp] have "space_len_rev (rev t) \<noteq> 0" by blast
      then show ?thesis unfolding t by (simp only: rev_append space_len_rev_append not_False_eq_True)
    qed
    then show False using trim_space_end [of line] by simp
  qed
  then show ?thesis by (auto simp: import_of_def Let_def)
qed

end
