(* ===== verification/Account.thy ===== *)
theory Account
  imports FFI_Bridge
begin

text \<open>
  Accounts (\<open>account.go\<close>, and \<open>ExecuteOffline\<close> of \<open>program.go\<close>). The key material of an account
  lives in byte slices that \<open>Zeroize\<close> overwrites in place, so slices are references into a memory
  of backing arrays: \<open>mem ! a\<close> is the array at address \<open>a\<close>, a nil slice is \<open>None\<close>. Every byte slice
  that the functions of \<open>account.go\<close> create has its array there, the temporary ones included, and so
  has the string \<open>string(plaintext)\<close>, because it is a copy of a private key; other strings are values.
  What a library function allocates for itself (the key schedule of AES, the buffer of a failed
  decoding) is not modelled. Key derivation (Argon2id) and the sealed encryption (AES-GCM) are
  parameters of the model.
\<close>

section \<open>Memory\<close>

type_synonym mem = "bytes list"

record state =
  st_mem :: mem
  st_world :: world

definition alloc :: "bytes \<Rightarrow> state \<Rightarrow> nat \<times> state" where
  "alloc b s = (length (st_mem s), s\<lparr>st_mem := st_mem s @ [b]\<rparr>)"

definition slice_get :: "mem \<Rightarrow> nat option \<Rightarrow> bytes" where
  "slice_get m r = (case r of None \<Rightarrow> [] | Some a \<Rightarrow> m ! a)"

text \<open>The array at \<open>a\<close> is filled with \<open>b\<close>, as \<open>rand.Read\<close> fills its buffer.\<close>

definition write_at :: "nat \<Rightarrow> bytes \<Rightarrow> state \<Rightarrow> state" where
  "write_at a b s = s\<lparr>st_mem := (st_mem s)[a := b]\<rparr>"

text \<open>\<open>for i := range b { b[i] = 0 }\<close>.\<close>

definition zero_at :: "nat option \<Rightarrow> mem \<Rightarrow> mem" where
  "zero_at r m = (case r of None \<Rightarrow> m | Some a \<Rightarrow> m[a := zero_bytes (m ! a)])"

lemma zero_at_length [simp]: "length (zero_at r m) = length m"
  by (simp add: zero_at_def split: option.split)

lemma zero_at_nth:
  "b < length m \<Longrightarrow> zero_at r m ! b = (if r = Some b then zero_bytes (m ! b) else m ! b)"
  by (auto simp: zero_at_def split: option.split)

definition in_world :: "'a io \<Rightarrow> state \<Rightarrow> 'a \<times> state" where
  "in_world f s = (let (x, w) = f (st_world s) in (x, s\<lparr>st_world := w\<rparr>))"

section \<open>Accounts\<close>

record account =
  private_key :: "nat option"
  view_key :: "nat option"
  compute_key :: "nat option"
  graph_key :: "nat option"
  address :: string

record derived_keys =
  dk_view_key :: string
  dk_address :: string
  dk_compute_key :: raw_message
  dk_graph_key :: string

definition zero_keys :: derived_keys where
  "zero_keys = \<lparr>dk_view_key = [], dk_address = [], dk_compute_key = None, dk_graph_key = []\<rparr>"

definition dec_keys :: "json \<Rightarrow> derived_keys option" where
  "dec_keys j = dec_struct
     [(''view_key'', fld_string dk_view_key (\<lambda>s r. r\<lparr>dk_view_key := s\<rparr>)),
      (''address'', fld_string dk_address (\<lambda>s r. r\<lparr>dk_address := s\<rparr>)),
      (''compute_key'', fld_raw (\<lambda>m r. r\<lparr>dk_compute_key := m\<rparr>)),
      (''graph_key'', fld_string dk_graph_key (\<lambda>s r. r\<lparr>dk_graph_key := s\<rparr>))] j zero_keys"

definition alloc_raw :: "raw_message \<Rightarrow> state \<Rightarrow> nat option \<times> state" where
  "alloc_raw m s = (case m of None \<Rightarrow> (None, s) | Some b \<Rightarrow> (let (a, s') = alloc b s in (Some a, s')))"

definition account_from_sk :: "env \<Rightarrow> string \<Rightarrow> state \<Rightarrow> account result \<times> state" where
  "account_from_sk E sk s =
     (case in_world (ffi_derive_all_keys E sk) s of
        (Inl e, s1) \<Rightarrow> (Inl (Wrapf ''derive keys'' e), s1)
      | (Inr keys_json, s1) \<Rightarrow>
          (let (_, s2) = alloc keys_json s1
           in case unmarshal dec_keys keys_json of
                None \<Rightarrow> (Inl (Wrapf ''parse derived keys'' (LibErr ''json'')), s2)
              | Some keys \<Rightarrow>
                  (let (ck, s3) = alloc_raw (dk_compute_key keys) s2;
                       (pk, s4) = alloc sk s3;
                       (vk, s5) = alloc (dk_view_key keys) s4;
                       (gk, s6) = alloc (dk_graph_key keys) s5
                   in (Inr \<lparr>private_key = Some pk, view_key = Some vk, compute_key = ck,
                         graph_key = Some gk, address = dk_address keys\<rparr>, s6))))"

definition new_account :: "env \<Rightarrow> state \<Rightarrow> account result \<times> state" where
  "new_account E s =
     (case in_world (ffi_private_key_new E) s of
        (Inl e, s1) \<Rightarrow> (Inl (Wrapf ''generate private key'' e), s1)
      | (Inr sk, s1) \<Rightarrow> account_from_sk E sk s1)"

definition account_from_private_key :: "env \<Rightarrow> string \<Rightarrow> state \<Rightarrow> account result \<times> state" where
  "account_from_private_key E sk s =
     (if sk = [] then (Inl ErrNoPrivateKey, s) else account_from_sk E sk s)"

definition PrivateKey :: "mem \<Rightarrow> account \<Rightarrow> string" where
  "PrivateKey m a = slice_get m (private_key a)"

definition ViewKey :: "mem \<Rightarrow> account \<Rightarrow> string" where
  "ViewKey m a = slice_get m (view_key a)"

definition ComputeKey :: "mem \<Rightarrow> account \<Rightarrow> string" where
  "ComputeKey m a = slice_get m (compute_key a)"

definition GraphKey :: "mem \<Rightarrow> account \<Rightarrow> string" where
  "GraphKey m a = slice_get m (graph_key a)"

definition Address :: "account \<Rightarrow> string" where
  "Address a = address a"

definition sign :: "env \<Rightarrow> account \<Rightarrow> bytes \<Rightarrow> state \<Rightarrow> string result \<times> state" where
  "sign E a msg s = in_world (ffi_sign_message E (PrivateKey (st_mem s) a) msg) s"

definition zeroize :: "account \<Rightarrow> state \<Rightarrow> account \<times> state" where
  "zeroize a s =
     (let m1 = zero_at (private_key a) (st_mem s);
          m2 = zero_at (view_key a) m1;
          m3 = zero_at (compute_key a) m2;
          m4 = zero_at (graph_key a) m3
      in (\<lparr>private_key = None, view_key = None, compute_key = None, graph_key = None,
           address = []\<rparr>, s\<lparr>st_mem := m4\<rparr>))"

section \<open>Encrypted private keys\<close>

text \<open>The primitives of \<open>golang.org/x/crypto/argon2\<close> and of AES in Galois/Counter mode.\<close>

record crypto =
  argon2_id_key :: "bytes \<Rightarrow> bytes \<Rightarrow> nat \<Rightarrow> nat \<Rightarrow> nat \<Rightarrow> nat \<Rightarrow> bytes"
  gcm_seal :: "bytes \<Rightarrow> bytes \<Rightarrow> bytes \<Rightarrow> bytes"
  gcm_open :: "bytes \<Rightarrow> bytes \<Rightarrow> bytes \<Rightarrow> bytes option"

definition argon2_time :: nat where "argon2_time = 3"
definition argon2_memory :: nat where "argon2_memory = 64 * 1024"
definition argon2_threads :: nat where "argon2_threads = 4"
definition argon2_key_len :: nat where "argon2_key_len = 32"
definition argon2_salt_len :: nat where "argon2_salt_len = 16"

lemmas argon2_consts = argon2_time_def argon2_memory_def argon2_threads_def argon2_key_len_def
  argon2_salt_len_def

definition gcm_nonce_size :: nat where "gcm_nonce_size = 12"

text \<open>\<open>aes.NewCipher\<close> accepts keys of 16, 24 and 32 bytes.\<close>

definition aes_key_ok :: "bytes \<Rightarrow> bool" where
  "aes_key_ok k = (length k \<in> {16, 24, 32})"

definition derive_key :: "crypto \<Rightarrow> string \<Rightarrow> bytes \<Rightarrow> bytes" where
  "derive_key C password salt =
     argon2_id_key C password salt argon2_time argon2_memory argon2_threads argon2_key_len"

text \<open>\<open>defer zeroBytes(b)\<close>: the array at \<open>a\<close> is overwritten when the function returns.\<close>

definition zero_bytes_at :: "nat \<Rightarrow> 'a \<times> state \<Rightarrow> 'a \<times> state" where
  "zero_bytes_at a r = (fst r, (snd r)\<lparr>st_mem := zero_at (Some a) (st_mem (snd r))\<rparr>)"

text \<open>
  The arrays are, in this order, the salt, the copy of the password, the derived key, the nonce, the
  ciphertext and the concatenated result. Only the derived key is overwritten.
\<close>

definition encrypt_private_key ::
  "env \<Rightarrow> crypto \<Rightarrow> account \<Rightarrow> string \<Rightarrow> state \<Rightarrow> string result \<times> state" where
  "encrypt_private_key E C acct password s =
     (case private_key acct of
        None \<Rightarrow> (Inl ErrNoPrivateKey, s)
      | Some ref \<Rightarrow>
          (let (sa, s0) = alloc (replicate argon2_salt_len (CHR 0x00)) s
           in case in_world (rand_read E argon2_salt_len) s0 of
                (Inl e, s1) \<Rightarrow> (Inl (Wrapf ''generate salt'' e), s1)
              | (Inr salt, s1) \<Rightarrow>
                  (let (_, s2) = alloc password (write_at sa salt s1);
                       key = derive_key C password salt;
                       (ka, s3) = alloc key s2
                   in zero_bytes_at ka
                       (if \<not> aes_key_ok key then
                          (Inl (Wrapf ''create cipher'' (LibErr ''aes'')), s3)
                        else
                          (let (na, s4) = alloc (replicate gcm_nonce_size (CHR 0x00)) s3
                           in case in_world (rand_read E gcm_nonce_size) s4 of
                                (Inl e, s5) \<Rightarrow> (Inl (Wrapf ''generate nonce'' e), s5)
                              | (Inr nonce, s5) \<Rightarrow>
                                  (let s6 = write_at na nonce s5;
                                       ct = gcm_seal C key nonce (st_mem s6 ! ref);
                                       (_, s7) = alloc ct s6;
                                       (_, s8) = alloc (salt @ nonce @ ct) s7
                                   in (Inr (base64_encode (salt @ nonce @ ct)), s8)))))))"

text \<open>
  The arrays are the decoded data, which the salt, the nonce and the ciphertext are slices of, the copy
  of the password, the derived key, the plaintext and the string made of it, then those of the
  account. The derived key and the plaintext are overwritten.
\<close>

definition account_from_encrypted ::
  "env \<Rightarrow> crypto \<Rightarrow> string \<Rightarrow> string \<Rightarrow> state \<Rightarrow> account result \<times> state" where
  "account_from_encrypted E C encrypted password s =
     (case base64_decode encrypted of
        None \<Rightarrow> (Inl (Wrapf ''decode encrypted key'' (LibErr ''base64'')), s)
      | Some data \<Rightarrow>
          (let (_, s0) = alloc data s
           in if length data < argon2_salt_len + 12 then (Inl (Errorf ''encrypted data too short''), s0)
              else
                (let (_, s1) = alloc password s0;
                     salt = take argon2_salt_len data;
                     key = derive_key C password salt;
                     (ka, s2) = alloc key s1
                 in zero_bytes_at ka
                     (if \<not> aes_key_ok key then
                        (Inl (Wrapf ''create cipher'' (LibErr ''aes'')), s2)
                      else if length data < argon2_salt_len + gcm_nonce_size then
                        (Inl (Errorf ''encrypted data too short for nonce''), s2)
                      else
                        (let nonce = take gcm_nonce_size (drop argon2_salt_len data);
                             ct = drop (argon2_salt_len + gcm_nonce_size) data
                         in case gcm_open C key nonce ct of
                              None \<Rightarrow> (Inl (Wrapf ''decrypt private key'' (LibErr ''gcm'')), s2)
                            | Some pt \<Rightarrow>
                                (let (pa, s3) = alloc pt s2;
                                     (_, s4) = alloc pt s3
                                 in zero_bytes_at pa (account_from_private_key E pt s4)))))))"

section \<open>Offline execution\<close>

definition execute_offline ::
  "env \<Rightarrow> string \<Rightarrow> string \<Rightarrow> string list option \<Rightarrow> account option \<Rightarrow> state
     \<Rightarrow> execution_result result \<times> state" where
  "execute_offline E src fn inputs acct s =
     (case acct of
        None \<Rightarrow> (Inl ErrNoAccount, s)
      | Some a \<Rightarrow>
          (case in_world (ffi_execute_program E src fn (marshal_strings inputs)
                  (PrivateKey (st_mem s) a)) s of
             (Inl e, s1) \<Rightarrow> (Inl (Wrapf ''execute program'' e), s1)
           | (Inr r, s1) \<Rightarrow> (Inr \<lparr>exec_raw = Some r\<rparr>, s1)))"

section \<open>Well-formed accounts\<close>

text \<open>The slices of an account that are not nil.\<close>

definition account_refs :: "account \<Rightarrow> nat set" where
  "account_refs a = set_option (private_key a) \<union> set_option (view_key a) \<union>
     set_option (compute_key a) \<union> set_option (graph_key a)"

definition wf_account :: "mem \<Rightarrow> account \<Rightarrow> bool" where
  "wf_account m a = (\<forall>r \<in> account_refs a. r < length m)"

lemma in_world_mem [simp]: "st_mem (snd (in_world f s)) = st_mem s"
  by (simp add: in_world_def split: prod.split)

lemma in_world_eq:
  "in_world f s = (fst (f (st_world s)), s\<lparr>st_world := snd (f (st_world s))\<rparr>)"
  by (simp add: in_world_def split: prod.split)

lemma alloc_eq: "alloc b s = (length (st_mem s), s\<lparr>st_mem := st_mem s @ [b]\<rparr>)"
  by (simp add: alloc_def)

lemma alloc_raw_eq:
  "alloc_raw m s =
     (map_option (\<lambda>_. length (st_mem s)) m,
      s\<lparr>st_mem := st_mem s @ (case m of None \<Rightarrow> [] | Some b \<Rightarrow> [b])\<rparr>)"
  by (simp add: alloc_raw_def alloc_def split: option.split)

text \<open>What a successful derivation leaves behind.\<close>

lemma account_from_sk_Inr:
  assumes "account_from_sk E sk s = (Inr a, s')"
  shows "\<exists>kj (keys :: derived_keys) ck. fst (ffi_derive_all_keys E sk (st_world s)) = Inr kj \<and>
    unmarshal dec_keys kj = Some keys \<and>
    ck = (case dk_compute_key keys of None \<Rightarrow> [] | Some b \<Rightarrow> [b]) \<and>
    st_mem s' = st_mem s @ [kj] @ ck @ [sk, dk_view_key keys, dk_graph_key keys] \<and>
    a = \<lparr>private_key = Some (length (st_mem s) + 1 + length ck),
      view_key = Some (length (st_mem s) + 2 + length ck),
      compute_key = map_option (\<lambda>_. length (st_mem s) + 1) (dk_compute_key keys),
      graph_key = Some (length (st_mem s) + 3 + length ck), address = dk_address keys\<rparr>"
proof -
  from assms obtain kj and keys :: derived_keys where
    k: "fst (ffi_derive_all_keys E sk (st_world s)) = Inr kj" "unmarshal dec_keys kj = Some keys"
    by (auto simp: account_from_sk_def in_world_eq alloc_eq alloc_raw_eq Let_def
        split: sum.splits option.splits)
  with assms show ?thesis
    by (intro exI [of _ kj] exI [of _ keys])
       (auto simp: account_from_sk_def in_world_eq alloc_eq alloc_raw_eq Let_def
        split: option.splits)
qed

lemma account_from_sk_private_key:
  "account_from_sk E sk s = (Inr a, s') \<Longrightarrow> PrivateKey (st_mem s') a = sk"
  by (auto dest!: account_from_sk_Inr simp: PrivateKey_def slice_get_def nth_append)

lemma account_from_sk_wf: "account_from_sk E sk s = (Inr a, s') \<Longrightarrow> wf_account (st_mem s') a"
  by (auto dest!: account_from_sk_Inr simp: wf_account_def account_refs_def split: option.splits)

lemma account_from_sk_prefix: "prefix (st_mem s) (st_mem (snd (account_from_sk E sk s)))"
  by (auto simp: account_from_sk_def in_world_eq alloc_eq alloc_raw_eq Let_def
      split: sum.splits option.splits)

section \<open>Zeroization\<close>

lemma zeroize_sel:
  "fst (zeroize a s) =
     \<lparr>private_key = None, view_key = None, compute_key = None, graph_key = None, address = []\<rparr>"
  "st_mem (snd (zeroize a s)) = zero_at (graph_key a) (zero_at (compute_key a)
     (zero_at (view_key a) (zero_at (private_key a) (st_mem s))))"
  "st_world (snd (zeroize a s)) = st_world s"
  by (simp_all add: zeroize_def Let_def)

lemma zero_bytes_idem [simp]: "zero_bytes (zero_bytes b) = zero_bytes b"
  by (simp add: zero_bytes_def)

lemma zeroize_nth:
  "r < length (st_mem s) \<Longrightarrow> st_mem (snd (zeroize a s)) ! r =
     (if r \<in> account_refs a then zero_bytes (st_mem s ! r) else st_mem s ! r)"
  by (auto simp: zeroize_sel zero_at_nth account_refs_def)

lemma zeroize_mem:
  "st_mem (snd (zeroize a s)) =
     map (\<lambda>r. if r \<in> account_refs a then zero_bytes (st_mem s ! r) else st_mem s ! r)
       [0..<length (st_mem s)]"
proof (rule nth_equalityI)
  show len: "length (st_mem (snd (zeroize a s))) = length (map (\<lambda>r. if r \<in> account_refs a
      then zero_bytes (st_mem s ! r) else st_mem s ! r) [0..<length (st_mem s)])"
    by (simp add: zeroize_sel)
  fix r
  assume "r < length (st_mem (snd (zeroize a s)))"
  then have "r < length (st_mem s)"
    by (simp add: zeroize_sel)
  then show "st_mem (snd (zeroize a s)) ! r = map (\<lambda>r. if r \<in> account_refs a
      then zero_bytes (st_mem s ! r) else st_mem s ! r) [0..<length (st_mem s)] ! r"
    by (simp add: zeroize_nth)
qed

text \<open>
  C20: \<open>Zeroize\<close> overwrites every byte array the account refers to with zeros, in place and
  without changing its length, leaves every other array alone, and afterwards all five accessors
  return the empty string.
\<close>

theorem zeroize_clears:
  "st_mem (snd (zeroize a s)) =
     map (\<lambda>r. if r \<in> account_refs a then replicate (length (st_mem s ! r)) (CHR 0x00)
              else st_mem s ! r) [0..<length (st_mem s)] \<and>
   PrivateKey (st_mem (snd (zeroize a s))) (fst (zeroize a s)) = [] \<and>
   ViewKey (st_mem (snd (zeroize a s))) (fst (zeroize a s)) = [] \<and>
   ComputeKey (st_mem (snd (zeroize a s))) (fst (zeroize a s)) = [] \<and>
   GraphKey (st_mem (snd (zeroize a s))) (fst (zeroize a s)) = [] \<and>
   Address (fst (zeroize a s)) = []"
  unfolding zeroize_mem
  by (simp add: zeroize_sel(1) PrivateKey_def ViewKey_def ComputeKey_def GraphKey_def Address_def
      slice_get_def zero_bytes_def map_replicate_const)

text \<open>
  The variant of \<open>zeroize_secret.go\<close> for builds with the \<open>runtimesecret\<close> experiment. \<open>erase\<close> is what
  \<open>secret.Erase\<close> of the Go runtime leaves of the bytes of a slice.
\<close>

definition erase_at :: "(bytes \<Rightarrow> bytes) \<Rightarrow> nat option \<Rightarrow> mem \<Rightarrow> mem" where
  "erase_at erase r m = (case r of None \<Rightarrow> m | Some a \<Rightarrow> m[a := erase (m ! a)])"

definition zeroize_account :: "(bytes \<Rightarrow> bytes) \<Rightarrow> account \<Rightarrow> state \<Rightarrow> account \<times> state" where
  "zeroize_account erase a s =
     (let m1 = erase_at erase (private_key a) (st_mem s);
          m2 = erase_at erase (view_key a) m1;
          m3 = erase_at erase (compute_key a) m2;
          m4 = erase_at erase (graph_key a) m3
      in (\<lparr>private_key = None, view_key = None, compute_key = None, graph_key = None,
           address = []\<rparr>, s\<lparr>st_mem := m4\<rparr>))"

text \<open>When erasing writes zeros, as it is documented to, both builds do the same.\<close>

lemma zeroize_account_agrees:
  assumes "\<And>b. erase b = zero_bytes b"
  shows "zeroize_account erase a s = zeroize a s"
proof -
  have "erase_at erase = zero_at"
    using assms by (intro ext) (simp add: erase_at_def zero_at_def split: option.split)
  then show ?thesis by (simp add: zeroize_account_def zeroize_def)
qed

section \<open>Encryption round trip\<close>

text \<open>
  What is relied on: Argon2 returns a key of the requested length, opening what was sealed under
  the same key and nonce gives the plaintext back, and the random source fills the buffer.
\<close>

definition crypto_ok :: "crypto \<Rightarrow> bool" where
  "crypto_ok C =
     ((\<forall>pw salt t m p n. length (argon2_id_key C pw salt t m p n) = n) \<and>
      (\<forall>k n pt. length k = 32 \<longrightarrow> length n = 12 \<longrightarrow> gcm_open C k n (gcm_seal C k n pt) = Some pt))"

definition rand_ok :: "env \<Rightarrow> bool" where
  "rand_ok E = (\<forall>h n b. rand_bytes E h n = Inr b \<longrightarrow> length b = n)"

lemma zero_bytes_at_sel [simp]:
  "fst (zero_bytes_at k r) = fst r"
  "st_mem (snd (zero_bytes_at k r)) = zero_at (Some k) (st_mem (snd r))"
  "st_world (snd (zero_bytes_at k r)) = st_world (snd r)"
  by (simp_all add: zero_bytes_at_def)

lemma zero_bytes_at_pair:
  "zero_bytes_at k (x, s) = (x, s\<lparr>st_mem := zero_at (Some k) (st_mem s)\<rparr>)"
  by (simp add: zero_bytes_at_def)

lemma derive_key_length: "crypto_ok C \<Longrightarrow> length (derive_key C pw salt) = 32"
  by (simp add: crypto_ok_def derive_key_def argon2_key_len_def)

lemma write_at_sel [simp]:
  "st_mem (write_at a b s) = (st_mem s)[a := b]" "st_world (write_at a b s) = st_world s"
  by (simp_all add: write_at_def)

text \<open>Arrays behind an old memory \<open>m\<close>, by their place.\<close>

lemma new_nth [simp]:
  "(m @ a # xs) ! length m = a" "(m @ a # b # xs) ! Suc (length m) = b"
  "(m @ a # b # c # xs) ! Suc (Suc (length m)) = c"
  "(m @ a # b # c # d # xs) ! Suc (Suc (Suc (length m))) = d"
  "(m @ a # b # c # d # e # xs) ! Suc (Suc (Suc (Suc (length m)))) = e"
  by (simp_all add: nth_append)

lemma new_update [simp]:
  "(m @ a # b # c # xs)[Suc (Suc (length m)) := y] = m @ a # b # y # xs"
  "(m @ a # b # c # d # xs)[Suc (Suc (Suc (length m))) := y] = m @ a # b # c # y # xs"
  by (simp_all add: list_update_append Suc_diff_le)

lemma zero_at_new [simp]:
  "zero_at (Some (Suc (Suc (length m)))) (m @ a # b # c # xs) = m @ a # b # zero_bytes c # xs"
  "zero_at (Some (Suc (Suc (Suc (length m))))) (m @ a # b # c # d # xs) = m @ a # b # c # zero_bytes d # xs"
  by (simp_all add: zero_at_def)

text \<open>The arrays that \<open>EncryptPrivateKey\<close> leaves, on every path the first \<open>k\<close> of six.\<close>

lemma encrypt_layout:
  assumes "encrypt_private_key E C acct pw s = (r, s')"
  shows "\<exists>salt nonce ct k. st_mem s' = st_mem s @ take k
      [salt, pw, zero_bytes (derive_key C pw salt), nonce, ct, salt @ nonce @ ct] \<and>
    (\<forall>enc. r = Inr enc \<longrightarrow> k = 6 \<and> enc = base64_encode (salt @ nonce @ ct) \<and>
      rand_bytes E (hist (st_world s)) argon2_salt_len = Inr salt \<and>
      rand_bytes E (Ev_Rand argon2_salt_len # hist (st_world s)) gcm_nonce_size = Inr nonce \<and>
      (\<exists>ref. private_key acct = Some ref \<and> ct = gcm_seal C (derive_key C pw salt) nonce
        ((st_mem s @ [salt, pw, derive_key C pw salt, nonce]) ! ref)))"
    (is "\<exists>salt nonce ct k. ?layout salt nonce ct k \<and> ?result salt nonce ct k")
proof -
  let ?h = "hist (st_world s)"
  note run = assms [unfolded encrypt_private_key_def in_world_eq rand_read_def alloc_eq Let_def, symmetric]
  show ?thesis
  proof (cases "private_key acct")
    case None
    with run have "?layout [] [] [] 0 \<and> ?result [] [] [] 0" by simp
    then show ?thesis by blast
  next
    case (Some ref)
    show ?thesis
    proof (cases "rand_bytes E ?h argon2_salt_len")
      case (Inl e)
      with run Some have "?layout (replicate argon2_salt_len (CHR 0x00)) [] [] 1 \<and>
          ?result (replicate argon2_salt_len (CHR 0x00)) [] [] 1"
        by simp
      then show ?thesis by blast
    next
      case (Inr salt)
      let ?key = "derive_key C pw salt"
      show ?thesis
      proof (cases "aes_key_ok ?key")
        case False
        with run Some Inr have "?layout salt [] [] 3 \<and> ?result salt [] [] 3"
          by (simp add: zero_bytes_at_pair)
        then show ?thesis by blast
      next
        case True
        show ?thesis
        proof (cases "rand_bytes E (Ev_Rand argon2_salt_len # ?h) gcm_nonce_size")
          case (Inl e)
          with run Some Inr True have
            "?layout salt (replicate gcm_nonce_size (CHR 0x00)) [] 4 \<and>
             ?result salt (replicate gcm_nonce_size (CHR 0x00)) [] 4"
            by (simp add: zero_bytes_at_pair)
          then show ?thesis by blast
        next
          case nonce: (Inr nonce)
          let ?ct = "gcm_seal C ?key nonce ((st_mem s @ [salt, pw, ?key, nonce]) ! ref)"
          from nonce run Some Inr True have "?layout salt nonce ?ct 6 \<and> ?result salt nonce ?ct 6"
            by (simp add: zero_bytes_at_pair)
          then show ?thesis by blast
        qed
      qed
    qed
  qed
qed

lemma private_key_old:
  "wf_account m acct \<Longrightarrow> private_key acct = Some ref \<Longrightarrow> (m @ xs) ! ref = PrivateKey m acct"
  by (simp add: wf_account_def account_refs_def PrivateKey_def slice_get_def nth_append)

lemma encrypt_Inr:
  assumes "encrypt_private_key E C acct pw s = (Inr enc, s1)" and "wf_account (st_mem s) acct"
    and "rand_ok E"
  shows "\<exists>salt nonce. length salt = argon2_salt_len \<and> length nonce = gcm_nonce_size \<and>
    enc = base64_encode (salt @ nonce @
      gcm_seal C (derive_key C pw salt) nonce (PrivateKey (st_mem s) acct))"
proof -
  from encrypt_layout [OF assms(1)] obtain salt nonce ct ref where
    enc: "enc = base64_encode (salt @ nonce @ ct)"
    and salt: "rand_bytes E (hist (st_world s)) argon2_salt_len = Inr salt"
    and nonce: "rand_bytes E (Ev_Rand argon2_salt_len # hist (st_world s)) gcm_nonce_size = Inr nonce"
    and ref: "private_key acct = Some ref"
    and ct: "ct = gcm_seal C (derive_key C pw salt) nonce
        ((st_mem s @ [salt, pw, derive_key C pw salt, nonce]) ! ref)"
    by (elim exE conjE allE [of _ enc] impE [OF _ refl]) (rule that; assumption)
  have len: "length salt = argon2_salt_len" "length nonce = gcm_nonce_size"
    using assms(3) salt nonce unfolding rand_ok_def by blast+
  note ct = ct [unfolded private_key_old [OF assms(2) ref]]
  with enc ct len show ?thesis by (intro exI [of _ salt] exI [of _ nonce]) simp
qed

lemma decrypt_encrypted:
  assumes "crypto_ok C" and "rand_ok E" and "wf_account (st_mem s) acct"
    and "encrypt_private_key E C acct pw s = (Inr enc, s1)"
  shows "\<exists>data. base64_decode enc = Some data \<and> account_from_encrypted E' C enc pw s2 =
    zero_bytes_at (length (st_mem s2) + 2) (zero_bytes_at (length (st_mem s2) + 3)
      (account_from_private_key E' (PrivateKey (st_mem s) acct)
        (s2\<lparr>st_mem := st_mem s2 @ [data, pw, derive_key C pw (take argon2_salt_len data),
          PrivateKey (st_mem s) acct, PrivateKey (st_mem s) acct]\<rparr>)))"
proof -
  obtain salt nonce where l: "length salt = argon2_salt_len" "length nonce = gcm_nonce_size"
    and enc: "enc = base64_encode (salt @ nonce @
      gcm_seal C (derive_key C pw salt) nonce (PrivateKey (st_mem s) acct))"
    using encrypt_Inr [OF assms(4,3,2)] by blast
  let ?pk = "PrivateKey (st_mem s) acct"
  have key: "aes_key_ok (derive_key C pw salt)"
    using assms(1) by (simp add: aes_key_ok_def derive_key_length)
  have "gcm_open C (derive_key C pw salt) nonce
      (gcm_seal C (derive_key C pw salt) nonce ?pk) = Some ?pk"
    using assms(1) l(2) derive_key_length [OF assms(1), of pw salt]
    by (simp add: crypto_ok_def gcm_nonce_size_def)
  then show ?thesis
    using l key
    by (intro exI [of _ "salt @ nonce @ gcm_seal C (derive_key C pw salt) nonce ?pk"])
       (simp add: account_from_encrypted_def enc alloc_eq Let_def argon2_salt_len_def
         gcm_nonce_size_def numeral_3_eq_3)
qed

text \<open>
  C21: decrypting an encrypted private key with the same password gives back the private key.
  Whatever happened in between, \<open>AccountFromEncryptedPrivateKey\<close> behaves exactly as
  \<open>AccountFromPrivateKey\<close> on the original key, run with five more arrays in memory: the decoded data,
  the password, the derived key and the plaintext, which are zeroed afterwards, and the string made
  of the plaintext.
\<close>

theorem encrypt_decrypt_round_trip:
  assumes "crypto_ok C" and "rand_ok E" and "wf_account (st_mem s) acct"
    and "encrypt_private_key E C acct pw s = (Inr enc, s1)"
  shows "\<exists>data. base64_decode enc = Some data \<and> account_from_encrypted E' C enc pw s2 =
    zero_bytes_at (length (st_mem s2) + 2) (zero_bytes_at (length (st_mem s2) + 3)
      (account_from_private_key E' (PrivateKey (st_mem s) acct)
        (s2\<lparr>st_mem := st_mem s2 @ [data, pw, derive_key C pw (take argon2_salt_len data),
          PrivateKey (st_mem s) acct, PrivateKey (st_mem s) acct]\<rparr>)))"
  by (rule decrypt_encrypted [OF assms])

text \<open>Concrete primitives: the seal appends the key, opening checks and removes it.\<close>

definition toy_crypto :: crypto where
  "toy_crypto = \<lparr>argon2_id_key = (\<lambda>pw salt t m p n. take n (pw @ replicate n (CHR ''k''))),
     gcm_seal = (\<lambda>k n pt. pt @ k),
     gcm_open = (\<lambda>k n ct. if has_suffix ct k then Some (take (length ct - length k) ct) else None)\<rparr>"

lemma toy_crypto_ok: "crypto_ok toy_crypto"
  by (auto simp: crypto_ok_def toy_crypto_def min_def)

lemma quiet_rand_ok: "rand_ok quiet_env"
  by (auto simp: rand_ok_def quiet_env_def)

definition toy_account :: account where
  "toy_account = \<lparr>private_key = Some 0, view_key = Some 1, compute_key = None,
     graph_key = Some 2, address = ''aleo1x''\<rparr>"

definition toy_state :: state where
  "toy_state = \<lparr>st_mem = [''APrivateKey1'', ''AViewKey1'', ''G1''], st_world = start_world\<rparr>"

lemma toy_facts: "wf_account (st_mem toy_state) toy_account"
  "PrivateKey (st_mem toy_state) toy_account = ''APrivateKey1''"
  by (simp_all add: wf_account_def account_refs_def toy_state_def toy_account_def PrivateKey_def slice_get_def)

lemma toy_encrypts:
  obtains enc s1 where "encrypt_private_key quiet_env toy_crypto toy_account ''pw'' toy_state = (Inr enc, s1)"
proof -
  have "is_ok (fst (encrypt_private_key quiet_env toy_crypto toy_account ''pw'' toy_state))"
    by (simp add: encrypt_private_key_def toy_account_def in_world_eq rand_read_def quiet_env_def
        alloc_eq Let_def derive_key_def toy_crypto_def aes_key_ok_def argon2_key_len_def)
  then show thesis using that by (metis is_ok_iff prod.collapse)
qed

theorem encrypt_decrypt_round_trip_witness:
  "\<exists>enc s1 data. encrypt_private_key quiet_env toy_crypto toy_account ''pw'' toy_state = (Inr enc, s1) \<and>
     account_from_encrypted quiet_env toy_crypto enc ''pw'' s1 =
       zero_bytes_at (length (st_mem s1) + 2) (zero_bytes_at (length (st_mem s1) + 3)
         (account_from_private_key quiet_env ''APrivateKey1''
           (s1\<lparr>st_mem := st_mem s1 @ [data, ''pw'', derive_key toy_crypto ''pw'' (take argon2_salt_len data),
             ''APrivateKey1'', ''APrivateKey1'']\<rparr>)))"
proof -
  obtain enc s1 where
    e: "encrypt_private_key quiet_env toy_crypto toy_account ''pw'' toy_state = (Inr enc, s1)"
    by (rule toy_encrypts)
  then show ?thesis
    using encrypt_decrypt_round_trip [OF toy_crypto_ok quiet_rand_ok toy_facts(1) e] toy_facts(2) by metis
qed

section \<open>What is left of the key material in memory\<close>

lemma account_from_sk_Inl:
  "account_from_sk E sk s = (Inl e, s') \<Longrightarrow> prefix (st_mem s) (st_mem s') \<and> e \<noteq> ErrNoPrivateKey"
  by (auto simp: account_from_sk_def in_world_eq alloc_eq alloc_raw_eq Let_def
      split: sum.splits option.splits)

lemma account_from_private_key_new:
  obtains rest where "st_mem (snd (account_from_private_key E sk s)) = st_mem s @ rest"
proof (cases "sk = []")
  case True
  with that [of "[]"] show thesis by (simp add: account_from_private_key_def)
next
  case False
  from account_from_sk_prefix [of s E sk] obtain rest
    where "st_mem (snd (account_from_sk E sk s)) = st_mem s @ rest"
    unfolding prefix_def by blast
  with False that show thesis by (simp add: account_from_private_key_def)
qed

lemma account_from_sk_refs:
  "account_from_sk E sk s = (Inr a, s') \<Longrightarrow>
     account_refs a = {Suc (length (st_mem s))..<length (st_mem s')}"
  by (auto dest!: account_from_sk_Inr simp: account_refs_def split: option.splits)

lemma account_from_private_key_Inr:
  assumes "account_from_private_key E sk s = (Inr a, s')"
  shows "PrivateKey (st_mem s') a = sk" and "account_refs a = {Suc (length (st_mem s))..<length (st_mem s')}"
  using assms account_from_sk_private_key account_from_sk_refs
  by (auto simp: account_from_private_key_def split: if_splits)

text \<open>The arrays that \<open>AccountFromEncryptedPrivateKey\<close> leaves, on every path the first \<open>k\<close> of five and,
  after all five, those of the account's construction.\<close>

lemma decrypt_layout:
  assumes "account_from_encrypted E C enc pw s = (r, s')"
  shows "\<exists>data pt k rest. st_mem s' = st_mem s @ take k
      [data, pw, zero_bytes (derive_key C pw (take argon2_salt_len data)), zero_bytes pt, pt] @ rest \<and>
    (k = 0 \<or> base64_decode enc = Some data) \<and> (k = 5 \<or> rest = []) \<and>
    (k = 5 \<longrightarrow> gcm_open C (derive_key C pw (take argon2_salt_len data))
       (take gcm_nonce_size (drop argon2_salt_len data))
       (drop (argon2_salt_len + gcm_nonce_size) data) = Some pt) \<and>
    (\<forall>a. r = Inr a \<longrightarrow> k = 5 \<and> PrivateKey (st_mem s') a = pt \<and>
       account_refs a = {length (st_mem s) + 6..<length (st_mem s')})"
    (is "\<exists>data pt k rest. ?layout data pt k rest \<and> ?rest data pt k rest")
proof -
  note run = assms [unfolded account_from_encrypted_def alloc_eq Let_def, symmetric]
  show ?thesis
  proof (cases "base64_decode enc")
    case None
    with run have "?layout [] [] 0 [] \<and> ?rest [] [] 0 []" by simp
    then show ?thesis by blast
  next
    case (Some data)
    let ?key = "derive_key C pw (take argon2_salt_len data)"
    let ?opened = "gcm_open C ?key (take gcm_nonce_size (drop argon2_salt_len data))
      (drop (argon2_salt_len + gcm_nonce_size) data)"
    consider (short) "length data < argon2_salt_len + 12"
      | (failed) "\<not> length data < argon2_salt_len + 12"
        "\<not> aes_key_ok ?key \<or> length data < argon2_salt_len + gcm_nonce_size \<or> ?opened = None"
      | (opened) pt where "\<not> length data < argon2_salt_len + 12" "aes_key_ok ?key"
        "\<not> length data < argon2_salt_len + gcm_nonce_size" "?opened = Some pt"
      by (cases ?opened) auto
    then show ?thesis
    proof cases
      case short
      with run Some have "?layout data [] 1 [] \<and> ?rest data [] 1 []" by simp
      then show ?thesis by blast
    next
      case failed
      with run Some have "?layout data [] 3 [] \<and> ?rest data [] 3 []"
        by (auto simp: zero_bytes_at_pair split: if_splits)
      then show ?thesis by blast
    next
      case opened
      let ?s = "s\<lparr>st_mem := st_mem s @ [data, pw, ?key, pt, pt]\<rparr>"
      obtain q u where q: "account_from_private_key E pt ?s = (q, u)" by fastforce
      obtain rest where rest: "st_mem u = st_mem ?s @ rest"
        using account_from_private_key_new [of E pt ?s] q by auto
      from run Some opened q have r: "r = q"
        "s' = u\<lparr>st_mem := zero_at (Some (length (st_mem s) + 2)) (zero_at (Some (length (st_mem s) + 3)) (st_mem u))\<rparr>"
        by (simp_all add: zero_bytes_at_pair numeral_3_eq_3)
      have lay: "?layout data pt 5 rest" using r(2) rest by (simp add: numeral_3_eq_3)
      have "PrivateKey (st_mem s') a = pt" "account_refs a = {length (st_mem s) + 6..<length (st_mem s')}"
        if a: "r = Inr a" for a
      proof -
        from a q r(1) have q': "account_from_private_key E pt ?s = (Inr a, u)" by simp
        note acct = account_from_private_key_Inr [OF q']
        have len: "length (st_mem s') = length (st_mem u)" using r(2) by simp
        with acct(2) show refs: "account_refs a = {length (st_mem s) + 6..<length (st_mem s')}"
          by (simp add: eval_nat_numeral)
        have "st_mem s' ! x = st_mem u ! x" if "x \<in> account_refs a" for x
          using that refs len r(2) by (simp add: zero_at_nth)
        with acct(1) show "PrivateKey (st_mem s') a = pt"
          by (cases "private_key a") (auto simp: PrivateKey_def slice_get_def account_refs_def)
      qed
      with lay Some opened(4) have "?layout data pt 5 rest \<and> ?rest data pt 5 rest" by simp
      then show ?thesis by blast
    qed
  qed
qed

text \<open>
  C40: What \<open>EncryptPrivateKey\<close> and \<open>AccountFromEncryptedPrivateKey\<close> leave in memory. On every
  path, errors included, the derived key and the decrypted plaintext are all zeros when the function
  returns, and the arrays there were before are as they were. What is not zeroed: the copy of the
  password, the salt, the nonce, the ciphertext and the concatenated or decoded data, and after a
  decryption that got so far the string made of the plaintext. So an account that was decrypted has a
  second copy of its private key, which is not its own array and which \<open>Zeroize\<close> leaves as it is.
\<close>

theorem key_material_left:
  "(\<exists>salt nonce ct k. st_mem (snd (encrypt_private_key E C acct pw s)) = st_mem s @ take k
      [salt, pw, zero_bytes (derive_key C pw salt), nonce, ct, salt @ nonce @ ct] \<and>
    (\<forall>enc. fst (encrypt_private_key E C acct pw s) = Inr enc \<longrightarrow>
      k = 6 \<and> enc = base64_encode (salt @ nonce @ ct) \<and>
      (wf_account (st_mem s) acct \<longrightarrow>
        ct = gcm_seal C (derive_key C pw salt) nonce (PrivateKey (st_mem s) acct)))) \<and>
   (\<exists>data pt k rest. st_mem (snd (account_from_encrypted E C enc' pw s)) = st_mem s @ take k
      [data, pw, zero_bytes (derive_key C pw (take argon2_salt_len data)), zero_bytes pt, pt] @ rest \<and>
    (k = 0 \<or> base64_decode enc' = Some data) \<and> (k = 5 \<or> rest = []) \<and>
    (k = 5 \<longrightarrow> gcm_open C (derive_key C pw (take argon2_salt_len data))
       (take gcm_nonce_size (drop argon2_salt_len data))
       (drop (argon2_salt_len + gcm_nonce_size) data) = Some pt) \<and>
    (\<forall>a. fst (account_from_encrypted E C enc' pw s) = Inr a \<longrightarrow>
      k = 5 \<and> PrivateKey (st_mem (snd (account_from_encrypted E C enc' pw s))) a = pt \<and>
      st_mem (snd (zeroize a (snd (account_from_encrypted E C enc' pw s)))) ! (length (st_mem s) + 4) = pt))"
    (is "?enc \<and> ?dec")
proof (rule conjI)
  obtain r s' where e: "encrypt_private_key E C acct pw s = (r, s')" by fastforce
  from encrypt_layout [OF e] obtain salt nonce ct k where
    "st_mem s' = st_mem s @ take k
      [salt, pw, zero_bytes (derive_key C pw salt), nonce, ct, salt @ nonce @ ct] \<and>
     (\<forall>enc. r = Inr enc \<longrightarrow> k = 6 \<and> enc = base64_encode (salt @ nonce @ ct) \<and>
       (wf_account (st_mem s) acct \<longrightarrow>
         ct = gcm_seal C (derive_key C pw salt) nonce (PrivateKey (st_mem s) acct)))"
    using private_key_old [of "st_mem s" acct] by (elim exE conjE) (rule that, fastforce)
  then show ?enc unfolding e fst_conv snd_conv by blast
next
  obtain r s' where d: "account_from_encrypted E C enc' pw s = (r, s')" by fastforce
  from decrypt_layout [OF d] obtain data pt k rest where
    lay: "st_mem s' = st_mem s @ take k
      [data, pw, zero_bytes (derive_key C pw (take argon2_salt_len data)), zero_bytes pt, pt] @ rest"
    and k: "k = 0 \<or> base64_decode enc' = Some data" "k = 5 \<or> rest = []"
      "k = 5 \<longrightarrow> gcm_open C (derive_key C pw (take argon2_salt_len data))
         (take gcm_nonce_size (drop argon2_salt_len data))
         (drop (argon2_salt_len + gcm_nonce_size) data) = Some pt"
    and ok: "\<forall>a. r = Inr a \<longrightarrow> k = 5 \<and> PrivateKey (st_mem s') a = pt \<and>
       account_refs a = {length (st_mem s) + 6..<length (st_mem s')}"
    by blast
  have "k = 5 \<and> PrivateKey (st_mem s') a = pt \<and>
      st_mem (snd (zeroize a s')) ! (length (st_mem s) + 4) = pt" if "r = Inr a" for a
  proof (intro conjI)
    from ok that show k5: "k = 5" and "PrivateKey (st_mem s') a = pt" by blast+
    have refs: "account_refs a = {length (st_mem s) + 6..<length (st_mem s')}" using ok that by blast
    show "st_mem (snd (zeroize a s')) ! (length (st_mem s) + 4) = pt"
      using k5 lay by (simp add: zeroize_nth refs nth_append)
  qed
  with lay k show ?dec unfolding d fst_conv snd_conv by blast
qed

text \<open>Concrete keys: the library derives an account with empty view and graph keys.\<close>

definition key_env :: env where
  "key_env = quiet_env\<lparr>ffi := \<lambda>_ _. Some ''{}''\<rparr>"

lemma key_env_derives: obtains a u where "account_from_private_key key_env ''APrivateKey1'' s = (Inr a, u)"
proof -
  have r: "result_or_error (Some ''{}'') = Inr ''{}''" by code_simp
  have k: "unmarshal dec_keys ''{}'' = Some zero_keys" by code_simp
  obtain w where w: "ffi_derive_all_keys key_env ''APrivateKey1'' (st_world s) = (Inr ''{}'', w)"
    by (simp add: ffi_derive_all_keys_def bridge_def c_call_def key_env_def r)
  have "is_ok (fst (account_from_private_key key_env ''APrivateKey1'' s))"
    by (simp add: account_from_private_key_def account_from_sk_def in_world_def w k alloc_eq alloc_raw_eq)
  then show thesis using that by (metis is_ok_iff prod.collapse)
qed

lemma decrypt_key_env:
  assumes "encrypt_private_key quiet_env toy_crypto toy_account pw toy_state = (Inr enc, s1)"
  shows "\<exists>a s2. account_from_encrypted key_env toy_crypto enc pw s1 = (Inr a, s2) \<and>
    st_mem s2 ! (length (st_mem s1) + 4) = ''APrivateKey1''"
proof -
  let ?pk = "PrivateKey (st_mem toy_state) toy_account"
  obtain data where run: "account_from_encrypted key_env toy_crypto enc pw s1 =
      zero_bytes_at (length (st_mem s1) + 2) (zero_bytes_at (length (st_mem s1) + 3)
        (account_from_private_key key_env ?pk (s1\<lparr>st_mem := st_mem s1 @
          [data, pw, derive_key toy_crypto pw (take argon2_salt_len data), ?pk, ?pk]\<rparr>)))"
    using decrypt_encrypted [OF toy_crypto_ok quiet_rand_ok toy_facts(1) assms, of key_env s1] by blast
  let ?s = "s1\<lparr>st_mem := st_mem s1 @
    [data, pw, derive_key toy_crypto pw (take argon2_salt_len data), ?pk, ?pk]\<rparr>"
  obtain a u where a: "account_from_private_key key_env ?pk ?s = (Inr a, u)"
    unfolding toy_facts(2) by (rule key_env_derives)
  obtain rest where "st_mem u = st_mem ?s @ rest"
    using account_from_private_key_new [of key_env ?pk ?s] a by auto
  then have "st_mem u ! (length (st_mem s1) + 4) = ?pk" "length (st_mem s1) + 4 < length (st_mem u)"
    by (simp_all add: nth_append)
  with run a toy_facts(2) show ?thesis by (simp add: zero_bytes_at_pair zero_at_nth)
qed

theorem key_material_left_witness:
  "\<exists>enc s1 a s2. encrypt_private_key quiet_env toy_crypto toy_account ''pw'' toy_state = (Inr enc, s1) \<and>
     account_from_encrypted key_env toy_crypto enc ''pw'' s1 = (Inr a, s2) \<and>
     PrivateKey (st_mem s2) a = ''APrivateKey1'' \<and>
     st_mem (snd (zeroize a s2)) ! (length (st_mem s1) + 4) = ''APrivateKey1''"
proof -
  obtain enc s1 where
    e: "encrypt_private_key quiet_env toy_crypto toy_account ''pw'' toy_state = (Inr enc, s1)"
    by (rule toy_encrypts)
  obtain a s2 where d: "account_from_encrypted key_env toy_crypto enc ''pw'' s1 = (Inr a, s2)"
    and s2: "st_mem s2 ! (length (st_mem s1) + 4) = ''APrivateKey1''"
    using decrypt_key_env [OF e] by blast
  from key_material_left [of key_env toy_crypto toy_account "''pw''" s1 enc,
      THEN conjunct2, unfolded d fst_conv snd_conv]
  obtain data pt k rest where lay: "st_mem s2 = st_mem s1 @ take k [data, ''pw'',
      zero_bytes (derive_key toy_crypto ''pw'' (take argon2_salt_len data)), zero_bytes pt, pt] @ rest"
    and ok: "\<forall>b. (Inr a :: account result) = Inr b \<longrightarrow> k = 5 \<and> PrivateKey (st_mem s2) b = pt \<and>
      st_mem (snd (zeroize b s2)) ! (length (st_mem s1) + 4) = pt"
    by (elim exE conjE)
  from ok have k: "k = 5" and pt: "PrivateKey (st_mem s2) a = pt"
    and left: "st_mem (snd (zeroize a s2)) ! (length (st_mem s1) + 4) = pt"
    by simp_all
  from s2 have "pt = ''APrivateKey1''" unfolding lay k by (simp add: nth_append)
  with e d pt left show ?thesis
    by (intro exI [of _ enc] exI [of _ s1] exI [of _ a] exI [of _ s2]) simp
qed

text \<open>
  The accounts the constructors return are usable: all their slices are allocated, and
  \<open>PrivateKey\<close> returns the very key the account was made from. An empty key and a failing
  derivation are errors.
\<close>

theorem account_construction:
  "case account_from_private_key E sk s of
     (Inr a, s') \<Rightarrow> sk \<noteq> [] \<and> PrivateKey (st_mem s') a = sk \<and> wf_account (st_mem s') a \<and>
       prefix (st_mem s) (st_mem s')
   | (Inl e, s') \<Rightarrow> prefix (st_mem s) (st_mem s') \<and> (sk = [] \<longleftrightarrow> e = ErrNoPrivateKey)"
  using account_from_sk_private_key account_from_sk_wf account_from_sk_Inl
    account_from_sk_prefix [of s E sk]
  by (auto simp: account_from_private_key_def split: prod.splits sum.splits)

end
