(* ===== verification/Sealed_Box.thy ===== *)
theory Sealed_Box
  imports Account
begin

text \<open>
  Sealed boxes (\<open>security.go\<close>): the format of libsodium's \<open>crypto_box_seal\<close> built from an ephemeral
  key pair, a BLAKE2b nonce and NaCl's box, and the encryption of a proving request for the
  delegated prover. The primitives of \<open>golang.org/x/crypto\<close> are parameters.
\<close>

section \<open>Primitives\<close>

text \<open>
  \<open>blake2b n\<close> is the unkeyed hash of output size \<open>n\<close>, if that size is supported; \<open>box_public\<close> is the
  public key of a secret key (scalar multiplication of the base point).
\<close>

record box_lib =
  blake2b :: "nat \<Rightarrow> (bytes \<Rightarrow> bytes) option"
  box_public :: "bytes \<Rightarrow> bytes"
  box_seal :: "bytes \<Rightarrow> bytes \<Rightarrow> bytes \<Rightarrow> bytes \<Rightarrow> bytes"
  box_open :: "bytes \<Rightarrow> bytes \<Rightarrow> bytes \<Rightarrow> bytes \<Rightarrow> bytes option"

definition box_overhead :: nat where "box_overhead = 16"

text \<open>\<open>copy(dst[:], src)\<close> into a zeroed array of \<open>n\<close> bytes.\<close>

definition copy_array :: "nat \<Rightarrow> bytes \<Rightarrow> bytes" where
  "copy_array n b = take n (b @ replicate n (CHR 0x00))"

lemma copy_array_length [simp]: "length (copy_array n b) = n"
  by (simp add: copy_array_def)

lemma copy_array_id [simp]: "length b = n \<Longrightarrow> copy_array n b = b"
  by (simp add: copy_array_def)

text \<open>\<open>box.GenerateKey\<close> reads a secret key of 32 bytes.\<close>

definition generate_key :: "env \<Rightarrow> box_lib \<Rightarrow> (bytes \<times> bytes) result io" where
  "generate_key E B w =
     (case rand_read E 32 w of
        (Inl e, w') \<Rightarrow> (Inl e, w')
      | (Inr sk, w') \<Rightarrow> (Inr (box_public B sk, sk), w'))"

section \<open>Sealed boxes\<close>

definition sealed_box_encrypt :: "env \<Rightarrow> box_lib \<Rightarrow> bytes \<Rightarrow> bytes \<Rightarrow> bytes result io" where
  "sealed_box_encrypt E B recipient_pk message w =
     (case generate_key E B w of
        (Inl e, w') \<Rightarrow> (Inl (Wrapf ''generate ephemeral keypair'' e), w')
      | (Inr (epk, esk), w') \<Rightarrow>
          (case blake2b B 24 of
             None \<Rightarrow> (Inl (Wrapf ''create blake2b hasher'' (LibErr ''blake2b'')), w')
           | Some h \<Rightarrow>
               (let nonce = copy_array 24 (h (epk @ recipient_pk));
                    encrypted = box_seal B message nonce recipient_pk esk
                in (Inr (copy_array 32 epk @ encrypted), w'))))"

definition sealed_box_decrypt :: "box_lib \<Rightarrow> bytes \<Rightarrow> bytes \<Rightarrow> bytes \<Rightarrow> bytes result" where
  "sealed_box_decrypt B recipient_pk recipient_sk ciphertext =
     (if length ciphertext < 32 + box_overhead then Inl (Errorf ''ciphertext too short'')
      else
        (let epk = copy_array 32 (take 32 ciphertext)
         in case blake2b B 24 of
              None \<Rightarrow> Inl (Wrapf ''create blake2b hasher'' (LibErr ''blake2b''))
            | Some h \<Rightarrow>
                (let nonce = copy_array 24 (h (epk @ recipient_pk))
                 in case box_open B (drop 32 ciphertext) nonce epk recipient_sk of
                      None \<Rightarrow> Inl (Errorf ''decryption failed'')
                    | Some plaintext \<Rightarrow> Inr plaintext)))"

definition encrypt_proving_request :: "env \<Rightarrow> box_lib \<Rightarrow> string \<Rightarrow> bytes \<Rightarrow> string result io" where
  "encrypt_proving_request E B public_key_hex data w =
     (case hex_decode public_key_hex of
        None \<Rightarrow> (Inl (Wrapf ''decode public key hex'' (LibErr ''hex'')), w)
      | Some pk_bytes \<Rightarrow>
          if length pk_bytes \<noteq> 32 then
            (Inl (Errorf (''public key must be 32 bytes, got '' @ show_nat (length pk_bytes))), w)
          else
            (case sealed_box_encrypt E B (copy_array 32 pk_bytes) data w of
               (Inl e, w') \<Rightarrow> (Inl (Wrapf ''seal'' e), w')
             | (Inr sealed, w') \<Rightarrow> (Inr (base64_encode sealed), w')))"

section \<open>Properties\<close>

text \<open>
  What is relied on: public keys have 32 bytes, a box adds 16 bytes, and a box sealed for a key
  pair opens with the sender's public and the recipient's secret key.
\<close>

definition box_ok :: "box_lib \<Rightarrow> bool" where
  "box_ok B =
     ((\<forall>sk. length (box_public B sk) = 32) \<and>
      (\<forall>m n esk rsk. length (box_seal B m n (box_public B rsk) esk) = length m + 16) \<and>
      (\<forall>m n esk rsk.
         box_open B (box_seal B m n (box_public B rsk) esk) n (box_public B esk) rsk = Some m))"

lemma generate_key_eq:
  "generate_key E B w =
     (case rand_bytes E (hist w) 32 of Inl e \<Rightarrow> Inl e | Inr sk \<Rightarrow> Inr (box_public B sk, sk),
      log_event (Ev_Rand 32) w)"
  by (simp add: generate_key_def rand_read_def split: sum.split)

lemma later_generate_key [simp]: "later w (snd (generate_key E B w))"
  by (simp add: generate_key_eq)

lemma sealed_box_encrypt_world [world_simps]:
  "snd (sealed_box_encrypt E B pk m w) = log_event (Ev_Rand 32) w"
  by (auto simp: sealed_box_encrypt_def generate_key_eq Let_def split: sum.splits option.splits)

lemma encrypt_proving_request_world [world_simps]:
  "snd (encrypt_proving_request E B hx data w) =
     (case hex_decode hx of
        Some pk \<Rightarrow> if length pk = 32 then log_event (Ev_Rand 32) w else w
      | None \<Rightarrow> w)"
proof -
  have "snd (case sealed_box_encrypt E B pk data w of (Inl e, w') \<Rightarrow> (Inl (Wrapf ''seal'' e), w')
      | (Inr sealed, w') \<Rightarrow> (Inr (base64_encode sealed), w')) = log_event (Ev_Rand 32) w" for pk
    using sealed_box_encrypt_world [of E B pk data w] by (auto split: prod.splits sum.splits)
  then show ?thesis
    by (simp add: encrypt_proving_request_def split: option.split)
qed

lemma later_encrypt_proving_request [simp]: "later w (snd (encrypt_proving_request E B hx data w))"
  by (simp add: encrypt_proving_request_world split: option.split)

lemma requests_encrypt_proving_request [world_simps]:
  "requests (snd (encrypt_proving_request E B hx data w)) = requests w"
  by (simp add: encrypt_proving_request_world requests_log split: option.split)

lemma sealed_box_encryptE:
  assumes "sealed_box_encrypt E B pk message w = (Inr c, w')"
  obtains esk h where "blake2b B 24 = Some h"
    and "c = copy_array 32 (box_public B esk) @ box_seal B message
      (copy_array 24 (h (box_public B esk @ pk))) pk esk"
  using assms
  by (auto simp: sealed_box_encrypt_def generate_key_eq Let_def split: sum.splits option.splits)

lemma sealed_box_opens:
  assumes "box_ok B" and "sealed_box_encrypt E B (box_public B rsk) message w = (Inr c, w')"
  shows "sealed_box_decrypt B (box_public B rsk) rsk c = Inr message"
  using assms(2)
proof (rule sealed_box_encryptE)
  fix esk h
  assume "blake2b B 24 = Some h"
    and "c = copy_array 32 (box_public B esk) @ box_seal B message
      (copy_array 24 (h (box_public B esk @ box_public B rsk))) (box_public B rsk) esk"
  moreover have "length (box_public B esk) = 32" using assms(1) by (simp add: box_ok_def)
  ultimately show ?thesis
    using assms(1) by (simp add: sealed_box_decrypt_def box_overhead_def box_ok_def)
qed

lemma encrypt_proving_request_opens:
  assumes "box_ok B" and "hex_decode hx = Some (box_public B rsk)"
    and "encrypt_proving_request E B hx data w = (Inr text, w')"
  shows "\<exists>sealed. base64_decode text = Some sealed \<and>
    sealed_box_decrypt B (box_public B rsk) rsk sealed = Inr data"
proof -
  from assms(1) have "length (box_public B rsk) = 32"
    by (simp add: box_ok_def)
  with assms(2,3) obtain sealed where
    s: "sealed_box_encrypt E B (box_public B rsk) data w = (Inr sealed, w')"
      "text = base64_encode sealed"
    by (auto simp: encrypt_proving_request_def split: prod.splits sum.splits)
  with sealed_box_opens [OF assms(1) s(1)] show ?thesis
    by simp
qed

text \<open>
  C22: a sealed box opens. Decrypting what \<open>sealedBoxEncrypt\<close> returned with the recipient's key pair
  gives the message, for every message; the box is 48 bytes longer than the message.
\<close>

theorem sealed_box_round_trip:
  assumes "box_ok B" and "sealed_box_encrypt E B (box_public B rsk) message w = (Inr c, w')"
  shows "sealed_box_decrypt B (box_public B rsk) rsk c = Inr message \<and>
    length c = 32 + box_overhead + length message"
proof
  show "sealed_box_decrypt B (box_public B rsk) rsk c = Inr message"
    by (rule sealed_box_opens [OF assms])
  show "length c = 32 + box_overhead + length message"
    by (rule sealed_box_encryptE [OF assms(2)])
      (use assms(1) in \<open>simp add: box_overhead_def box_ok_def\<close>)
qed

text \<open>Concrete primitives for evaluation: the box carries the message in clear with a tag.\<close>

definition toy_box :: box_lib where
  "toy_box = \<lparr>blake2b = (\<lambda>n. if n \<le> 64 then Some (\<lambda>b. take n b) else None),
     box_public = (\<lambda>sk. copy_array 32 sk),
     box_seal = (\<lambda>m n pk sk. replicate 16 (CHR ''t'') @ m),
     box_open = (\<lambda>c n pk sk. if take 16 c = replicate 16 (CHR ''t'') then Some (drop 16 c) else None)\<rparr>"

lemma toy_box_ok: "box_ok toy_box"
  by (simp add: box_ok_def toy_box_def)

lemma toy_box_encrypts:
  "sealed_box_encrypt quiet_env toy_box pk m w =
     (Inr (replicate 32 (CHR ''r'') @ replicate 16 (CHR ''t'') @ m), log_event (Ev_Rand 32) w)"
  by (simp add: sealed_box_encrypt_def generate_key_eq quiet_env_def toy_box_def)

theorem sealed_box_round_trip_witness:
  "sealed_box_decrypt toy_box (box_public toy_box ''key'') ''key''
     (replicate 32 (CHR ''r'') @ replicate 16 (CHR ''t'') @ ''hello sealed box'') =
   Inr ''hello sealed box''"
  using sealed_box_round_trip [OF toy_box_ok toy_box_encrypts, of "''key''" "''hello sealed box''"]
  by blast

text \<open>
  The delegated prover can read an encrypted proving request. With a hexadecimal public key of
  32 bytes that belongs to the secret key \<open>rsk\<close>, the text \<open>encryptProvingRequest\<close> returns is
  base64 of a sealed box that opens to the request bytes.
\<close>

theorem encrypt_proving_request_readable:
  assumes "box_ok B" and "hex_decode hx = Some (box_public B rsk)"
    and "encrypt_proving_request E B hx data w = (Inr text, w')"
  shows "\<exists>sealed. base64_decode text = Some sealed \<and>
    sealed_box_decrypt B (box_public B rsk) rsk sealed = Inr data"
  using assms by (rule encrypt_proving_request_opens)

theorem encrypt_proving_request_readable_witness:
  "\<exists>text w'. encrypt_proving_request quiet_env toy_box (concat (replicate 32 ''61'')) ''request''
       start_world = (Inr text, w') \<and>
     (\<exists>sealed. base64_decode text = Some sealed \<and>
       sealed_box_decrypt toy_box (replicate 32 (CHR ''a'')) (replicate 32 (CHR ''a'')) sealed =
         Inr ''request'')"
proof -
  have pub: "box_public toy_box (replicate 32 (CHR ''a'')) = replicate 32 (CHR ''a'')"
    by (simp add: toy_box_def)
  have hx: "hex_decode (concat (replicate 32 ''61'')) =
      Some (box_public toy_box (replicate 32 (CHR ''a'')))"
    unfolding pub by code_simp
  obtain out w' where e: "encrypt_proving_request quiet_env toy_box (concat (replicate 32 ''61''))
      ''request'' start_world = (Inr out, w')"
    using hx pub by (simp add: encrypt_proving_request_def toy_box_encrypts)
  show ?thesis
    using e encrypt_proving_request_readable [OF toy_box_ok hx e] pub by metis
qed

end
