(* ===== verification/Provable_Client.thy ===== *)
theory Provable_Client
  imports Sealed_Box Retry
begin

text \<open>
  The client of the delegated proving service (\<open>provable_client.go\<close>): the JWT cache, the public key
  of the prover, the plain and the encrypted submission of a proving request and the retry loop
  around them. Operations that fill the JWT cache return the updated client. The instants of the
  cache are nanoseconds since the Unix epoch; the proving request a caller passes is not nil.
\<close>

section \<open>Configuration\<close>

record provable_config =
  cfg_api_key :: string
  cfg_consumer_id :: string
  cfg_prover_url :: string
  cfg_network :: string
  cfg_http_client :: "http_client option"

record provable_client =
  pc_api_key :: string
  pc_consumer_id :: string
  pc_api_base :: string
  pc_prover_base :: string
  pc_http :: http_client
  pc_max_retries :: int
  pc_base_delay :: int
  pc_jwt :: string
  pc_jwt_exp :: int

text \<open>The zero \<open>time.Time\<close> is the start of year 1.\<close>

definition year_one :: int where "year_one = 62135596800"

definition zero_time :: int where "zero_time = - year_one * second"

definition prover_base_of :: "provable_config \<Rightarrow> string" where
  "prover_base_of cfg =
     trim_right_set
       (if cfg_prover_url cfg = [] then
          ''https://api.provable.com/prove/'' @
          (if cfg_network cfg = [] then ''testnet'' else cfg_network cfg)
        else cfg_prover_url cfg) ''/''"

definition api_base_of :: "string \<Rightarrow> string" where
  "api_base_of prover_base =
     (case str_index prover_base ''/prove'' of
        Some idx \<Rightarrow> if idx > 0 then take idx prover_base else prover_base
      | None \<Rightarrow> prover_base)"

definition NewProvableClient :: "provable_config \<Rightarrow> provable_client result" where
  "NewProvableClient cfg =
     (if cfg_api_key cfg = [] then Inl (Errorf ''provable API key is required'')
      else if cfg_consumer_id cfg = [] then Inl (Errorf ''provable consumer ID is required'')
      else Inr
        \<lparr>pc_api_key = cfg_api_key cfg, pc_consumer_id = cfg_consumer_id cfg,
         pc_api_base = api_base_of (prover_base_of cfg), pc_prover_base = prover_base_of cfg,
         pc_http = (case cfg_http_client cfg of None \<Rightarrow> Built_Client (5 * minute) | Some h \<Rightarrow> h),
         pc_max_retries = 3, pc_base_delay = 1 * second, pc_jwt = [], pc_jwt_exp = zero_time\<rparr>)"

definition SetProverURI :: "string \<Rightarrow> provable_client \<Rightarrow> provable_client" where
  "SetProverURI base pc = pc\<lparr>pc_prover_base := trim_right_set base ''/''\<rparr>"

section \<open>The JWT\<close>

definition jwt_buffer_duration :: int where "jwt_buffer_duration = 5 * minute"

text \<open>\<open>time.Unix(sec, 0)\<close>: seconds are kept in 64 bits counted from year 1.\<close>

definition unix_time :: "int \<Rightarrow> int" where
  "unix_time secs = (wrap64 (secs + year_one) - year_one) * second"

definition dec_exp :: "json \<Rightarrow> string option" where
  "dec_exp j = dec_struct [(''exp'', fld_number id (\<lambda>n _. n))] j []"

text \<open>The positive \<open>exp\<close> claim of a three-part token, in seconds.\<close>

definition jwt_claim :: "string \<Rightarrow> int option" where
  "jwt_claim token =
     (case split_on (CHR ''.'') (trim_prefix token ''Bearer '') of
        [_, payload64, _] \<Rightarrow>
          (case base64_raw_url_decode payload64 of
             None \<Rightarrow> None
           | Some payload \<Rightarrow>
               (case unmarshal dec_exp payload of
                  None \<Rightarrow> None
                | Some n \<Rightarrow>
                    (case parse_int n of
                       Inl _ \<Rightarrow> None
                     | Inr secs \<Rightarrow> if secs \<le> 0 then None else Some secs)))
      | _ \<Rightarrow> None)"

definition parse_jwt_expiry :: "int \<Rightarrow> string \<Rightarrow> int" where
  "parse_jwt_expiry now token =
     (case jwt_claim token of None \<Rightarrow> now + 1 * hour | Some secs \<Rightarrow> unix_time secs)"

definition jwt_request :: "provable_client \<Rightarrow> http_request" where
  "jwt_request pc =
     \<lparr>rq_client = pc_http pc, rq_method = ''POST'',
      rq_url = pc_api_base pc @ ''/jwts/'' @ pc_consumer_id pc,
      rq_headers = header_set ''X-Provable-API-Key'' (pc_api_key pc)
        (header_set ''Content-Type'' ''application/json'' []),
      rq_body = []\<rparr>"

text \<open>
  The token is in a reply header, so a body that breaks off is not noticed; on an error status what
  could be read of it is the message.
\<close>

definition jwt_of_reply :: "http_response \<Rightarrow> string result" where
  "jwt_of_reply rs =
     (if rs_status rs \<noteq> 200 \<and> rs_status rs \<noteq> 201 then Inl (status_error ''JWT request failed'' rs)
      else
        (let jwt = header_get ''Authorization'' (rs_headers rs)
         in if jwt = [] then Inl (Errorf ''JWT response missing Authorization header'')
            else Inr jwt))"

definition fetch_jwt :: "env \<Rightarrow> provable_client \<Rightarrow> ctx \<Rightarrow> string result io" where
  "fetch_jwt E pc c w =
     (if url_error E (rq_url (jwt_request pc)) then
        (Inl (Wrapf ''create JWT request'' (LibErr ''url'')), w)
      else
        (case http_do E (jwt_request pc) w of
           (Transport_Error m, w') \<Rightarrow> (Inl (Wrapf ''JWT request failed'' (LibErr m)), w')
         | (Read_Error rs _, w') \<Rightarrow> (jwt_of_reply rs, w')
         | (Reply rs, w') \<Rightarrow> (jwt_of_reply rs, w')))"

definition GetJWT :: "env \<Rightarrow> provable_client \<Rightarrow> ctx \<Rightarrow> (string result \<times> provable_client) io" where
  "GetJWT E pc c w =
     (if pc_jwt pc \<noteq> [] \<and> clock w < pc_jwt_exp pc - jwt_buffer_duration then
        ((Inr (pc_jwt pc), pc), w)
      else
        (case fetch_jwt E pc c w of
           (Inl e, w') \<Rightarrow> ((Inl e, pc), w')
         | (Inr jwt, w') \<Rightarrow>
             ((Inr jwt, pc\<lparr>pc_jwt := jwt, pc_jwt_exp := parse_jwt_expiry (clock w') jwt\<rparr>), w')))"

section \<open>The prover's public key\<close>

definition pubkey_request :: "provable_client \<Rightarrow> string \<Rightarrow> string \<Rightarrow> http_request" where
  "pubkey_request pc jwt prover_base =
     \<lparr>rq_client = pc_http pc, rq_method = ''GET'', rq_url = prover_base @ ''/pubkey'',
      rq_headers = header_set ''Authorization'' jwt
        (header_set ''Content-Type'' ''application/json'' []),
      rq_body = []\<rparr>"

definition get_public_key ::
  "env \<Rightarrow> provable_client \<Rightarrow> ctx \<Rightarrow> string \<Rightarrow> string \<Rightarrow> pubkey_response result io" where
  "get_public_key E pc c jwt prover_base w =
     (let rq = pubkey_request pc jwt prover_base
      in if url_error E (rq_url rq) then (Inl (Wrapf ''create pubkey request'' (LibErr ''url'')), w)
         else
           (case http_do E rq w of
              (Transport_Error m, w') \<Rightarrow> (Inl (Wrapf ''pubkey request failed'' (LibErr m)), w')
            | (Read_Error _ m, w') \<Rightarrow> (Inl (Wrapf ''read pubkey response'' (LibErr m)), w')
            | (Reply rs, w') \<Rightarrow>
                if rs_status rs \<noteq> 200 then (Inl (status_error ''pubkey request failed'' rs), w')
                else
                  (case unmarshal dec_pubkey (rs_body rs) of
                     None \<Rightarrow> (Inl (Wrapf ''decode pubkey response'' (LibErr ''json'')), w')
                   | Some pk \<Rightarrow> (Inr pk, w'))))"

definition GetPublicKey :: "env \<Rightarrow> provable_client \<Rightarrow> ctx \<Rightarrow> string \<Rightarrow> pubkey_response result io" where
  "GetPublicKey E pc c jwt = get_public_key E pc c jwt (pc_prover_base pc)"

section \<open>Submitting a proving request\<close>

definition failed_result :: "int \<Rightarrow> string \<Rightarrow> proving_result" where
  "failed_result status msg =
     \<lparr>pres_ok = False, pres_data = None, pres_status = status,
      pres_error = Some \<lparr>pe_message = msg\<rparr>\<rparr>"

definition extract_err_msg :: "bytes \<Rightarrow> int \<Rightarrow> string" where
  "extract_err_msg body status_code =
     (let fallback = (if body \<noteq> [] then body else ''HTTP '' @ show_int status_code)
      in case unmarshal (dec_one_string ''message'') body of
           Some m \<Rightarrow> if m \<noteq> [] then m else fallback
         | None \<Rightarrow> fallback)"

definition handle_proving_response :: "int \<Rightarrow> bytes \<Rightarrow> proving_result" where
  "handle_proving_response status body =
     (if status = 200 \<or> status = 201 then
        (case unmarshal dec_response body of
           None \<Rightarrow> failed_result status ''invalid proving response format''
         | Some pr \<Rightarrow>
             \<lparr>pres_ok = True, pres_data = Some pr, pres_status = 0, pres_error = None\<rparr>)
      else failed_result status (extract_err_msg body status))"

definition do_prove_request :: "env \<Rightarrow> http_request \<Rightarrow> proving_result result io" where
  "do_prove_request E rq w =
     (case http_do E rq w of
        (Transport_Error m, w') \<Rightarrow> (Inl (Wrapf ''prove request failed'' (LibErr m)), w')
      | (Read_Error _ m, w') \<Rightarrow> (Inl (Wrapf ''read prove response'' (LibErr m)), w')
      | (Reply rs, w') \<Rightarrow> (Inr (handle_proving_response (rs_status rs) (rs_body rs)), w'))"

definition prove_request :: "provable_client \<Rightarrow> string \<Rightarrow> string \<Rightarrow> bytes \<Rightarrow> http_request" where
  "prove_request pc jwt prover_base body =
     \<lparr>rq_client = pc_http pc, rq_method = ''POST'', rq_url = prover_base @ ''/prove'',
      rq_headers = header_set ''X-ALEO-METHOD'' ''submitProvingRequest''
        (header_set ''Authorization'' jwt (header_set ''Content-Type'' ''application/json'' [])),
      rq_body = body\<rparr>"

definition encrypted_prove_request :: "provable_client \<Rightarrow> string \<Rightarrow> string \<Rightarrow> bytes \<Rightarrow> http_request" where
  "encrypted_prove_request pc jwt prover_base body =
     \<lparr>rq_client = pc_http pc, rq_method = ''POST'', rq_url = prover_base @ ''/prove/encrypted'',
      rq_headers = header_set ''Authorization'' jwt
        (header_set ''Content-Type'' ''application/json'' []),
      rq_body = body\<rparr>"

definition submit_unencrypted ::
  "env \<Rightarrow> provable_client \<Rightarrow> ctx \<Rightarrow> string \<Rightarrow> string \<Rightarrow> proving_request \<Rightarrow> proving_result result io" where
  "submit_unencrypted E pc c jwt prover_base pr w =
     (case marshal_proving_request pr of
        None \<Rightarrow> (Inl (Wrapf ''marshal proving request'' (LibErr ''json'')), w)
      | Some req_json \<Rightarrow>
          (let rq = prove_request pc jwt prover_base req_json
           in if url_error E (rq_url rq) then
                (Inl (Wrapf ''create prove request'' (LibErr ''url'')), w)
              else do_prove_request E rq w))"

definition submit_sealed ::
  "env \<Rightarrow> provable_client \<Rightarrow> string \<Rightarrow> string \<Rightarrow> string \<Rightarrow> string \<Rightarrow> proving_result result io" where
  "submit_sealed E pc jwt prover_base key_id ciphertext w =
     (let rq = encrypted_prove_request pc jwt prover_base
        (marshal_encrypted_request \<lparr>enc_key_id = key_id, enc_ciphertext = ciphertext\<rparr>)
      in if url_error E (rq_url rq) then
           (Inl (Wrapf ''create encrypted prove request'' (LibErr ''url'')), w)
         else do_prove_request E rq w)"

definition submit_encrypted ::
  "env \<Rightarrow> box_lib \<Rightarrow> provable_client \<Rightarrow> ctx \<Rightarrow> string \<Rightarrow> string \<Rightarrow> proving_request \<Rightarrow>
    proving_result result io" where
  "submit_encrypted E B pc c jwt prover_base pr =
     then_io (get_public_key E pc c jwt prover_base) (Wrapf ''get public key'') (\<lambda>pubkey.
     then_io (ffi_proving_request_to_bytes E (raw_string (pr_authorization pr))
         (raw_string (pr_fee_authorization pr)) (pr_broadcast pr))
       (Wrapf ''serialize proving request'') (\<lambda>bytes_b64.
     case base64_decode bytes_b64 of
       None \<Rightarrow> ret_io (Inl (Wrapf ''decode proving request base64'' (LibErr ''base64'')))
     | Some pr_bytes \<Rightarrow>
         then_io (encrypt_proving_request E B (pk_public_key pubkey) pr_bytes)
           (Wrapf ''encrypt proving request'')
           (\<lambda>ciphertext. submit_sealed E pc jwt prover_base (pk_key_id pubkey) ciphertext)))"

section \<open>The retry loop\<close>

definition submit_attempt ::
  "env \<Rightarrow> box_lib \<Rightarrow> provable_client \<Rightarrow> ctx \<Rightarrow> string \<Rightarrow> string \<Rightarrow> delegated_params \<Rightarrow> nat \<Rightarrow>
    (proving_result result, unit) step io" where
  "submit_attempt E B pc c jwt prover_base params k w =
     (case backoff_wait E c (pc_base_delay pc) k w of
        (Some e, w1) \<Rightarrow> (Stop (Inl e), w1)
      | (None, w1) \<Rightarrow>
          (case (if dp_privacy params
                 then submit_encrypted E B pc c jwt prover_base (dp_request params)
                 else submit_unencrypted E pc c jwt prover_base (dp_request params)) w1 of
             (Inl e, w2) \<Rightarrow> (Stop (Inl e), w2)
           | (Inr r, w2) \<Rightarrow>
               if \<not> pres_ok r \<and> (pres_status r = 500 \<or> pres_status r = 503) then (Again (), w2)
               else (Stop (Inr r), w2)))"

definition retries_exceeded :: proving_result where
  "retries_exceeded = failed_result 503 ''max retries exceeded''"

definition SubmitProvingRequestSafe ::
  "env \<Rightarrow> box_lib \<Rightarrow> provable_client \<Rightarrow> ctx \<Rightarrow> delegated_params \<Rightarrow>
    (proving_result result \<times> provable_client) io" where
  "SubmitProvingRequestSafe E B pc c params w =
     (let prover_base =
        (if dp_url params \<noteq> [] then trim_right_set (dp_url params) ''/'' else pc_prover_base pc)
      in case GetJWT E pc c w of
           ((Inl e, pc'), w1) \<Rightarrow> ((Inl (Wrapf ''get JWT'' e), pc'), w1)
         | ((Inr jwt, pc'), w1) \<Rightarrow>
             (case retry (submit_attempt E B pc' c jwt prover_base params) (\<lambda>_. Inr retries_exceeded)
                (attempts (pc_max_retries pc')) 0 () w1 of
                (r, w2) \<Rightarrow> ((r, pc'), w2)))"

text \<open>\<open>%w (status %d): %s\<close>. A result that is not OK always carries an error message.\<close>

definition error_message :: "proving_result \<Rightarrow> string" where
  "error_message r = (case pres_error r of None \<Rightarrow> [] | Some e \<Rightarrow> pe_message e)"

definition result_of :: "proving_result \<Rightarrow> proving_response option result" where
  "result_of r =
     (if \<not> pres_ok r then
        Inl (Suffixf ErrProvingFailed
          ('' (status '' @ show_int (pres_status r) @ ''): '' @ error_message r))
      else Inr (pres_data r))"

definition SubmitProvingRequest ::
  "env \<Rightarrow> box_lib \<Rightarrow> provable_client \<Rightarrow> ctx \<Rightarrow> delegated_params \<Rightarrow>
    (proving_response option result \<times> provable_client) io" where
  "SubmitProvingRequest E B pc c params w =
     (case SubmitProvingRequestSafe E B pc c params w of
        ((Inl e, pc'), w') \<Rightarrow> ((Inl e, pc'), w')
      | ((Inr r, pc'), w') \<Rightarrow> ((result_of r, pc'), w'))"

definition Prove ::
  "env \<Rightarrow> box_lib \<Rightarrow> provable_client \<Rightarrow> ctx \<Rightarrow> proving_request \<Rightarrow>
    (proving_response option result \<times> provable_client) io" where
  "Prove E B pc c pr =
     SubmitProvingRequest E B pc c \<lparr>dp_request = pr, dp_privacy = False, dp_url = []\<rparr>"

definition ProveWithJWT ::
  "env \<Rightarrow> provable_client \<Rightarrow> ctx \<Rightarrow> string \<Rightarrow> proving_request \<Rightarrow> proving_response option result io" where
  "ProveWithJWT E pc c jwt pr =
     then_io (submit_unencrypted E pc c jwt (pc_prover_base pc) pr) id (\<lambda>r. ret_io (result_of r))"

section \<open>What the operations do to the world\<close>

lemma http_do_obtain:
  obtains v where "http_do E rq w = (respond E (hist w) rq, v)" and "later w v"
    and "requests v = Suc (requests w)" and "hist v = Ev_Http rq (respond E (hist w) rq) # hist w"
proof
  show "http_do E rq w = (respond E (hist w) rq, snd (http_do E rq w))"
    by (simp add: prod_eq_iff http_do_sel)
qed (simp_all add: http_do_sel requests_http)

text \<open>An operation of one request: what is built, whether its URL parses, how the outcome is read.\<close>

lemma fetch_jwt_world:
  "later w (snd (fetch_jwt E pc c w)) \<and> requests (snd (fetch_jwt E pc c w)) \<le> requests w + 1"
  by (rule http_do_obtain [of E "jwt_request pc" w])
    (simp add: fetch_jwt_def split: http_outcome.split)

lemma get_public_key_world:
  "later w (snd (get_public_key E pc c jwt base w)) \<and>
   requests (snd (get_public_key E pc c jwt base w)) \<le> requests w + 1"
  by (rule http_do_obtain [of E "pubkey_request pc jwt base" w])
    (simp add: get_public_key_def Let_def split: http_outcome.split option.split)

lemma do_prove_request_world:
  "later w (snd (do_prove_request E rq w)) \<and> requests (snd (do_prove_request E rq w)) = requests w + 1"
  by (rule http_do_obtain [of E rq w]) (simp add: do_prove_request_def split: http_outcome.split)

lemma submit_unencrypted_world:
  "later w (snd (submit_unencrypted E pc c jwt base pr w)) \<and>
   requests (snd (submit_unencrypted E pc c jwt base pr w)) \<le> requests w + 1"
  using do_prove_request_world [of w E]
  by (simp add: submit_unencrypted_def Let_def split: option.split)

lemma submit_sealed_world:
  "later w (snd (submit_sealed E pc jwt base k ct w)) \<and>
   requests (snd (submit_sealed E pc jwt base k ct w)) \<le> requests w + 1"
  using do_prove_request_world [of w E] by (simp add: submit_sealed_def Let_def)

lemma forward_to_bytes [simp, intro]: "forward (ffi_proving_request_to_bytes E a f b)"
  and sends_to_bytes: "sends (ffi_proving_request_to_bytes E a f b) 0"
  by (auto simp: ffi_proving_request_to_bytes_def forward_def sends_def bridge_eq requests_log)

lemma forward_submit_encrypted [simp, intro]: "forward (submit_encrypted E B pc c jwt base pr)"
  unfolding submit_encrypted_def
  by (intro forward_then forward_to_bytes)
    (auto simp: forward_def get_public_key_world submit_sealed_world split: option.split
      intro!: forward_then [unfolded forward_def, rule_format])

lemma sends_submit_encrypted: "sends (submit_encrypted E B pc c jwt base pr) 2"
proof -
  have "sends (submit_encrypted E B pc c jwt base pr) (1 + (0 + (0 + 1)))"
    unfolding submit_encrypted_def
  proof (intro sends_then sends_to_bytes)
    show "sends (get_public_key E pc c jwt base) 1"
      using get_public_key_world by (simp add: sends_def)
    have "sends (then_io (encrypt_proving_request E B pk data) wrap
        (\<lambda>ct. submit_sealed E pc jwt base k ct)) (0 + 1)" for pk data wrap k
      using submit_sealed_world requests_encrypt_proving_request
      by (intro sends_then) (simp_all add: sends_def)
    then show "sends (case base64_decode b of
        None \<Rightarrow> ret_io (Inl (Wrapf ''decode proving request base64'' (LibErr ''base64'')))
      | Some pr_bytes \<Rightarrow> then_io (encrypt_proving_request E B (pk_public_key pubkey) pr_bytes)
          (Wrapf ''encrypt proving request'')
          (\<lambda>ciphertext. submit_sealed E pc jwt base (pk_key_id pubkey) ciphertext)) (0 + 1)"
      for b pubkey
      by (simp split: option.split)
  qed
  then show ?thesis by (simp add: numeral_2_eq_2)
qed

lemma submit_attempt_world:
  "later w (snd (submit_attempt E B pc c jwt base params k w)) \<and>
   requests (snd (submit_attempt E B pc c jwt base params k w)) \<le> requests w + 2"
proof -
  obtain b w1 where b: "backoff_wait E c (pc_base_delay pc) k w = (b, w1)"
    by (cases "backoff_wait E c (pc_base_delay pc) k w")
  have w1: "later w w1" "requests w1 = requests w"
    using later_backoff_wait [of w E c "pc_base_delay pc" k]
      requests_backoff_wait [of E c "pc_base_delay pc" k w] b by auto
  define m where "m = (if dp_privacy params
    then submit_encrypted E B pc c jwt base (dp_request params)
    else submit_unencrypted E pc c jwt base (dp_request params))"
  obtain r w2 where m: "m w1 = (r, w2)" by (cases "m w1")
  have "forward m" "sends m 2"
    using submit_unencrypted_world sends_submit_encrypted forward_submit_encrypted
    by (auto simp: m_def forward_def sends_def le_SucI numeral_2_eq_2)
  then have "later w1 w2" "requests w2 \<le> requests w1 + 2"
    using m by (auto dest: forwardD sendsD)
  with w1 b m show ?thesis
    by (cases b; cases r) (auto simp: submit_attempt_def m_def [symmetric] intro: later_trans)
qed

interpretation submit_retry: retry_body "submit_attempt E B pc c jwt base params" 2
  for E B pc c jwt base params
  by unfold_locales (use submit_attempt_world in blast)+

lemma GetJWT_cases:
  obtains (cached) "pc_jwt pc \<noteq> []" and "clock w < pc_jwt_exp pc - jwt_buffer_duration"
      and "GetJWT E pc c w = ((Inr (pc_jwt pc), pc), w)"
  | (failed) e w' where "fetch_jwt E pc c w = (Inl e, w')" and "GetJWT E pc c w = ((Inl e, pc), w')"
  | (fetched) jwt w' where "fetch_jwt E pc c w = (Inr jwt, w')"
      and "GetJWT E pc c w = ((Inr jwt,
        pc\<lparr>pc_jwt := jwt, pc_jwt_exp := parse_jwt_expiry (clock w') jwt\<rparr>), w')"
proof (cases "pc_jwt pc \<noteq> [] \<and> clock w < pc_jwt_exp pc - jwt_buffer_duration")
  case True
  then show thesis by (intro cached) (simp_all add: GetJWT_def)
next
  case False
  obtain r w' where f: "fetch_jwt E pc c w = (r, w')" by (cases "fetch_jwt E pc c w")
  show thesis
  proof (cases r)
    case (Inl e)
    with f False show thesis by (intro failed [of e w']) (auto simp: GetJWT_def)
  next
    case (Inr jwt)
    with f False show thesis by (intro fetched [of jwt w']) (auto simp: GetJWT_def)
  qed
qed

lemma GetJWT_world:
  "later w (snd (GetJWT E pc c w)) \<and> requests (snd (GetJWT E pc c w)) \<le> requests w + 1"
  by (rule GetJWT_cases [of pc w E c]) (use fetch_jwt_world [of w E pc c] in simp_all)

lemma GetJWT_keeps:
  "GetJWT E pc c w = ((r, pc'), w') \<Longrightarrow> pc' = pc\<lparr>pc_jwt := pc_jwt pc', pc_jwt_exp := pc_jwt_exp pc'\<rparr>"
  by (rule GetJWT_cases [of pc w E c]) auto

lemma jwt_of_reply_nonempty: "jwt_of_reply rs = Inr jwt \<Longrightarrow> jwt \<noteq> []"
  by (auto simp: jwt_of_reply_def Let_def split: if_splits)

lemma fetch_jwt_nonempty:
  assumes "fetch_jwt E pc c w = (Inr jwt, w')"
  shows "jwt \<noteq> []"
proof -
  obtain out v where "http_do E (jwt_request pc) w = (out, v)" by (cases "http_do E (jwt_request pc) w")
  with assms show ?thesis
    by (cases out) (auto simp: fetch_jwt_def split: if_splits dest: jwt_of_reply_nonempty)
qed

section \<open>Properties\<close>

text \<open>The JWT is cached. What \<open>GetJWT\<close> returns is never empty and costs at most one request, and the
  client it leaves behind answers every further call with the same token and without any request
  until five minutes before the token's expiry.\<close>

theorem jwt_cached:
  assumes "GetJWT E pc c w = ((Inr jwt, pc'), w')"
  shows "jwt \<noteq> [] \<and> requests w' \<le> requests w + 1 \<and>
    (clock v < pc_jwt_exp pc' - jwt_buffer_duration \<longrightarrow>
       GetJWT E2 pc' c2 v = ((Inr jwt, pc'), v))"
proof (rule GetJWT_cases [of pc w E c])
  assume "pc_jwt pc \<noteq> []" "GetJWT E pc c w = ((Inr (pc_jwt pc), pc), w)"
  with assms show ?thesis by (auto simp: GetJWT_def)
next
  fix jwt' w1
  assume f: "fetch_jwt E pc c w = (Inr jwt', w1)"
    and "GetJWT E pc c w = ((Inr jwt',
      pc\<lparr>pc_jwt := jwt', pc_jwt_exp := parse_jwt_expiry (clock w1) jwt'\<rparr>), w1)"
  with assms fetch_jwt_nonempty [OF f] fetch_jwt_world [of w E pc c] show ?thesis
    by (auto simp: GetJWT_def)
qed (use assms in simp)

definition dps_env :: "string \<Rightarrow> int \<Rightarrow> string \<Rightarrow> env" where
  "dps_env jwt status body = quiet_env\<lparr>respond :=
     (\<lambda>_ _. Reply \<lparr>rs_status = status, rs_headers = [(''Authorization'', jwt)], rs_body = body\<rparr>)\<rparr>"

definition sample_dps :: provable_client where
  "sample_dps =
     \<lparr>pc_api_key = ''key'', pc_consumer_id = ''me'', pc_api_base = ''https://api.provable.com'',
      pc_prover_base = ''https://api.provable.com/prove/testnet'',
      pc_http = Built_Client 300000000000, pc_max_retries = 3, pc_base_delay = 1000000000,
      pc_jwt = [], pc_jwt_exp = zero_time\<rparr>"

theorem jwt_cached_witness:
  "\<exists>pc' w'. GetJWT (dps_env ''tok'' 200 '''') sample_dps background start_world =
     ((Inr ''tok'', pc'), w') \<and> GetJWT quiet_env pc' background w' = ((Inr ''tok'', pc'), w')"
proof -
  let ?E = "dps_env ''tok'' 200 ''''"
  have h: "header_get ''Authorization'' [(''Authorization'', ''tok'')] = ''tok''" by code_simp
  have claim: "jwt_claim ''tok'' = None" by code_simp
  let ?w = "snd (http_do ?E (jwt_request sample_dps) start_world)"
  have "fetch_jwt ?E sample_dps background start_world = (Inr ''tok'', ?w)"
    by (simp add: fetch_jwt_def dps_env_def quiet_env_def http_do_def Let_def jwt_of_reply_def h)
  then have g: "GetJWT ?E sample_dps background start_world =
      ((Inr ''tok'', sample_dps\<lparr>pc_jwt := ''tok'', pc_jwt_exp := clock ?w + hour\<rparr>), ?w)"
    by (simp add: GetJWT_def sample_dps_def parse_jwt_expiry_def claim)
  have "clock ?w < clock ?w + hour - jwt_buffer_duration"
    by (simp add: hour_def minute_def second_def jwt_buffer_duration_def)
  with jwt_cached [OF g, of ?w quiet_env background] g show ?thesis by auto
qed

text \<open>The expiry of a well-formed token is read from its payload: with three parts, with or without
  the scheme "Bearer", and a positive integer claim \<open>exp\<close>, it is that many seconds after the epoch.\<close>

theorem jwt_expiry_read:
  assumes "trim_prefix token ''Bearer '' = h @ CHR ''.'' # p @ CHR ''.'' # s"
    and "CHR ''.'' \<notin> set h" and "CHR ''.'' \<notin> set p" and "CHR ''.'' \<notin> set s"
    and "base64_raw_url_decode p = Some payload"
    and "unmarshal dec_exp payload = Some (show_int secs)"
    and "0 < secs" and "secs + year_one \<le> max_int64"
  shows "parse_jwt_expiry now token = secs * second"
proof -
  have "split_on (CHR ''.'') (trim_prefix token ''Bearer '') = [h, p, s]"
    using assms(1-4) by (simp add: split_on_append_sep split_on_no_sep)
  moreover have "parse_int (show_int secs) = Inr secs"
    using assms(7,8) by (intro parse_int_show) (simp_all add: min_int64_def year_one_def)
  ultimately have "jwt_claim token = Some secs"
    using assms(5-7) by (simp add: jwt_claim_def)
  moreover have "wrap64 (secs + year_one) = secs + year_one"
    using assms(7,8) by (intro wrap64_nonneg_id) (simp_all add: year_one_def)
  ultimately show ?thesis by (simp add: parse_jwt_expiry_def unix_time_def)
qed

theorem jwt_expiry_read_witness:
  "parse_jwt_expiry 0 ''Bearer aa.eyJleHAiOjQyfQ.cc'' = 42000000000"
proof -
  have "trim_prefix ''Bearer aa.eyJleHAiOjQyfQ.cc'' ''Bearer '' = ''aa.eyJleHAiOjQyfQ.cc''"
    by code_simp
  moreover have "base64_raw_url_decode ''eyJleHAiOjQyfQ'' =
      Some ([CHR ''{''] @ quote ''exp'' @ '':42}'')"
    by code_simp
  moreover have "unmarshal dec_exp ([CHR ''{''] @ quote ''exp'' @ '':42}'') = Some (show_int 42)"
    by code_simp
  ultimately have "parse_jwt_expiry 0 ''Bearer aa.eyJleHAiOjQyfQ.cc'' = 42 * second"
    by (intro jwt_expiry_read [where h = "''aa''" and p = "''eyJleHAiOjQyfQ''" and s = "''cc''"])
      (simp_all add: year_one_def max_int64_def)
  then show ?thesis by (simp add: second_def)
qed

lemma default_prover_base:
  assumes "n \<noteq> []" and "last n \<noteq> CHR ''/''"
  shows "trim_right_set (''https://api.provable.com/prove/'' @ n) ''/'' =
    ''https://api.provable.com/prove/'' @ n"
  using assms by (intro trim_right_set_id) simp

lemma default_api_base: "api_base_of (''https://api.provable.com/prove/'' @ n) = ''https://api.provable.com''"
proof -
  have "str_index (''https://api.provable.com/prove/'' @ n) ''/prove'' = Some 24"
    by (simp add: has_prefix_def)
  then show ?thesis by (simp add: api_base_of_def)
qed

text \<open>With the default prover URL the API key is only sent to Provable: for every network name the
  JWT request goes to \<open>https://api.provable.com/jwts/{consumer}\<close> and carries the key in its header,
  and proving requests go below \<open>https://api.provable.com/prove/{network}\<close>.\<close>

theorem default_urls:
  assumes "NewProvableClient cfg = Inr pc" and "cfg_prover_url cfg = []"
    and "cfg_network cfg \<noteq> []" and "last (cfg_network cfg) \<noteq> CHR ''/''"
  shows "rq_url (jwt_request pc) = ''https://api.provable.com/jwts/'' @ cfg_consumer_id cfg \<and>
    header_get ''X-Provable-API-Key'' (rq_headers (jwt_request pc)) = cfg_api_key cfg \<and>
    pc_prover_base pc = ''https://api.provable.com/prove/'' @ cfg_network cfg"
proof -
  have "prover_base_of cfg = ''https://api.provable.com/prove/'' @ cfg_network cfg"
    using default_prover_base [OF assms(3,4)] assms(2,3) by (simp add: prover_base_of_def)
  with assms(1) default_api_base [of "cfg_network cfg"] show ?thesis
    by (auto simp: NewProvableClient_def jwt_request_def split: if_splits)
qed

definition sample_cfg :: provable_config where
  "sample_cfg = \<lparr>cfg_api_key = ''key'', cfg_consumer_id = ''me'', cfg_prover_url = [],
     cfg_network = ''testnet'', cfg_http_client = None\<rparr>"

theorem default_urls_witness:
  "\<exists>pc. NewProvableClient sample_cfg = Inr pc \<and>
     rq_url (jwt_request pc) = ''https://api.provable.com/jwts/me''"
proof -
  obtain pc where pc: "NewProvableClient sample_cfg = Inr pc"
    by (simp add: NewProvableClient_def sample_cfg_def)
  with default_urls [OF pc] show ?thesis by (simp add: sample_cfg_def)
qed

lemma cut_in_host:
  assumes "CHR ''/'' \<notin> set p"
  shows "str_index (p @ ''//prove'' @ s) ''/prove'' = Some (Suc (length p))"
  using assms by (induction p) (auto simp: has_prefix_def)

text \<open>C35: The base of the JWT endpoint is found by searching "/prove" in the whole prover URL, so a
  prover URL is cut inside the authority when the authority starts with "prove". For every such
  \<open>ProverURL\<close>, whatever the scheme (or none) before the two slashes, whatever follows and whether or
  not it ends in slashes, the JWT request, with the API key, goes to the host \<open>jwts\<close>.\<close>

theorem api_base_cut_in_host:
  assumes "NewProvableClient cfg = Inr pc" and "cfg_prover_url cfg = p @ ''//prove'' @ s"
    and "CHR ''/'' \<notin> set p"
  shows "rq_url (jwt_request pc) = p @ ''//jwts/'' @ cfg_consumer_id cfg \<and>
    header_get ''X-Provable-API-Key'' (rq_headers (jwt_request pc)) = cfg_api_key cfg"
proof -
  let ?s = "trim_right_set s ''/''"
  have "trim_right_set ((p @ ''//prove'') @ s) ''/'' = (p @ ''//prove'') @ ?s"
    by (intro trim_right_set_append) simp_all
  then have base: "prover_base_of cfg = p @ ''//prove'' @ ?s"
    using assms(2) by (simp add: prover_base_of_def)
  have "api_base_of (p @ ''//prove'' @ ?s) = p @ ''/''"
    by (simp only: api_base_of_def cut_in_host [OF assms(3)]) simp
  with assms(1) base show ?thesis
    by (auto simp: NewProvableClient_def jwt_request_def split: if_splits)
qed

theorem api_base_cut_in_host_witness:
  "\<exists>pc. NewProvableClient (sample_cfg\<lparr>cfg_prover_url := ''http://prover.example.com/''\<rparr>) = Inr pc \<and>
     rq_url (jwt_request pc) = ''http://jwts/me''"
proof -
  let ?cfg = "sample_cfg\<lparr>cfg_prover_url := ''http://prover.example.com/''\<rparr>"
  obtain pc where pc: "NewProvableClient ?cfg = Inr pc"
    by (simp add: NewProvableClient_def sample_cfg_def)
  with api_base_cut_in_host [OF pc, of "''http:''" "''r.example.com/''"] show ?thesis
    by (simp add: sample_cfg_def)
qed

section \<open>Properties of the submissions\<close>

lemma SafeE:
  assumes "SubmitProvingRequestSafe E B pc c params w = ((r, pc'), w')"
  obtains (nojwt) e where "GetJWT E pc c w = ((Inl e, pc'), w')" and "r = Inl (Wrapf ''get JWT'' e)"
  | (loop) jwt base w1 where "GetJWT E pc c w = ((Inr jwt, pc'), w1)"
      and "retry (submit_attempt E B pc' c jwt base params) (\<lambda>_. Inr retries_exceeded)
        (attempts (pc_max_retries pc')) 0 () w1 = (r, w')"
      and "base = (if dp_url params \<noteq> [] then trim_right_set (dp_url params) ''/''
        else pc_prover_base pc)"
proof -
  obtain r1 pc1 w1 where j: "GetJWT E pc c w = ((r1, pc1), w1)" by (metis surj_pair)
  show thesis
  proof (cases r1)
    case (Inl e)
    with j assms show thesis
      by (intro nojwt [of e]) (auto simp: SubmitProvingRequestSafe_def Let_def)
  next
    case (Inr jwt)
    with j assms show thesis
      by (intro loop [of jwt w1]) (auto simp: SubmitProvingRequestSafe_def Let_def split: prod.splits)
  qed
qed

text \<open>C32: A submission sends at most one request for the JWT and two (key and proof) for each of its
  \<open>maxRetries + 1\<close> attempts, in every environment; the loop always ends. With the \<open>maxRetries\<close> of 3 that
  \<open>NewProvableClient\<close> sets these are 9 requests.\<close>

theorem submission_request_bound:
  "requests (snd (SubmitProvingRequest E B pc c params w)) \<le>
     requests w + 1 + 2 * nat (pc_max_retries pc + 1) \<and>
   later w (snd (SubmitProvingRequest E B pc c params w))"
proof -
  obtain r pc' w' where s: "SubmitProvingRequestSafe E B pc c params w = ((r, pc'), w')"
    by (metis surj_pair)
  have same: "snd (SubmitProvingRequest E B pc c params w) = w'"
    by (cases r) (simp_all add: SubmitProvingRequest_def s)
  have "requests w' \<le> requests w + 1 + 2 * nat (pc_max_retries pc + 1) \<and> later w w'"
    using s
  proof (rule SafeE)
    fix e
    assume "GetJWT E pc c w = ((Inl e, pc'), w')"
    with GetJWT_world [of w E pc c] show ?thesis by simp
  next
    fix jwt base w1
    assume j: "GetJWT E pc c w = ((Inr jwt, pc'), w1)"
      and l: "retry (submit_attempt E B pc' c jwt base params) (\<lambda>_. Inr retries_exceeded)
        (attempts (pc_max_retries pc')) 0 () w1 = (r, w')"
    have "pc_max_retries pc' = pc_max_retries pc"
      using arg_cong [OF GetJWT_keeps [OF j], of pc_max_retries] by simp
    then have "requests w' \<le> requests w1 + attempts (pc_max_retries pc) * 2"
      using submit_retry.retry_cost [of E B pc' c jwt base params "\<lambda>_. Inr retries_exceeded"
          "attempts (pc_max_retries pc')" 0 "()" w1] l by simp
    moreover have "later w1 w'"
      using submit_retry.retry_later [of w1 E B pc' c jwt base params "\<lambda>_. Inr retries_exceeded"
          "attempts (pc_max_retries pc')" 0 "()"] l by simp
    ultimately show ?thesis
      using GetJWT_world [of w E pc c] j by (auto simp: attempts_def intro: later_trans)
  qed
  with same show ?thesis by simp
qed

lemma retry_all_fail:
  assumes "\<And>k w. \<exists>w'. body k w = (Again (), w') \<and> requests w' = Suc (requests w)"
  shows "\<exists>w'. retry body fin n k () w = (fin (), w') \<and> requests w' = requests w + n"
proof (induction n arbitrary: k w)
  case (Suc n)
  obtain v where v: "body k w = (Again (), v)" "requests v = Suc (requests w)"
    using assms by blast
  with Suc.IH [of "Suc k" v] show ?case by auto
qed simp

lemma do_prove_reply:
  assumes "respond E (hist w) rq = Reply rs"
  shows "\<exists>w'. do_prove_request E rq w =
    (Inr (handle_proving_response (rs_status rs) (rs_body rs)), w') \<and> requests w' = Suc (requests w)"
  by (rule http_do_obtain [of E rq w]) (use assms in \<open>simp add: do_prove_request_def\<close>)

lemma submit_unencrypted_reply:
  assumes "marshal_proving_request pr = Some body" and "\<not> url_error E (base @ ''/prove'')"
    and "respond E (hist w) (prove_request pc jwt base body) = Reply rs"
  shows "\<exists>w'. submit_unencrypted E pc c jwt base pr w =
    (Inr (handle_proving_response (rs_status rs) (rs_body rs)), w') \<and> requests w' = Suc (requests w)"
  using assms do_prove_reply [OF assms(3)]
  by (simp add: submit_unencrypted_def Let_def prove_request_def)

lemma handle_failure:
  "s \<noteq> 200 \<Longrightarrow> s \<noteq> 201 \<Longrightarrow> handle_proving_response s b = failed_result s (extract_err_msg b s)"
  by (simp add: handle_proving_response_def)

lemma GetJWT_fresh:
  "pc_jwt pc \<noteq> [] \<Longrightarrow> clock w < pc_jwt_exp pc - jwt_buffer_duration \<Longrightarrow>
     GetJWT E pc c w = ((Inr (pc_jwt pc), pc), w)"
  by (simp add: GetJWT_def)

text \<open>When the prover keeps answering 500, a plain submission with a valid cached JWT makes exactly
  \<open>maxRetries + 1\<close> attempts and then reports the status 503 with the text "max retries exceeded": the
  status and the message the service sent are lost.\<close>

theorem exhausted_reports_503:
  assumes "pc_jwt pc \<noteq> []" and "clock w < pc_jwt_exp pc - jwt_buffer_duration"
    and "\<not> dp_privacy params" and "dp_url params = []" and "cancel_at c = None"
    and "marshal_proving_request (dp_request params) = Some body"
    and "\<not> url_error E (pc_prover_base pc @ ''/prove'')"
    and "\<forall>h. \<exists>rs. respond E h (prove_request pc (pc_jwt pc) (pc_prover_base pc) body) = Reply rs \<and>
      rs_status rs = 500"
  shows "\<exists>w'. SubmitProvingRequestSafe E B pc c params w =
      ((Inr \<lparr>pres_ok = False, pres_data = None, pres_status = 503,
        pres_error = Some \<lparr>pe_message = ''max retries exceeded''\<rparr>\<rparr>, pc), w') \<and>
    requests w' = requests w + nat (pc_max_retries pc + 1)"
proof -
  have "\<exists>w'. submit_attempt E B pc c (pc_jwt pc) (pc_prover_base pc) params k v = (Again (), w') \<and>
      requests w' = Suc (requests v)" for k v
  proof -
    obtain u where b: "backoff_wait E c (pc_base_delay pc) k v = (None, u)" "requests u = requests v"
      using wait_select_background [OF assms(5)] requests_backoff_wait [of E c "pc_base_delay pc" k v]
      by (cases "backoff_wait E c (pc_base_delay pc) k v")
        (auto simp: backoff_wait_def split: if_splits dest: arg_cong [where f = fst])
    obtain rs where rs: "respond E (hist u) (prove_request pc (pc_jwt pc) (pc_prover_base pc) body) = Reply rs"
        "rs_status rs = 500"
      using assms(8) by blast
    obtain w' where "submit_unencrypted E pc c (pc_jwt pc) (pc_prover_base pc) (dp_request params) u =
        (Inr (handle_proving_response (rs_status rs) (rs_body rs)), w')" "requests w' = Suc (requests u)"
      using submit_unencrypted_reply [OF assms(6,7) rs(1)] by blast
    with b rs(2) assms(3) show ?thesis
      by (simp add: submit_attempt_def handle_failure failed_result_def)
  qed
  then obtain w' where "retry (submit_attempt E B pc c (pc_jwt pc) (pc_prover_base pc) params)
      (\<lambda>_. Inr retries_exceeded) (attempts (pc_max_retries pc)) 0 () w = (Inr retries_exceeded, w')"
      "requests w' = requests w + attempts (pc_max_retries pc)"
    using retry_all_fail by blast
  then show ?thesis
    using assms(1,2,4)
    by (simp add: SubmitProvingRequestSafe_def Let_def GetJWT_fresh attempts_def
        retries_exceeded_def failed_result_def)
qed

definition logged_in :: provable_client where
  "logged_in = sample_dps\<lparr>pc_jwt := ''tok'', pc_jwt_exp := hour\<rparr>"

definition sample_params :: delegated_params where
  "sample_params = \<lparr>dp_request = \<lparr>pr_authorization = Some ''{}'', pr_fee_authorization = None,
     pr_broadcast = True\<rparr>, dp_privacy = False, dp_url = []\<rparr>"

definition sample_body :: string where
  "sample_body = [CHR ''{''] @ quote ''authorization'' @ '':{},'' @ quote ''fee_authorization'' @
     '':null,'' @ quote ''broadcast'' @ '':true}''"

lemma sample_marshal: "marshal_proving_request (dp_request sample_params) = Some sample_body"
  by code_simp

lemma logged_in_fresh:
  "pc_jwt logged_in \<noteq> []" "clock start_world < pc_jwt_exp logged_in - jwt_buffer_duration"
  by (simp_all add: logged_in_def sample_dps_def start_world_def jwt_buffer_duration_def hour_def
      minute_def second_def)

theorem exhausted_reports_503_witness:
  "\<exists>w'. SubmitProvingRequestSafe (dps_env ''tok'' 500 ''out of memory'') toy_box logged_in background
      sample_params start_world = ((Inr \<lparr>pres_ok = False, pres_data = None, pres_status = 503,
        pres_error = Some \<lparr>pe_message = ''max retries exceeded''\<rparr>\<rparr>, logged_in), w') \<and>
    requests w' = requests start_world + nat (pc_max_retries logged_in + 1)"
  by (rule exhausted_reports_503 [OF logged_in_fresh _ _ _ sample_marshal])
    (simp_all add: sample_params_def background_def dps_env_def quiet_env_def)

text \<open>Any other failure status is reported as it is and at once: with a valid cached JWT a plain
  submission answered with a status outside 200, 201, 500, 503 makes one attempt and returns that
  status with the service's message.\<close>

theorem definitive_failure_reported:
  assumes "pc_jwt pc \<noteq> []" and "clock w < pc_jwt_exp pc - jwt_buffer_duration"
    and "\<not> dp_privacy params" and "dp_url params = []" and "0 \<le> pc_max_retries pc"
    and "marshal_proving_request (dp_request params) = Some body"
    and "\<not> url_error E (pc_prover_base pc @ ''/prove'')"
    and "respond E (hist w) (prove_request pc (pc_jwt pc) (pc_prover_base pc) body) = Reply rs"
    and "rs_status rs \<notin> {200, 201, 500, 503}"
  shows "\<exists>w'. SubmitProvingRequestSafe E B pc c params w =
      ((Inr \<lparr>pres_ok = False, pres_data = None, pres_status = rs_status rs,
        pres_error = Some \<lparr>pe_message = extract_err_msg (rs_body rs) (rs_status rs)\<rparr>\<rparr>, pc), w') \<and>
    requests w' = requests w + 1"
proof -
  obtain w' where "submit_unencrypted E pc c (pc_jwt pc) (pc_prover_base pc) (dp_request params) w =
      (Inr (handle_proving_response (rs_status rs) (rs_body rs)), w')" "requests w' = Suc (requests w)"
    using submit_unencrypted_reply [OF assms(6-8)] by blast
  with assms show ?thesis
    by (simp add: SubmitProvingRequestSafe_def Let_def GetJWT_fresh attempts_def Suc_nat_eq_nat_zadd1
        [symmetric] add.commute submit_attempt_def backoff_wait_def handle_failure failed_result_def)
qed

theorem definitive_failure_reported_witness:
  "\<exists>w'. SubmitProvingRequestSafe (dps_env ''tok'' 400 ''bad request'') toy_box logged_in background
      sample_params start_world = ((Inr \<lparr>pres_ok = False, pres_data = None, pres_status = 400,
        pres_error = Some \<lparr>pe_message = ''bad request''\<rparr>\<rparr>, logged_in), w') \<and>
    requests w' = requests start_world + 1"
proof -
  let ?rs = "\<lparr>rs_status = 400, rs_headers = [(''Authorization'', ''tok'')], rs_body = ''bad request''\<rparr>"
  have m: "extract_err_msg ''bad request'' 400 = ''bad request''" by code_simp
  have "\<exists>w'. SubmitProvingRequestSafe (dps_env ''tok'' 400 ''bad request'') toy_box logged_in background
      sample_params start_world = ((Inr \<lparr>pres_ok = False, pres_data = None, pres_status = rs_status ?rs,
        pres_error = Some \<lparr>pe_message = extract_err_msg (rs_body ?rs) (rs_status ?rs)\<rparr>\<rparr>, logged_in), w') \<and>
    requests w' = requests start_world + 1"
    by (rule definitive_failure_reported [OF logged_in_fresh _ _ _ sample_marshal])
      (simp_all add: sample_params_def dps_env_def quiet_env_def logged_in_def sample_dps_def)
  then show ?thesis by (simp add: m)
qed

text \<open>A plain submission with a given JWT succeeds exactly when the one request it sends is answered
  with 200 or 201 and a body that decodes, which is then the result; every other status is an error
  that \<open>errors.Is\<close> recognises as \<open>ErrProvingFailed\<close>.\<close>

theorem prove_with_jwt_outcome:
  assumes "marshal_proving_request pr = Some body" and "\<not> url_error E (pc_prover_base pc @ ''/prove'')"
    and "respond E (hist w) (prove_request pc jwt (pc_prover_base pc) body) = out"
  shows "(\<forall>d. fst (ProveWithJWT E pc c jwt pr w) = Inr d \<longleftrightarrow>
      (\<exists>rs p. out = Reply rs \<and> rs_status rs \<in> {200, 201} \<and>
         unmarshal dec_response (rs_body rs) = Some p \<and> d = Some p)) \<and>
    (\<forall>rs e. out = Reply rs \<longrightarrow> fst (ProveWithJWT E pc c jwt pr w) = Inl e \<longrightarrow>
       err_is e ErrProvingFailed)"
proof -
  obtain v where h: "http_do E (prove_request pc jwt (pc_prover_base pc) body) w = (out, v)"
    by (rule http_do_obtain [of E "prove_request pc jwt (pc_prover_base pc) body" w])
      (use assms(3) in auto)
  then have "submit_unencrypted E pc c jwt (pc_prover_base pc) pr w =
      do_prove_request E (prove_request pc jwt (pc_prover_base pc) body) w"
    using assms(1,2) by (simp add: submit_unencrypted_def Let_def prove_request_def)
  with h show ?thesis
    by (cases out) (auto simp: ProveWithJWT_def then_io_def do_prove_request_def
        handle_proving_response_def result_of_def failed_result_def split: option.splits)
qed

theorem prove_with_jwt_outcome_witness:
  "fst (ProveWithJWT (dps_env ''tok'' 200 ''{}'') logged_in background ''tok'' (dp_request sample_params)
     start_world) = Inr (Some zero_response)"
proof -
  let ?E = "dps_env ''tok'' 200 ''{}''"
  let ?rs = "\<lparr>rs_status = 200, rs_headers = [(''Authorization'', ''tok'')], rs_body = ''{}''\<rparr>"
  have "unmarshal dec_response ''{}'' = Some zero_response" by code_simp
  moreover have "respond ?E (hist start_world)
      (prove_request logged_in ''tok'' (pc_prover_base logged_in) sample_body) = Reply ?rs"
    by (simp add: dps_env_def)
  ultimately show ?thesis
    using prove_with_jwt_outcome [OF sample_marshal, of ?E logged_in start_world "''tok''" "Reply ?rs"
        background]
    by (simp add: dps_env_def quiet_env_def)
qed

section \<open>The encrypted flow\<close>

lemma do_prove_Inr:
  assumes "do_prove_request E rq w = (Inr r, w')"
  obtains rs where "hist w' = Ev_Http rq (Reply rs) # hist w" and "respond E (hist w) rq = Reply rs"
    and "r = handle_proving_response (rs_status rs) (rs_body rs)"
  using assms
  by (cases rule: http_do_obtain [of E rq w]) (auto simp: do_prove_request_def split: http_outcome.splits)

lemma submit_encryptedE:
  assumes "submit_encrypted E B pc c jwt base pr w = (Inr r, w')"
  obtains pk v b64 u pr_bytes ct x where "get_public_key E pc c jwt base w = (Inr pk, v)"
    and "ffi_proving_request_to_bytes E (raw_string (pr_authorization pr))
      (raw_string (pr_fee_authorization pr)) (pr_broadcast pr) v = (Inr b64, u)"
    and "base64_decode b64 = Some pr_bytes"
    and "encrypt_proving_request E B (pk_public_key pk) pr_bytes u = (Inr ct, x)"
    and "do_prove_request E (encrypted_prove_request pc jwt base
      (marshal_encrypted_request \<lparr>enc_key_id = pk_key_id pk, enc_ciphertext = ct\<rparr>)) x = (Inr r, w')"
  using assms unfolding submit_encrypted_def
  by (elim then_io_Inr) (auto split: option.splits if_splits simp: submit_sealed_def Let_def
      elim!: then_io_Inr)

text \<open>In the encrypted flow the prover can read the request and the wire carries nothing else of it.
  The POST that was sent last has as its body the key id and a ciphertext only, and for a public key
  that belongs to the secret key \<open>rsk\<close> that ciphertext is base64 of a sealed box which opens to the
  bytes the library serialised the request to.\<close>

theorem encrypted_submission_readable:
  assumes "submit_encrypted E B pc c jwt base pr w = (Inr r, w')" and "box_ok B"
  shows "\<exists>pk v b64 pr_bytes ct out.
    fst (get_public_key E pc c jwt base w) = Inr pk \<and>
    fst (ffi_proving_request_to_bytes E (raw_string (pr_authorization pr))
      (raw_string (pr_fee_authorization pr)) (pr_broadcast pr) v) = Inr b64 \<and>
    base64_decode b64 = Some pr_bytes \<and>
    hd (hist w') = Ev_Http (encrypted_prove_request pc jwt base
      (marshal_encrypted_request \<lparr>enc_key_id = pk_key_id pk, enc_ciphertext = ct\<rparr>)) out \<and>
    (\<forall>rsk. hex_decode (pk_public_key pk) = Some (box_public B rsk) \<longrightarrow>
      (\<exists>sealed. base64_decode ct = Some sealed \<and>
         sealed_box_decrypt B (box_public B rsk) rsk sealed = Inr pr_bytes))"
proof -
  obtain pk v b64 u pr_bytes ct x where pk: "get_public_key E pc c jwt base w = (Inr pk, v)"
    and b64: "ffi_proving_request_to_bytes E (raw_string (pr_authorization pr))
      (raw_string (pr_fee_authorization pr)) (pr_broadcast pr) v = (Inr b64, u)"
    and dec: "base64_decode b64 = Some pr_bytes"
    and ct: "encrypt_proving_request E B (pk_public_key pk) pr_bytes u = (Inr ct, x)"
    and post: "do_prove_request E (encrypted_prove_request pc jwt base
      (marshal_encrypted_request \<lparr>enc_key_id = pk_key_id pk, enc_ciphertext = ct\<rparr>)) x = (Inr r, w')"
    using assms(1) by (rule submit_encryptedE)
  obtain rs where "hist w' = Ev_Http (encrypted_prove_request pc jwt base
      (marshal_encrypted_request \<lparr>enc_key_id = pk_key_id pk, enc_ciphertext = ct\<rparr>)) (Reply rs) # hist x"
    using post by (rule do_prove_Inr)
  moreover have "\<exists>sealed. base64_decode ct = Some sealed \<and>
      sealed_box_decrypt B (box_public B rsk) rsk sealed = Inr pr_bytes"
    if "hex_decode (pk_public_key pk) = Some (box_public B rsk)" for rsk
    by (rule encrypt_proving_request_opens [OF assms(2) that ct])
  ultimately show ?thesis
    using pk b64 dec by (metis fst_conv list.sel(1))
qed

definition sample_hex :: string where
  "sample_hex = concat (replicate 32 ''61'')"

definition sample_pubkey_json :: string where
  "sample_pubkey_json = [CHR ''{''] @ quote ''key_id'' @ '':'' @ quote ''k1'' @ '','' @
     quote ''public_key'' @ '':'' @ quote sample_hex @ ''}''"

definition sealed_env :: env where
  "sealed_env = quiet_env\<lparr>
     respond := (\<lambda>_ rq. Reply \<lparr>rs_status = 200, rs_headers = [],
       rs_body = (if rq_method rq = ''GET'' then sample_pubkey_json else ''{}'')\<rparr>),
     ffi := (\<lambda>_ _. Some ''AAEC'')\<rparr>"

theorem encrypted_submission_readable_witness:
  "\<exists>r w'. submit_encrypted sealed_env toy_box logged_in background ''tok'' ''https://dps''
      (dp_request sample_params) start_world = (Inr r, w') \<and>
    (\<exists>ct out. hd (hist w') = Ev_Http (encrypted_prove_request logged_in ''tok'' ''https://dps''
      (marshal_encrypted_request \<lparr>enc_key_id = ''k1'', enc_ciphertext = ct\<rparr>)) out)"
proof -
  let ?pk = "\<lparr>pk_key_id = ''k1'', pk_public_key = sample_hex\<rparr>"
  have dec: "unmarshal dec_pubkey sample_pubkey_json = Some ?pk" by code_simp
  have resp: "unmarshal dec_response ''{}'' = Some zero_response" by code_simp
  have roe: "result_or_error (Some ''AAEC'') = Inr ''AAEC''" by code_simp
  have b64: "base64_decode ''AAEC'' = Some [CHR 0x00, CHR 0x01, CHR 0x02]" by code_simp
  have hx: "hex_decode sample_hex = Some (replicate 32 (CHR ''a''))" by code_simp
  have pub: "\<exists>v. get_public_key sealed_env logged_in background ''tok'' ''https://dps'' start_world =
      (Inr ?pk, v)"
    by (simp add: get_public_key_def Let_def sealed_env_def quiet_env_def http_do_def pubkey_request_def dec)
  have ser: "ffi_proving_request_to_bytes sealed_env a f b v = (Inr ''AAEC'', log_event
      (Ev_Ffi (C_proving_request_to_bytes (c_string a) (if f \<noteq> [] then Some (c_string f) else None) b)) v)"
    for a f b v
    by (simp add: ffi_proving_request_to_bytes_def bridge_eq sealed_env_def roe)
  have enc: "encrypt_proving_request sealed_env toy_box sample_hex d v =
      (Inr (base64_encode (replicate 32 (CHR ''r'') @ replicate 16 (CHR ''t'') @ d)),
       log_event (Ev_Rand 32) v)" for d v
    using hx by (simp add: encrypt_proving_request_def sealed_box_encrypt_def generate_key_eq
        sealed_env_def quiet_env_def toy_box_def)
  have sub: "fst (submit_sealed sealed_env logged_in ''tok'' ''https://dps'' k ct v) =
      Inr (handle_proving_response 200 ''{}'')" for k ct v
    by (simp add: submit_sealed_def Let_def do_prove_request_def sealed_env_def quiet_env_def
        http_do_def encrypted_prove_request_def)
  obtain v where v: "get_public_key sealed_env logged_in background ''tok'' ''https://dps'' start_world =
      (Inr ?pk, v)" using pub by blast
  obtain r w' where s: "submit_encrypted sealed_env toy_box logged_in background ''tok'' ''https://dps''
      (dp_request sample_params) start_world = (Inr r, w')"
    using sub unfolding submit_encrypted_def
    by (simp add: then_io_def v ser b64 enc) (metis eq_fst_iff)
  show ?thesis
    using s encrypted_submission_readable [OF s toy_box_ok] v by auto
qed

section \<open>What a successful submission rests on\<close>

text \<open>A reply of the proving service that hands over the response \<open>p\<close>.\<close>

definition proved_by :: "env \<Rightarrow> history \<Rightarrow> http_request \<Rightarrow> http_response \<Rightarrow> proving_response \<Rightarrow> bool" where
  "proved_by E h rq rs p = (respond E h rq = Reply rs \<and> rq_method rq = ''POST'' \<and> rs_status rs \<in> {200, 201} \<and>
     unmarshal dec_response (rs_body rs) = Some p)"

lemma handle_response_ok:
  "pres_ok (handle_proving_response st body) \<Longrightarrow> st \<in> {200, 201} \<and>
     pres_data (handle_proving_response st body) = unmarshal dec_response body \<and>
     unmarshal dec_response body \<noteq> None"
  by (auto simp: handle_proving_response_def failed_result_def split: if_splits option.splits)

lemma do_prove_ok:
  assumes "do_prove_request E rq w = (Inr r, w')" and "pres_ok r" and "rq_method rq = ''POST''"
  shows "\<exists>rs p h. hist w' = Ev_Http rq (Reply rs) # h \<and> proved_by E h rq rs p \<and> pres_data r = Some p"
  using assms(1)
proof (rule do_prove_Inr)
  fix rs
  assume "hist w' = Ev_Http rq (Reply rs) # hist w" "respond E (hist w) rq = Reply rs"
    "r = handle_proving_response (rs_status rs) (rs_body rs)"
  with assms(2,3) handle_response_ok [of "rs_status rs" "rs_body rs"] show ?thesis
    by (auto simp: proved_by_def)
qed

lemma submit_attempt_ok:
  assumes "submit_attempt E B pc c jwt base params k w = (Stop (Inr r), w')" and "pres_ok r"
  shows "\<exists>rq rs p h. hist w' = Ev_Http rq (Reply rs) # h \<and> proved_by E h rq rs p \<and> pres_data r = Some p"
proof -
  obtain w1 where "(if dp_privacy params
      then submit_encrypted E B pc c jwt base (dp_request params)
      else submit_unencrypted E pc c jwt base (dp_request params)) w1 = (Inr r, w')"
    using assms(1) by (auto simp: submit_attempt_def split: prod.splits option.splits sum.splits if_splits)
  then obtain rq x where "do_prove_request E rq x = (Inr r, w')" and "rq_method rq = ''POST''"
    by (auto simp: submit_unencrypted_def Let_def prove_request_def encrypted_prove_request_def
        elim!: submit_encryptedE split: if_splits option.splits)
  from do_prove_ok [OF this(1) assms(2) this(2)] show ?thesis by blast
qed

lemma submission_ok:
  assumes "SubmitProvingRequest E B pc c params w = ((Inr d, pc'), w')"
  shows "\<exists>rq rs p h. hist w' = Ev_Http rq (Reply rs) # h \<and> proved_by E h rq rs p \<and> d = Some p"
proof -
  obtain r where s: "SubmitProvingRequestSafe E B pc c params w = ((Inr r, pc'), w')"
    and r: "pres_ok r" "d = pres_data r"
    using assms by (auto simp: SubmitProvingRequest_def result_of_def split: prod.splits sum.splits if_splits)
  obtain jwt base w1 where "retry (submit_attempt E B pc' c jwt base params) (\<lambda>_. Inr retries_exceeded)
      (attempts (pc_max_retries pc')) 0 () w1 = (Inr r, w')"
    using s by (rule SafeE) auto
  then obtain k v where "submit_attempt E B pc' c jwt base params k v = (Stop (Inr r), w')"
    using r(1) by (auto dest: submit_retry.retry_ends simp: retries_exceeded_def failed_result_def)
  from submit_attempt_ok [OF this r(1)] r(2) show ?thesis by auto
qed

end
