(* ===== verification/Program_Manager.thy ===== *)
theory Program_Manager
  imports Authorization_Builder Provable_Client Account
begin

text \<open>
  The program manager (\<open>program_manager.go\<close>), the SDK's main entry point: account, network client,
  proving service and program cache in one value, the option functions of an execution, and the
  operations that authorize, prove and broadcast. A method that changes the manager (its program
  cache, its JWT cache) returns it updated. An operation that may not return is \<open>None\<close> then.
  \<open>ExecuteBatch\<close> is in \<open>Execute_Batch\<close>. The key cache is stored and never used by the code.
\<close>

section \<open>Construction\<close>

record program_manager_options =
  pmo_host :: string
  pmo_network :: network
  pmo_private_key :: string
  pmo_provable :: "provable_config option"
  pmo_http_client :: "http_client option"
  pmo_key_cache :: "nat option"

record program_manager =
  pm_account :: "account option"
  pm_network_client :: network_client
  pm_provable_client :: "provable_client option"
  pm_network :: network
  pm_program_cache :: "string \<rightharpoonup> string"
  pm_key_cache :: "nat option"

definition default_host :: string where
  "default_host = ''https://api.explorer.provable.com/v2''"

definition pm_init_account ::
  "env \<Rightarrow> string \<Rightarrow> state \<Rightarrow> account option result \<times> state" where
  "pm_init_account E sk s =
     (if sk = [] then (Inr None, s)
      else
        (case account_from_private_key E sk s of
           (Inl e, s') \<Rightarrow> (Inl (Wrapf ''init account'' e), s')
         | (Inr a, s') \<Rightarrow> (Inr (Some a), s')))"

definition fill_network :: "network \<Rightarrow> provable_config \<Rightarrow> provable_config" where
  "fill_network net cfg = (if cfg_network cfg = [] then cfg\<lparr>cfg_network := net\<rparr> else cfg)"

text \<open>
  The options hold a pointer to the caller's \<open>ProvableConfig\<close>, whose network is filled in: the second
  component of the result is what that pointer shows afterwards.
\<close>

definition NewProgramManager ::
  "env \<Rightarrow> program_manager_options \<Rightarrow> state \<Rightarrow>
    (program_manager result \<times> provable_config option) \<times> state" where
  "NewProgramManager E opts s =
     (let host = (if pmo_host opts = [] then default_host else pmo_host opts);
          net = (if pmo_network opts = [] then TestnetV0 else pmo_network opts);
          nc = NewNetworkClient host net
            (case pmo_http_client opts of None \<Rightarrow> [] | Some h \<Rightarrow> [WithHTTPClient h])
      in case pm_init_account E (pmo_private_key opts) s of
           (Inl e, s1) \<Rightarrow> ((Inl e, pmo_provable opts), s1)
         | (Inr acct, s1) \<Rightarrow>
             (let pm = (\<lambda>pc. \<lparr>pm_account = acct, pm_network_client = nc, pm_provable_client = pc,
                pm_network = net, pm_program_cache = Map.empty, pm_key_cache = pmo_key_cache opts\<rparr>)
              in case pmo_provable opts of
                   None \<Rightarrow> ((Inr (pm None), None), s1)
                 | Some cfg \<Rightarrow>
                     (case NewProvableClient (fill_network net cfg) of
                        Inl e \<Rightarrow>
                          ((Inl (Wrapf ''init provable client'' e), Some (fill_network net cfg)), s1)
                      | Inr pc \<Rightarrow> ((Inr (pm (Some pc)), Some (fill_network net cfg)), s1))))"

definition PM_Account :: "program_manager \<Rightarrow> account option" where "PM_Account pm = pm_account pm"

definition SetAccount :: "account option \<Rightarrow> program_manager \<Rightarrow> program_manager" where
  "SetAccount a pm = pm\<lparr>pm_account := a\<rparr>"

definition PM_NetworkClient :: "program_manager \<Rightarrow> network_client" where
  "PM_NetworkClient pm = pm_network_client pm"

definition PM_ProvableClient :: "program_manager \<Rightarrow> provable_client option" where
  "PM_ProvableClient pm = pm_provable_client pm"

section \<open>Options of an execution\<close>

type_synonym execute_option = "proving_request_options \<Rightarrow> proving_request_options"

text \<open>The variadic argument is a slice: nil (\<open>None\<close>) in a call without inputs.\<close>

definition WithInputs :: "string list option \<Rightarrow> execute_option" where
  "WithInputs inputs opts = opts\<lparr>po_inputs := inputs\<rparr>"

definition WithPrivateKey :: "string \<Rightarrow> execute_option" where
  "WithPrivateKey pk opts = opts\<lparr>po_private_key := pk\<rparr>"

definition WithBroadcast :: "bool \<Rightarrow> execute_option" where
  "WithBroadcast b opts = opts\<lparr>po_broadcast := b\<rparr>"

definition WithDPSPrivacy :: "bool \<Rightarrow> execute_option" where
  "WithDPSPrivacy b opts = opts\<lparr>po_dps_privacy := b\<rparr>"

definition WithProverURL :: "string \<Rightarrow> execute_option" where
  "WithProverURL url opts = opts\<lparr>po_prover_url := url\<rparr>"

definition apply_options :: "execute_option list \<Rightarrow> execute_option" where
  "apply_options os opts = fold (\<lambda>opt opts. opt opts) os opts"

definition call_options ::
  "string \<Rightarrow> string \<Rightarrow> string list option \<Rightarrow> bool \<Rightarrow> proving_request_options" where
  "call_options program function_name inputs broadcast =
     \<lparr>po_program_name = program, po_function_name = function_name, po_inputs = inputs,
      po_broadcast = broadcast, po_dps_privacy = False, po_private_key = [], po_prover_url = []\<rparr>"

section \<open>Authorizing\<close>

type_synonym 'a pm_result = "(('a result \<times> program_manager) \<times> state) option"

definition signing_key :: "program_manager \<Rightarrow> proving_request_options \<Rightarrow> mem \<Rightarrow> string" where
  "signing_key pm opts m =
     (if po_private_key opts \<noteq> [] then po_private_key opts
      else (case pm_account pm of None \<Rightarrow> [] | Some a \<Rightarrow> PrivateKey m a))"

definition PM_BuildAuthorization ::
  "env \<Rightarrow> program_manager \<Rightarrow> ctx \<Rightarrow> proving_request_options \<Rightarrow> state \<Rightarrow> authorization pm_result" where
  "PM_BuildAuthorization E pm c opts s =
     (let private_key = signing_key pm opts (st_mem s)
      in if private_key = [] then Some ((Inl ErrNoPrivateKey, pm), s)
         else
           (case BuildAuthorizationWithCache E (pm_network_client pm) c
              ((call_options (po_program_name opts) (po_function_name opts) (po_inputs opts) False)
                 \<lparr>po_private_key := private_key\<rparr>)
              (Some (pm_program_cache pm), st_world s) of
              None \<Rightarrow> None
            | Some (r, cache, w) \<Rightarrow>
                Some ((r, case cache of None \<Rightarrow> pm | Some m \<Rightarrow> pm\<lparr>pm_program_cache := m\<rparr>),
                  s\<lparr>st_world := w\<rparr>)))"

definition BuildProvingRequestFromAuthorization :: "authorization \<Rightarrow> bool \<Rightarrow> proving_request" where
  "BuildProvingRequestFromAuthorization auth broadcast =
     \<lparr>pr_authorization = auth_raw auth, pr_fee_authorization = None, pr_broadcast = broadcast\<rparr>"

definition BuildProvingRequest ::
  "env \<Rightarrow> program_manager \<Rightarrow> ctx \<Rightarrow> proving_request_options \<Rightarrow> state \<Rightarrow> proving_request pm_result" where
  "BuildProvingRequest E pm c opts s =
     (case PM_BuildAuthorization E pm c opts s of
        None \<Rightarrow> None
      | Some ((Inl e, pm'), s') \<Rightarrow> Some ((Inl (Wrapf ''build authorization'' e), pm'), s')
      | Some ((Inr auth, pm'), s') \<Rightarrow>
          Some ((Inr \<lparr>pr_authorization = auth_raw auth, pr_fee_authorization = None,
            pr_broadcast = po_broadcast opts\<rparr>, pm'), s'))"

section \<open>Proving\<close>

definition delegated :: "proving_request_options \<Rightarrow> proving_request \<Rightarrow> delegated_params" where
  "delegated opts pr =
     \<lparr>dp_request = pr, dp_privacy = po_dps_privacy opts, dp_url = po_prover_url opts\<rparr>"

text \<open>What the three submitting methods share; \<open>submit\<close> is the client's operation.\<close>

definition with_proving_service ::
  "env \<Rightarrow> program_manager \<Rightarrow> ctx \<Rightarrow> proving_request_options \<Rightarrow>
    (provable_client \<Rightarrow> delegated_params \<Rightarrow> ('a result \<times> provable_client) io) \<Rightarrow> state \<Rightarrow> 'a pm_result"
  where
  "with_proving_service E pm c opts submit s =
     (case pm_provable_client pm of
        None \<Rightarrow> Some ((Inl ErrProvableClientNotConfigured, pm), s)
      | Some pc \<Rightarrow>
          (case BuildProvingRequest E pm c opts s of
             None \<Rightarrow> None
           | Some ((Inl e, pm1), s1) \<Rightarrow> Some ((Inl e, pm1), s1)
           | Some ((Inr pr, pm1), s1) \<Rightarrow>
               (case submit pc (delegated opts pr) (st_world s1) of
                  ((r, pc'), w2) \<Rightarrow>
                    Some ((r, pm1\<lparr>pm_provable_client := Some pc'\<rparr>), s1\<lparr>st_world := w2\<rparr>))))"

definition PM_SubmitProvingRequest ::
  "env \<Rightarrow> box_lib \<Rightarrow> program_manager \<Rightarrow> ctx \<Rightarrow> proving_request_options \<Rightarrow> state \<Rightarrow>
    proving_response option pm_result" where
  "PM_SubmitProvingRequest E B pm c opts s =
     with_proving_service E pm c opts (\<lambda>pc. SubmitProvingRequest E B pc c) s"

definition PM_SubmitProvingRequestSafe ::
  "env \<Rightarrow> box_lib \<Rightarrow> program_manager \<Rightarrow> ctx \<Rightarrow> proving_request_options \<Rightarrow> state \<Rightarrow>
    proving_result pm_result" where
  "PM_SubmitProvingRequestSafe E B pm c opts s =
     with_proving_service E pm c opts (\<lambda>pc. SubmitProvingRequestSafe E B pc c) s"

text \<open>
  The end of \<open>ExecuteViaDPS\<close>. A nil response, which the client never returns without an error, would
  panic.
\<close>

definition broadcast_error :: "broadcast_result \<Rightarrow> sdk_error" where
  "broadcast_error b = Errorf (''broadcast failed: '' @ br_message b @ '' (status '' @
     show_int (br_status_code b) @ '')'')"

definition finish_execution :: "proving_request_options \<Rightarrow> proving_response option \<Rightarrow> string result" where
  "finish_execution opts result =
     (case result of
        None \<Rightarrow> Inl (LibErr ''nil pointer'')
      | Some r \<Rightarrow>
          (case resp_broadcast r of
             Some b \<Rightarrow>
               if po_broadcast opts \<and> br_status_code b \<noteq> 200 then Inl (broadcast_error b)
               else transaction_id r
           | None \<Rightarrow> transaction_id r))"

definition prove_and_finish ::
  "env \<Rightarrow> box_lib \<Rightarrow> ctx \<Rightarrow> proving_request_options \<Rightarrow> provable_client \<Rightarrow> delegated_params \<Rightarrow>
    (string result \<times> provable_client) io" where
  "prove_and_finish E B c opts pc params w =
     (case SubmitProvingRequest E B pc c params w of
        ((Inl e, pc'), w') \<Rightarrow> ((Inl (Wrapf ''prove'' e), pc'), w')
      | ((Inr r, pc'), w') \<Rightarrow> ((finish_execution opts r, pc'), w'))"

definition ExecuteViaDPS ::
  "env \<Rightarrow> box_lib \<Rightarrow> program_manager \<Rightarrow> ctx \<Rightarrow> proving_request_options \<Rightarrow> state \<Rightarrow> string pm_result" where
  "ExecuteViaDPS E B pm c opts s = with_proving_service E pm c opts (prove_and_finish E B c opts) s"

section \<open>Executions\<close>

definition Execute ::
  "env \<Rightarrow> box_lib \<Rightarrow> program_manager \<Rightarrow> ctx \<Rightarrow> string \<Rightarrow> string \<Rightarrow> execute_option list \<Rightarrow> state \<Rightarrow>
    string pm_result" where
  "Execute E B pm c program function_name os =
     ExecuteViaDPS E B pm c (apply_options os (call_options program function_name None False))"

definition ExecuteAndWait ::
  "env \<Rightarrow> box_lib \<Rightarrow> program_manager \<Rightarrow> ctx \<Rightarrow> string \<Rightarrow> string \<Rightarrow> int \<Rightarrow> execute_option list \<Rightarrow> state \<Rightarrow>
    transaction pm_result" where
  "ExecuteAndWait E B pm c program function_name poll_interval os s =
     (case ExecuteViaDPS E B pm c (apply_options os (call_options program function_name None True)) s of
        None \<Rightarrow> None
      | Some ((Inl e, pm'), s') \<Rightarrow> Some ((Inl e, pm'), s')
      | Some ((Inr txid, pm'), s') \<Rightarrow>
          (case WaitForTransaction E (pm_network_client pm') c txid poll_interval (st_world s') of
             None \<Rightarrow> None
           | Some (r, w) \<Rightarrow> Some ((r, pm'), s'\<lparr>st_world := w\<rparr>)))"

definition u64_literal :: "u64 \<Rightarrow> string" where "u64_literal n = show_u64 n @ ''u64''"

definition u8_literal :: "u8 \<Rightarrow> string" where "u8_literal n = show_u8 n @ ''u8''"

definition transfer_public_options :: "string \<Rightarrow> u64 \<Rightarrow> proving_request_options" where
  "transfer_public_options recipient amount =
     call_options ''credits.aleo'' ''transfer_public'' (Some [recipient, u64_literal amount]) True"

definition TransferPublic ::
  "env \<Rightarrow> box_lib \<Rightarrow> program_manager \<Rightarrow> ctx \<Rightarrow> string \<Rightarrow> u64 \<Rightarrow> execute_option list \<Rightarrow> state \<Rightarrow> string pm_result"
  where
  "TransferPublic E B pm c recipient amount os =
     ExecuteViaDPS E B pm c (apply_options os (transfer_public_options recipient amount))"

definition TransferPrivate ::
  "env \<Rightarrow> box_lib \<Rightarrow> program_manager \<Rightarrow> ctx \<Rightarrow> string \<Rightarrow> u64 \<Rightarrow> string \<Rightarrow> execute_option list \<Rightarrow> state \<Rightarrow>
    string pm_result" where
  "TransferPrivate E B pm c recipient amount record_input os =
     ExecuteViaDPS E B pm c (apply_options os
       (call_options ''credits.aleo'' ''transfer_private''
          (Some [record_input, recipient, u64_literal amount]) True))"

definition TransferPublicToPrivate ::
  "env \<Rightarrow> box_lib \<Rightarrow> program_manager \<Rightarrow> ctx \<Rightarrow> string \<Rightarrow> u64 \<Rightarrow> execute_option list \<Rightarrow> state \<Rightarrow> string pm_result"
  where
  "TransferPublicToPrivate E B pm c recipient amount os =
     ExecuteViaDPS E B pm c (apply_options os
       (call_options ''credits.aleo'' ''transfer_public_to_private''
          (Some [recipient, u64_literal amount]) True))"

definition TransferPrivateToPublic ::
  "env \<Rightarrow> box_lib \<Rightarrow> program_manager \<Rightarrow> ctx \<Rightarrow> string \<Rightarrow> u64 \<Rightarrow> string \<Rightarrow> execute_option list \<Rightarrow> state \<Rightarrow>
    string pm_result" where
  "TransferPrivateToPublic E B pm c recipient amount record_input os =
     ExecuteViaDPS E B pm c (apply_options os
       (call_options ''credits.aleo'' ''transfer_private_to_public''
          (Some [record_input, recipient, u64_literal amount]) True))"

definition Join ::
  "env \<Rightarrow> box_lib \<Rightarrow> program_manager \<Rightarrow> ctx \<Rightarrow> string \<Rightarrow> string \<Rightarrow> execute_option list \<Rightarrow> state \<Rightarrow> string pm_result"
  where
  "Join E B pm c record1 record2 os =
     ExecuteViaDPS E B pm c (apply_options os
       (call_options ''credits.aleo'' ''join'' (Some [record1, record2]) True))"

definition Split ::
  "env \<Rightarrow> box_lib \<Rightarrow> program_manager \<Rightarrow> ctx \<Rightarrow> string \<Rightarrow> u64 \<Rightarrow> execute_option list \<Rightarrow> state \<Rightarrow> string pm_result"
  where
  "Split E B pm c rec amount os =
     ExecuteViaDPS E B pm c (apply_options os
       (call_options ''credits.aleo'' ''split'' (Some [rec, u64_literal amount]) True))"

definition BondValidator ::
  "env \<Rightarrow> box_lib \<Rightarrow> program_manager \<Rightarrow> ctx \<Rightarrow> string \<Rightarrow> string \<Rightarrow> u64 \<Rightarrow> u8 \<Rightarrow> execute_option list \<Rightarrow> state \<Rightarrow>
    string pm_result" where
  "BondValidator E B pm c validator withdraw_address amount commission_percent os =
     ExecuteViaDPS E B pm c (apply_options os
       (call_options ''credits.aleo'' ''bond_validator''
          (Some [validator, withdraw_address, u64_literal amount, u8_literal commission_percent]) True))"

definition UnbondValidator ::
  "env \<Rightarrow> box_lib \<Rightarrow> program_manager \<Rightarrow> ctx \<Rightarrow> u64 \<Rightarrow> execute_option list \<Rightarrow> state \<Rightarrow> string pm_result" where
  "UnbondValidator E B pm c amount os =
     ExecuteViaDPS E B pm c (apply_options os
       (call_options ''credits.aleo'' ''unbond_validator'' (Some [u64_literal amount]) True))"

definition claim_unbonded_options :: proving_request_options where
  "claim_unbonded_options = call_options ''credits.aleo'' ''claim_unbond_public'' None True"

definition ClaimUnbonded ::
  "env \<Rightarrow> box_lib \<Rightarrow> program_manager \<Rightarrow> ctx \<Rightarrow> execute_option list \<Rightarrow> state \<Rightarrow> string pm_result" where
  "ClaimUnbonded E B pm c os = ExecuteViaDPS E B pm c (apply_options os claim_unbonded_options)"

definition SetValidatorState ::
  "env \<Rightarrow> box_lib \<Rightarrow> program_manager \<Rightarrow> ctx \<Rightarrow> bool \<Rightarrow> execute_option list \<Rightarrow> state \<Rightarrow> string pm_result" where
  "SetValidatorState E B pm c is_open os =
     ExecuteViaDPS E B pm c (apply_options os
       (call_options ''credits.aleo'' ''set_validator_state'' (Some [show_bool is_open]) True))"

section \<open>Operations passed on to the network client\<close>

definition Broadcast :: "env \<Rightarrow> program_manager \<Rightarrow> ctx \<Rightarrow> raw_message \<Rightarrow> string result io" where
  "Broadcast E pm c tx = SubmitTransaction E (pm_network_client pm) c tx"

definition PM_GetProgram :: "env \<Rightarrow> program_manager \<Rightarrow> ctx \<Rightarrow> string \<Rightarrow> string result io" where
  "PM_GetProgram E pm c pid = GetProgram E (pm_network_client pm) c pid"

definition PM_GetProgramImports ::
  "env \<Rightarrow> program_manager \<Rightarrow> ctx \<Rightarrow> string \<Rightarrow> world \<Rightarrow> ((string \<rightharpoonup> string) result \<times> world) option" where
  "PM_GetProgramImports E pm c source = GetProgramImports E (pm_network_client pm) c source"

definition PM_GetMappingValue ::
  "env \<Rightarrow> program_manager \<Rightarrow> ctx \<Rightarrow> string \<Rightarrow> string \<Rightarrow> string \<Rightarrow> string result io" where
  "PM_GetMappingValue E pm c pid mapping_name key =
     GetMappingValue E (pm_network_client pm) c pid mapping_name key"

section \<open>Properties\<close>

text \<open>C30: The guards of an execution act before anything happens. Without a proving service the result is
  \<open>ErrProvableClientNotConfigured\<close>, and without a private key (in the options or the account)
  \<open>ErrNoPrivateKey\<close>; in both cases the manager, the memory and the world are unchanged, so nothing was
  sent, signed or cached.\<close>

theorem execution_guards:
  "(pm_provable_client pm = None \<longrightarrow>
      ExecuteViaDPS E B pm c opts s = Some ((Inl ErrProvableClientNotConfigured, pm), s)) \<and>
   (pm_provable_client pm \<noteq> None \<and> po_private_key opts = [] \<and> pm_account pm = None \<longrightarrow>
      ExecuteViaDPS E B pm c opts s =
        Some ((Inl (Wrapf ''build authorization'' ErrNoPrivateKey), pm), s) \<and>
      err_is (Wrapf ''build authorization'' ErrNoPrivateKey) ErrNoPrivateKey)"
  by (auto simp: ExecuteViaDPS_def with_proving_service_def BuildProvingRequest_def
      PM_BuildAuthorization_def signing_key_def)

definition bare_manager :: program_manager where
  "bare_manager = \<lparr>pm_account = None, pm_network_client = sample_client, pm_provable_client = None,
     pm_network = TestnetV0, pm_program_cache = Map.empty, pm_key_cache = None\<rparr>"

definition start_state :: state where
  "start_state = \<lparr>st_mem = [], st_world = start_world\<rparr>"

theorem execution_guards_witness:
  "ExecuteViaDPS quiet_env toy_box bare_manager background claim_unbonded_options start_state =
     Some ((Inl ErrProvableClientNotConfigured, bare_manager), start_state) \<and>
   ExecuteViaDPS quiet_env toy_box (bare_manager\<lparr>pm_provable_client := Some logged_in\<rparr>) background
       claim_unbonded_options start_state =
     Some ((Inl (Wrapf ''build authorization'' ErrNoPrivateKey),
       bare_manager\<lparr>pm_provable_client := Some logged_in\<rparr>), start_state)"
  using execution_guards [of bare_manager quiet_env toy_box background claim_unbonded_options start_state]
    execution_guards [of "bare_manager\<lparr>pm_provable_client := Some logged_in\<rparr>" quiet_env toy_box background
      claim_unbonded_options start_state]
  by (simp add: bare_manager_def claim_unbonded_options_def call_options_def)

lemma with_service_ok:
  assumes "with_proving_service E pm c opts submit s = Some ((Inr x, pm'), s')"
  obtains pc pr pm1 s1 pc' w2 where "pm_provable_client pm = Some pc"
    and "BuildProvingRequest E pm c opts s = Some ((Inr pr, pm1), s1)"
    and "submit pc (delegated opts pr) (st_world s1) = ((Inr x, pc'), w2)"
    and "pm' = pm1\<lparr>pm_provable_client := Some pc'\<rparr>" and "s' = s1\<lparr>st_world := w2\<rparr>"
  using assms
  by (auto simp: with_proving_service_def split: option.splits prod.splits sum.splits)

lemma finish_ok:
  assumes "finish_execution opts result = Inr txid"
  obtains r where "result = Some r" and "transaction_id r = Inr txid"
    and "\<And>b. resp_broadcast r = Some b \<Longrightarrow> po_broadcast opts \<Longrightarrow> br_status_code b = 200"
  using assms by (auto simp: finish_execution_def split: option.splits if_splits)

lemma transaction_id_ok:
  "transaction_id r = Inr txid \<Longrightarrow> txid \<noteq> [] \<and>
     unmarshal (dec_one_string ''id'') (raw_string (resp_transaction r)) = Some txid"
  by (auto simp: transaction_id_def split: if_splits option.splits)

lemma execution_backed:
  assumes "ExecuteViaDPS E B pm c opts s = Some ((Inr txid, pm'), s')"
  shows "txid \<noteq> [] \<and>
    (\<exists>rq rs p h. hist (st_world s') = Ev_Http rq (Reply rs) # h \<and> respond E h rq = Reply rs \<and>
      rq_method rq = ''POST'' \<and>
      rs_status rs \<in> {200, 201} \<and> unmarshal dec_response (rs_body rs) = Some p \<and>
      unmarshal (dec_one_string ''id'') (raw_string (resp_transaction p)) = Some txid \<and>
      (\<forall>b. po_broadcast opts \<longrightarrow> resp_broadcast p = Some b \<longrightarrow> br_status_code b = 200)) \<and>
    (\<exists>pc pr pm1 s1. pm_provable_client pm = Some pc \<and>
      BuildProvingRequest E pm c opts s = Some ((Inr pr, pm1), s1))"
proof -
  obtain pc pr pm1 s1 pc' w2 where pc: "pm_provable_client pm = Some pc"
    and built: "BuildProvingRequest E pm c opts s = Some ((Inr pr, pm1), s1)"
    and sub: "prove_and_finish E B c opts pc (delegated opts pr) (st_world s1) = ((Inr txid, pc'), w2)"
    and s': "s' = s1\<lparr>st_world := w2\<rparr>"
    using assms unfolding ExecuteViaDPS_def by (rule with_service_ok) blast
  obtain x where x: "SubmitProvingRequest E B pc c (delegated opts pr) (st_world s1) = ((Inr x, pc'), w2)"
    and fin: "finish_execution opts x = Inr txid"
    using sub by (auto simp: prove_and_finish_def split: prod.splits sum.splits)
  obtain p where p: "x = Some p" "transaction_id p = Inr txid"
    "\<And>b. resp_broadcast p = Some b \<Longrightarrow> po_broadcast opts \<Longrightarrow> br_status_code b = 200"
    using fin by (rule finish_ok) blast
  have "\<exists>rq rs h. hist w2 = Ev_Http rq (Reply rs) # h \<and> proved_by E h rq rs p"
    using submission_ok [OF x] p(1) by auto
  with transaction_id_ok [OF p(2)] p(3) pc built s' show ?thesis
    unfolding proved_by_def by fastforce
qed

text \<open>C1: An execution that returns a transaction id got it from the proving service: the last thing that
  happened is a POST answered with 200 or 201 by a body that decodes to a response whose transaction
  carries this very, nonempty id. If the caller asked for a broadcast and the service reported on it,
  the reported status is 200, so a failed broadcast is never a success; and the authorization that was
  proved had been built before.\<close>

theorem execution_result_backed:
  assumes "ExecuteViaDPS E B pm c opts s = Some ((Inr txid, pm'), s')"
  shows "txid \<noteq> [] \<and>
    (\<exists>rq rs p h. hist (st_world s') = Ev_Http rq (Reply rs) # h \<and> respond E h rq = Reply rs \<and>
      rq_method rq = ''POST'' \<and>
      rs_status rs \<in> {200, 201} \<and> unmarshal dec_response (rs_body rs) = Some p \<and>
      unmarshal (dec_one_string ''id'') (raw_string (resp_transaction p)) = Some txid \<and>
      (\<forall>b. po_broadcast opts \<longrightarrow> resp_broadcast p = Some b \<longrightarrow> br_status_code b = 200)) \<and>
    (\<exists>pc pr pm1 s1. pm_provable_client pm = Some pc \<and>
      BuildProvingRequest E pm c opts s = Some ((Inr pr, pm1), s1))"
  using assms by (rule execution_backed)

text \<open>What a public transfer authorizes is determined by its recipient and amount and nothing else: if
  two transfers hand the library the same inputs, they are to the same recipient and of the same
  amount (for recipients in valid UTF-8), and the program and function are always
  \<open>credits.aleo/transfer_public\<close>.\<close>

theorem transfer_inputs_determined:
  assumes "valid_utf8 r1" and "valid_utf8 r2"
    and "marshal_strings (po_inputs (transfer_public_options r1 a1)) =
      marshal_strings (po_inputs (transfer_public_options r2 a2))"
  shows "r1 = r2 \<and> a1 = a2 \<and>
    po_program_name (transfer_public_options r1 a1) = ''credits.aleo'' \<and>
    po_function_name (transfer_public_options r1 a1) = ''transfer_public''"
proof -
  have "valid_utf8 (u64_literal a)" for a
    using balance_text_ascii [of a] valid_utf8_ascii by (simp add: u64_literal_def balance_text_def)
  then have "valid_strings (Some [r1, u64_literal a1])" "valid_strings (Some [r2, u64_literal a2])"
    using assms(1,2) by (simp_all add: valid_strings_def)
  then have "Some [r1, u64_literal a1] = Some [r2, u64_literal a2]"
    using assms(3) marshal_strings_inj
    by (simp add: transfer_public_options_def call_options_def del: option.inject)
  then show ?thesis
    by (simp add: u64_literal_def show_u64_inj transfer_public_options_def call_options_def)
qed

theorem transfer_inputs_determined_witness:
  "marshal_strings (po_inputs (transfer_public_options ''aleo1a'' 5)) \<noteq>
     marshal_strings (po_inputs (transfer_public_options ''aleo1a'' 6))"
proof
  assume "marshal_strings (po_inputs (transfer_public_options ''aleo1a'' 5)) =
     marshal_strings (po_inputs (transfer_public_options ''aleo1a'' 6))"
  moreover have "valid_utf8 ''aleo1a''" by code_simp
  ultimately have "(5 :: u64) = 6" using transfer_inputs_determined by blast
  then show False by simp
qed

definition tx_json :: string where
  "tx_json = [CHR ''{''] @ quote ''transaction'' @ '':'' @ [CHR ''{''] @ quote ''id'' @ '':'' @
     quote ''at1xyz'' @ ''}}''"

definition exec_env :: env where
  "exec_env = (dps_env ''tok'' 200 tx_json)\<lparr>ffi := (\<lambda>_ _. Some ''{}'')\<rparr>"

definition ready_manager :: program_manager where
  "ready_manager = \<lparr>pm_account = None, pm_network_client = sample_client,
     pm_provable_client = Some logged_in, pm_network = TestnetV0,
     pm_program_cache = [''b.aleo'' \<mapsto> b_source], pm_key_cache = None\<rparr>"

lemma exec_env_authorizes:
  "PM_BuildAuthorization exec_env ready_manager background sample_opts start_state =
     Some ((Inr \<lparr>auth_raw = Some ''{}''\<rparr>, ready_manager), start_state\<lparr>st_world :=
       log_event (Ev_Ffi (C_authorize ''APrivateKey1'' b_source ''main'' ''null'' ''[]'')) start_world\<rparr>)"
proof -
  have r: "resolve_imports_ordered exec_env sample_client background b_source st = Some (Inr [], st)" for st
    using program_imports by (simp add: resolve_imports_ordered_def collect_imports_def collect_skip)
  have roe: "result_or_error (Some ''{}'') = Inr ''{}''" by code_simp
  have c: "c_string ''APrivateKey1'' = ''APrivateKey1''" "c_string b_source = b_source"
    "c_string ''main'' = ''main''" "marshal_strings None = ''null''" "marshal_strings (Some []) = ''[]''"
    "c_string ''null'' = ''null''" "c_string ''[]'' = ''[]''"
    by code_simp+
  show ?thesis
    using r by (simp add: PM_BuildAuthorization_def signing_key_def sample_opts_def call_options_def
        BuildAuthorizationWithCache_def ready_manager_def fetch_hit authorize_def then_io_def
        ffi_authorize_def bridge_eq exec_env_def roe c start_state_def fun_upd_def)
qed

lemma exec_env_executes:
  "\<exists>pm' s'. ExecuteViaDPS exec_env toy_box ready_manager background sample_opts start_state =
     Some ((Inr ''at1xyz'', pm'), s')"
proof -
  let ?w = "log_event (Ev_Ffi (C_authorize ''APrivateKey1'' b_source ''main'' ''null'' ''[]'')) start_world"
  let ?params = "delegated sample_opts (dp_request sample_params)"
  have m: "marshal_proving_request (dp_request ?params) = Some sample_body"
    using sample_marshal by (simp add: delegated_def)
  have dec: "unmarshal dec_response tx_json =
      Some \<lparr>resp_transaction = Some ([CHR ''{''] @ quote ''id'' @ '':'' @ quote ''at1xyz'' @ ''}''),
        resp_broadcast = None\<rparr>" by code_simp
  have id: "unmarshal (dec_one_string ''id'') ([CHR ''{''] @ quote ''id'' @ '':'' @ quote ''at1xyz'' @ ''}'') =
      Some ''at1xyz''" by code_simp
  have f: "clock ?w < pc_jwt_exp logged_in - jwt_buffer_duration"
    using logged_in_fresh(2) by simp
  obtain w' where u: "submit_unencrypted exec_env logged_in background (pc_jwt logged_in)
      (pc_prover_base logged_in) (dp_request ?params) ?w = (Inr (handle_proving_response 200 tx_json), w')"
    using submit_unencrypted_reply [OF m, of exec_env "pc_prover_base logged_in" ?w logged_in
        "pc_jwt logged_in" "\<lparr>rs_status = 200, rs_headers = [(''Authorization'', ''tok'')], rs_body = tx_json\<rparr>"
        background]
    by (auto simp: exec_env_def dps_env_def quiet_env_def)
  have sub: "SubmitProvingRequest exec_env toy_box logged_in background ?params ?w =
      ((Inr (Some \<lparr>resp_transaction = Some ([CHR ''{''] @ quote ''id'' @ '':'' @ quote ''at1xyz'' @ ''}''),
        resp_broadcast = None\<rparr>), logged_in), w')"
    using u dec GetJWT_fresh [OF logged_in_fresh(1) f]
    by (simp add: SubmitProvingRequest_def SubmitProvingRequestSafe_def Let_def submit_attempt_def
        backoff_wait_def delegated_def sample_opts_def handle_proving_response_def result_of_def
        attempts_def logged_in_def sample_dps_def numeral_eq_Suc)
  have b: "BuildProvingRequest exec_env ready_manager background sample_opts start_state =
      Some ((Inr (dp_request sample_params), ready_manager), start_state\<lparr>st_world := ?w\<rparr>)"
    using exec_env_authorizes
    by (simp add: BuildProvingRequest_def sample_params_def sample_opts_def)
  have "transaction_id \<lparr>resp_transaction = Some ([CHR ''{''] @ quote ''id'' @ '':'' @ quote ''at1xyz'' @ ''}''),
        resp_broadcast = None\<rparr> = Inr ''at1xyz''"
    using id by (simp add: transaction_id_def raw_string_def)
  then show ?thesis
    using b sub by (simp add: ExecuteViaDPS_def with_proving_service_def prove_and_finish_def
        finish_execution_def ready_manager_def)
qed

theorem execution_result_backed_witness:
  "\<exists>pm' s' rq rs h. ExecuteViaDPS exec_env toy_box ready_manager background sample_opts start_state =
     Some ((Inr ''at1xyz'', pm'), s') \<and> hist (st_world s') = Ev_Http rq (Reply rs) # h \<and>
     rs_status rs \<in> {200, 201}"
proof -
  obtain pm' s' where e: "ExecuteViaDPS exec_env toy_box ready_manager background sample_opts start_state =
     Some ((Inr ''at1xyz'', pm'), s')" using exec_env_executes by blast
  from execution_result_backed [OF this] e show ?thesis by blast
qed

lemma build_authorization_null_inputs:
  assumes "BuildAuthorizationWithCache E nc c opts st = Some (Inr a, st')" and "po_inputs opts = None"
  obtains h sk src fn imps where
    "is_ok (result_or_error (ffi E h (C_authorize sk src fn ''null'' imps)))"
proof -
  obtain source srcs w2 w3 where "authorize E opts source srcs w2 = (Inr a, w3)"
    using assms(1)
    by (auto simp: BuildAuthorizationWithCache_def split: if_splits option.splits sum.splits prod.splits)
  moreover have "marshal_strings None = ''null''" "c_string ''null'' = ''null''" by code_simp+
  ultimately have "is_ok (result_or_error (ffi E (hist w2) (C_authorize (c_string (po_private_key opts))
      (c_string source) (c_string (po_function_name opts)) ''null'' (marshal_strings (Some srcs)))))"
    using assms(2)
    by (auto simp: authorize_def then_io_def ffi_authorize_def bridge_eq split: sum.splits)
  then show thesis by (rule that)
qed

lemma claim_unbonded_null:
  assumes "ClaimUnbonded E B pm c [] s = Some ((Inr txid, pm'), s')"
  shows "\<exists>h sk src fn imps. is_ok (result_or_error (ffi E h (C_authorize sk src fn ''null'' imps)))"
proof -
  from assms have "with_proving_service E pm c claim_unbonded_options
      (prove_and_finish E B c claim_unbonded_options) s = Some ((Inr txid, pm'), s')"
    by (simp add: ClaimUnbonded_def apply_options_def ExecuteViaDPS_def)
  then obtain pr pm1 s1 where
    "BuildProvingRequest E pm c claim_unbonded_options s = Some ((Inr pr, pm1), s1)"
    by (rule with_service_ok) blast
  then obtain a st' st opts where "BuildAuthorizationWithCache E (pm_network_client pm) c opts st = Some (Inr a, st')"
      and "po_inputs opts = None"
    by (auto simp: BuildProvingRequest_def PM_BuildAuthorization_def claim_unbonded_options_def
        call_options_def Let_def split: if_splits option.splits prod.splits sum.splits)
  then show ?thesis
    by (rule build_authorization_null_inputs) blast
qed

text \<open>\<open>ClaimUnbonded\<close> cannot succeed. It passes nil inputs, which are marshalled as \<open>null\<close>; the library
  parses them as a list of strings and answers with an error, for every key, program and function, so
  without an explicit \<open>WithInputs\<close> option no transaction id is ever returned.\<close>

theorem claim_unbonded_never_succeeds:
  assumes "\<forall>h sk src fn imps. \<not> is_ok (result_or_error (ffi E h (C_authorize sk src fn ''null'' imps)))"
  shows "ClaimUnbonded E B pm c [] s \<noteq> Some ((Inr txid, pm'), s')"
  using claim_unbonded_null assms by blast

definition rejecting_env :: env where
  "rejecting_env = exec_env\<lparr>ffi := (\<lambda>_ _. Some (err_prefix @ ''parse inputs JSON'' @ [CHR 0x22] @ ''}''))\<rparr>"

theorem claim_unbonded_never_succeeds_witness:
  "ClaimUnbonded rejecting_env toy_box ready_manager background [] start_state \<noteq>
     Some ((Inr ''at1xyz'', ready_manager), start_state)"
proof (rule claim_unbonded_never_succeeds)
  have "result_or_error (Some (err_prefix @ ''parse inputs JSON'' @ [CHR 0x22] @ ''}'')) =
      Inl (Errorf ''parse inputs JSON'')" by code_simp
  then show "\<forall>h sk src fn imps. \<not> is_ok (result_or_error
      (ffi rejecting_env h (C_authorize sk src fn ''null'' imps)))"
    by (simp add: rejecting_env_def)
qed

text \<open>A new manager is what its options say: the network defaults to testnet and the host to the public
  explorer, all parts are on the same network, the account (if a key was given) holds exactly that key,
  and there is a proving client if and only if a configuration was given. The caller's configuration is
  changed in one respect: an empty network is filled in.\<close>

theorem manager_construction:
  assumes "NewProgramManager E opts s = ((Inr pm, cfg'), s')"
  shows "pm_network pm = (if pmo_network opts = [] then TestnetV0 else pmo_network opts) \<and>
    nc_network (pm_network_client pm) = pm_network pm \<and>
    nc_host (pm_network_client pm) =
      trim_right_set (if pmo_host opts = [] then default_host else pmo_host opts) ''/'' \<and>
    (pm_account pm = None \<longleftrightarrow> pmo_private_key opts = []) \<and>
    (\<forall>a. pm_account pm = Some a \<longrightarrow> PrivateKey (st_mem s') a = pmo_private_key opts) \<and>
    cfg' = map_option (fill_network (pm_network pm)) (pmo_provable opts) \<and>
    (case cfg' of None \<Rightarrow> pm_provable_client pm = None
     | Some cfg \<Rightarrow> (\<exists>pc. pm_provable_client pm = Some pc \<and> NewProvableClient cfg = Inr pc))"
proof -
  obtain r s1 where a: "pm_init_account E (pmo_private_key opts) s = (r, s1)"
    by (cases "pm_init_account E (pmo_private_key opts) s")
  with assms obtain acct where acct: "r = Inr acct" and s1: "s' = s1"
    by (cases r) (auto simp: NewProgramManager_def Let_def split: option.splits sum.splits)
  have "(acct = None \<longleftrightarrow> pmo_private_key opts = []) \<and>
      (\<forall>x. acct = Some x \<longrightarrow> PrivateKey (st_mem s1) x = pmo_private_key opts)"
    using a acct
    by (auto simp: pm_init_account_def account_from_private_key_def dest: account_from_sk_private_key
        split: if_splits prod.splits sum.splits)
  with assms a acct s1 show ?thesis
    by (auto simp: NewProgramManager_def Let_def NewNetworkClient_def default_network_client_def
        WithHTTPClient_def split: option.splits sum.splits)
qed

definition sample_manager_options :: program_manager_options where
  "sample_manager_options = \<lparr>pmo_host = [], pmo_network = [], pmo_private_key = [],
     pmo_provable = Some (sample_cfg\<lparr>cfg_network := []\<rparr>), pmo_http_client = None, pmo_key_cache = None\<rparr>"

theorem manager_construction_witness:
  "\<exists>pm. NewProgramManager quiet_env sample_manager_options start_state =
     ((Inr pm, Some sample_cfg), start_state) \<and> pm_network pm = ''testnet'' \<and> pm_account pm = None"
proof -
  have fill: "fill_network TestnetV0 (sample_cfg\<lparr>cfg_network := []\<rparr>) = sample_cfg"
    by (simp add: fill_network_def sample_cfg_def TestnetV0_def)
  obtain pc where "NewProvableClient sample_cfg = Inr pc"
    by (simp add: NewProvableClient_def sample_cfg_def)
  then obtain pm where pm: "NewProgramManager quiet_env sample_manager_options start_state =
      ((Inr pm, Some sample_cfg), start_state)"
    by (simp add: NewProgramManager_def sample_manager_options_def pm_init_account_def fill)
  show ?thesis
    using manager_construction [OF pm] pm by (simp add: sample_manager_options_def TestnetV0_def)
qed

end
