(* ===== verification/Manager_Runs.thy ===== *)
theory Manager_Runs
  imports Program_Manager
begin

text \<open>
  A program manager over its lifetime. Its operations, in any order and with the world and the memory
  changing in between, form a step relation on the manager and the state; what holds after every
  sequence of operations is proved by induction over the runs. Every operation but \<open>SetAccount\<close> can
  change only two things of the manager, its program cache and its JWT cache.
\<close>

section \<open>What an operation may change\<close>

text \<open>The proving client without its JWT cache.\<close>

definition same_service :: "provable_client option \<Rightarrow> provable_client option \<Rightarrow> bool" where
  "same_service p q =
     (map_option (\<lambda>pc. pc\<lparr>pc_jwt := [], pc_jwt_exp := 0\<rparr>) p =
      map_option (\<lambda>pc. pc\<lparr>pc_jwt := [], pc_jwt_exp := 0\<rparr>) q)"

lemma same_service_refl [simp]: "same_service p p"
  by (simp add: same_service_def)

lemma same_service_trans: "same_service p q \<Longrightarrow> same_service q r \<Longrightarrow> same_service p r"
  by (simp add: same_service_def)

text \<open>
  \<open>ok\<close> is a condition on the program cache. A manager is a later version of another when it talks to
  the same node and the same proving service, has the same key cache, and keeps \<open>ok\<close>.
\<close>

definition later_version :: "(cache \<Rightarrow> bool) \<Rightarrow> program_manager \<Rightarrow> program_manager \<Rightarrow> bool" where
  "later_version ok pm pm' =
     (pm_network_client pm' = pm_network_client pm \<and> pm_network pm' = pm_network pm \<and>
      pm_key_cache pm' = pm_key_cache pm \<and>
      same_service (pm_provable_client pm) (pm_provable_client pm') \<and>
      (ok (Some (pm_program_cache pm)) \<longrightarrow> ok (Some (pm_program_cache pm'))))"

lemma later_version_refl [simp]: "later_version ok pm pm"
  by (simp add: later_version_def)

lemma later_version_trans:
  "later_version ok p q \<Longrightarrow> later_version ok q r \<Longrightarrow> later_version ok p r"
  by (auto simp: later_version_def intro: same_service_trans)

lemma later_version_jwt:
  assumes "same_service (Some pc) (Some pc')" and "pm_provable_client pm = Some pc"
  shows "later_version ok pm (pm\<lparr>pm_provable_client := Some pc'\<rparr>)"
  using assms by (simp add: later_version_def)

section \<open>Runs\<close>

text \<open>
  The convenience operations (\<open>Execute\<close>, the transfers, bonding, ...) are \<open>ExecuteViaDPS\<close> with options of
  their own. \<open>run_other\<close> is everything that happens outside the manager between two operations.
\<close>

inductive manager_step :: "env \<Rightarrow> box_lib \<Rightarrow> program_manager \<times> state \<Rightarrow> program_manager \<times> state \<Rightarrow> bool"
  for E B where
  run_execute: "ExecuteViaDPS E B pm c opts s = Some ((r, pm'), s') \<Longrightarrow>
    manager_step E B (pm, s) (pm', s')"
| run_execute_wait: "ExecuteAndWait E B pm c program fn poll os s = Some ((t, pm'), s') \<Longrightarrow>
    manager_step E B (pm, s) (pm', s')"
| run_authorize: "PM_BuildAuthorization E pm c opts s = Some ((a, pm'), s') \<Longrightarrow>
    manager_step E B (pm, s) (pm', s')"
| run_build_request: "BuildProvingRequest E pm c opts s = Some ((q, pm'), s') \<Longrightarrow>
    manager_step E B (pm, s) (pm', s')"
| run_submit: "PM_SubmitProvingRequest E B pm c opts s = Some ((d, pm'), s') \<Longrightarrow>
    manager_step E B (pm, s) (pm', s')"
| run_submit_safe: "PM_SubmitProvingRequestSafe E B pm c opts s = Some ((v, pm'), s') \<Longrightarrow>
    manager_step E B (pm, s) (pm', s')"
| run_set_account: "manager_step E B (pm, s) (SetAccount acct pm, s)"
| run_other: "manager_step E B (pm, s) (pm, s')"

section \<open>Every operation makes a later version\<close>

lemma safe_keeps_service:
  assumes "SubmitProvingRequestSafe E B pc c params w = ((r, pc'), w')"
  shows "same_service (Some pc) (Some pc')"
proof -
  obtain x w1 where "GetJWT E pc c w = ((x, pc'), w1)"
    using assms by (rule SafeE) blast+
  then obtain jwt until where "pc' = pc\<lparr>pc_jwt := jwt, pc_jwt_exp := until\<rparr>"
    using GetJWT_keeps by blast
  then show ?thesis by (simp add: same_service_def)
qed

lemma submission_keeps_service:
  assumes "SubmitProvingRequest E B pc c params w = ((r, pc'), w')"
  shows "same_service (Some pc) (Some pc')"
  using assms
  by (auto simp: SubmitProvingRequest_def split: prod.splits sum.splits dest: safe_keeps_service)

lemma prove_and_finish_keeps_service:
  assumes "prove_and_finish E B c opts pc params w = ((r, pc'), w')"
  shows "same_service (Some pc) (Some pc')"
  using assms
  by (auto simp: prove_and_finish_def split: prod.splits sum.splits dest: submission_keeps_service)

text \<open>The contract of the cached fetch, for one condition on the cache.\<close>

locale cache_condition =
  fixes E :: env and nc :: network_client and ok :: "cache \<Rightarrow> bool"
  assumes fetch_keeps: "stateful_fetch (fetch_program_cached E nc c) (\<lambda>st. ok (fst st))"
begin

lemma authorize_version:
  assumes "pm_network_client pm = nc" and "PM_BuildAuthorization E pm c opts s = Some ((r, pm'), s')"
  shows "later_version ok pm pm'"
proof (cases "signing_key pm opts (st_mem s) = []")
  case False
  let ?opts = "(call_options (po_program_name opts) (po_function_name opts) (po_inputs opts) False)
    \<lparr>po_private_key := signing_key pm opts (st_mem s)\<rparr>"
  obtain x cache w where b: "BuildAuthorizationWithCache E nc c ?opts
      (Some (pm_program_cache pm), st_world s) = Some (x, cache, w)"
    and pm': "pm' = (case cache of None \<Rightarrow> pm | Some m \<Rightarrow> pm\<lparr>pm_program_cache := m\<rparr>)"
    using False assms
    by (auto simp: PM_BuildAuthorization_def Let_def split: option.splits prod.splits)
  have "ok cache" if "ok (Some (pm_program_cache pm))"
    using authorization_keeps [OF fetch_keeps _ b] that by simp
  then show ?thesis
    unfolding pm' by (cases cache) (auto simp: later_version_def)
qed (use assms in \<open>simp add: PM_BuildAuthorization_def\<close>)

lemma request_version:
  assumes "pm_network_client pm = nc" and "BuildProvingRequest E pm c opts s = Some ((r, pm'), s')"
  shows "later_version ok pm pm' \<and> pm_provable_client pm' = pm_provable_client pm"
proof -
  obtain x where x: "PM_BuildAuthorization E pm c opts s = Some ((x, pm'), s')"
    using assms(2) by (auto simp: BuildProvingRequest_def split: option.splits prod.splits sum.splits)
  then have "pm_provable_client pm' = pm_provable_client pm"
    by (auto simp: PM_BuildAuthorization_def Let_def split: option.splits prod.splits if_splits)
  with authorize_version [OF assms(1) x] show ?thesis by simp
qed

lemma service_version:
  assumes "pm_network_client pm = nc"
    and "with_proving_service E pm c opts submit s = Some ((r, pm'), s')"
    and "\<And>pc params w x pc' w'. submit pc params w = ((x, pc'), w') \<Longrightarrow> same_service (Some pc) (Some pc')"
  shows "later_version ok pm pm'"
proof (cases "pm_provable_client pm")
  case (Some pc)
  obtain x pm1 s1 where b: "BuildProvingRequest E pm c opts s = Some ((x, pm1), s1)"
    using assms(2) Some
    by (cases "BuildProvingRequest E pm c opts s") (auto simp: with_proving_service_def)
  from request_version [OF assms(1) b]
  have v: "later_version ok pm pm1" "pm_provable_client pm1 = Some pc" using Some by simp_all
  show ?thesis
  proof (cases x)
    case (Inr pr)
    obtain y pc' w2 where s: "submit pc (delegated opts pr) (st_world s1) = ((y, pc'), w2)"
      by (metis surj_pair)
    with assms(2) Some b Inr have "pm' = pm1\<lparr>pm_provable_client := Some pc'\<rparr>"
      by (simp add: with_proving_service_def)
    with later_version_trans [OF v(1) later_version_jwt [OF assms(3) [OF s] v(2)]] show ?thesis by simp
  qed (use assms(2) Some b v in \<open>simp add: with_proving_service_def\<close>)
qed (use assms(2) in \<open>simp add: with_proving_service_def\<close>)

lemma step_version:
  assumes "manager_step E B (pm, s) (pm', s')" and "pm_network_client pm = nc"
  shows "later_version ok pm pm'"
  using assms(1)
proof cases
  case run_execute
  then show ?thesis
    unfolding ExecuteViaDPS_def
    by (rule service_version [OF assms(2)]) (erule prove_and_finish_keeps_service)
next
  case (run_execute_wait c program fn poll os t)
  then obtain r s1 where "ExecuteViaDPS E B pm c
      (apply_options os (call_options program fn None True)) s = Some ((r, pm'), s1)"
    by (auto simp: ExecuteAndWait_def split: option.splits prod.splits sum.splits)
  then show ?thesis
    unfolding ExecuteViaDPS_def
    by (rule service_version [OF assms(2)]) (erule prove_and_finish_keeps_service)
next
  case run_authorize
  then show ?thesis using authorize_version [OF assms(2)] by blast
next
  case run_build_request
  then show ?thesis using request_version [OF assms(2)] by blast
next
  case run_submit
  then show ?thesis
    unfolding PM_SubmitProvingRequest_def
    by (rule service_version [OF assms(2)]) (erule submission_keeps_service)
next
  case run_submit_safe
  then show ?thesis
    unfolding PM_SubmitProvingRequestSafe_def
    by (rule service_version [OF assms(2)]) (erule safe_keeps_service)
qed (simp_all add: SetAccount_def later_version_def)

lemma run_version:
  assumes "(manager_step E B)\<^sup>*\<^sup>* x y" and "pm_network_client (fst x) = nc"
  shows "later_version ok (fst x) (fst y)"
  using assms(1)
proof (induction rule: rtranclp_induct)
  case (step y z)
  then have "pm_network_client (fst y) = nc" using assms(2) by (simp add: later_version_def)
  with step step_version [of B "fst y" "snd y" "fst z" "snd z"] show ?case
    by (auto intro: later_version_trans)
qed simp

end

section \<open>Two conditions on the cache\<close>

text \<open>The cache tells the truth about the deployed programs, and it only grows.\<close>

interpretation truthful: cache_condition E nc
    "\<lambda>cache. (\<forall>c. node_serves E nc c prog) \<and> cache_ok prog cache" for E nc prog
proof (unfold_locales, goal_cases)
  case (1 c st p r st')
  with cached.fetch_inv [of E nc c prog st p r st'] show ?case by blast
qed

interpretation monotone: cache_condition E nc "\<lambda>cache. \<exists>m. cache = Some m \<and> m0 \<subseteq>\<^sub>m m" for E nc m0
  by unfold_locales (rule growing.fetch_inv)

lemma truthful_run:
  assumes "(manager_step E B)\<^sup>*\<^sup>* (pm0, s0) (pm, s)"
    and "\<forall>c. node_serves E (pm_network_client pm0) c prog" and "cache_ok prog (Some (pm_program_cache pm0))"
  shows "cache_ok prog (Some (pm_program_cache pm))"
  using truthful.run_version [OF assms(1), of "pm_network_client pm0" prog] assms(2,3)
  by (simp add: later_version_def)

lemma run_keeps:
  assumes "(manager_step E B)\<^sup>*\<^sup>* (pm0, s0) (pm, s)"
  shows "pm_network_client pm = pm_network_client pm0" and "pm_network pm = pm_network pm0"
    and "same_service (pm_provable_client pm0) (pm_provable_client pm)"
    and "pm_program_cache pm0 \<subseteq>\<^sub>m pm_program_cache pm"
  using monotone.run_version [OF assms, of "pm_network_client pm0" "pm_program_cache pm0"]
  by (simp_all add: later_version_def)

lemma new_manager:
  assumes "NewProgramManager E opts s = ((Inr pm, cfg), s')"
  shows "pm_program_cache pm = Map.empty"
    and "nc_host (pm_network_client pm) =
      trim_right_set (if pmo_host opts = [] then default_host else pmo_host opts) ''/''"
    and "nc_network (pm_network_client pm) = (if pmo_network opts = [] then TestnetV0 else pmo_network opts)"
    and "pm_provable_client pm = None \<longleftrightarrow> pmo_provable opts = None"
  using assms
  by (auto simp: NewProgramManager_def Let_def NewNetworkClient_def default_network_client_def
      WithHTTPClient_def split: prod.splits sum.splits option.splits if_splits)

section \<open>Properties\<close>

text \<open>C13: Whatever sequence of operations a manager goes through after its construction, it talks to the
  node and the network of its options (by default testnet on the public host), and its proving
  service stays configured, or not, as at the start, up to the cached JWT. Its program cache holds,
  if the node consistently serves deployed programs, deployed sources only, and from any moment to
  any later one it only grows.\<close>

theorem manager_lifetime:
  assumes "NewProgramManager E0 opts s0 = ((Inr pm0, cfg), s1)"
    and "(manager_step E B)\<^sup>*\<^sup>* (pm0, s1) (pm1, t1)" and "(manager_step E B)\<^sup>*\<^sup>* (pm1, t1) (pm2, t2)"
    and "\<forall>c. node_serves E (pm_network_client pm0) c prog"
  shows "nc_host (pm_network_client pm2) =
      trim_right_set (if pmo_host opts = [] then default_host else pmo_host opts) ''/'' \<and>
    nc_network (pm_network_client pm2) = (if pmo_network opts = [] then TestnetV0 else pmo_network opts) \<and>
    same_service (pm_provable_client pm0) (pm_provable_client pm2) \<and>
    (pm_provable_client pm2 = None \<longleftrightarrow> pmo_provable opts = None) \<and>
    pm_program_cache pm1 \<subseteq>\<^sub>m pm_program_cache pm2 \<and>
    pm_program_cache pm2 \<subseteq>\<^sub>m prog"
proof -
  have run: "(manager_step E B)\<^sup>*\<^sup>* (pm0, s1) (pm2, t2)" using assms(2,3) by (rule rtranclp_trans)
  have "cache_ok prog (Some (pm_program_cache pm2))"
    by (rule truthful_run [OF run assms(4)]) (simp add: new_manager(1) [OF assms(1)] cache_ok_def)
  then have "pm_program_cache pm2 \<subseteq>\<^sub>m prog" by (force simp: cache_ok_def map_le_def)
  moreover have "pm_provable_client pm2 = None \<longleftrightarrow> pm_provable_client pm0 = None"
    using run_keeps(3) [OF run] by (auto simp: same_service_def)
  ultimately show ?thesis
    using run_keeps [OF run] run_keeps(4) [OF assms(3)] new_manager [OF assms(1)] by simp
qed

text \<open>C6: At any moment in the life of a manager, a successful \<open>BuildAuthorization\<close> asked the library for the
  right thing. If the node consistently serves the deployed programs \<open>prog\<close>, whose imports are acyclic,
  its final event is the call of \<open>authorize\<close> with the caller's private key (the account's, unless the
  options bring one), function name and inputs, with the deployed source of the program and with the
  sources of exactly the programs it depends on, each once.\<close>

theorem manager_authorizes_deployed:
  assumes "NewProgramManager E0 opts0 s0 = ((Inr pm0, cfg), s1)"
    and "(manager_step E B)\<^sup>*\<^sup>* (pm0, s1) (pm, s)"
    and "\<forall>c. node_serves E (pm_network_client pm0) c prog" and "acyclic (dep prog)"
    and "PM_BuildAuthorization E pm c opts s = Some ((Inr a, pm'), s')"
  shows "\<exists>key source ids srcs h. key = signing_key pm opts (st_mem s) \<and> key \<noteq> [] \<and>
    prog (po_program_name opts) = Some source \<and> distinct ids \<and> map prog ids = map Some srcs \<and>
    set ids = (dep prog)\<^sup>* `` imports_of source \<and>
    hist (st_world s') = Ev_Ffi (C_authorize (c_string key) (c_string source)
      (c_string (po_function_name opts)) (marshal_strings (po_inputs opts))
      (marshal_strings (Some srcs))) # h"
proof -
  let ?key = "signing_key pm opts (st_mem s)"
  have serves: "node_serves E (pm_network_client pm) c prog"
    using assms(3) run_keeps(1) [OF assms(2)] by simp
  have ok: "cache_ok prog (Some (pm_program_cache pm))"
    by (rule truthful_run [OF assms(2,3)]) (simp add: new_manager(1) [OF assms(1)] cache_ok_def)
  obtain cache w where key: "?key \<noteq> []"
    and b: "BuildAuthorizationWithCache E (pm_network_client pm) c
      ((call_options (po_program_name opts) (po_function_name opts) (po_inputs opts) False)
        \<lparr>po_private_key := ?key\<rparr>) (Some (pm_program_cache pm), st_world s) = Some (Inr a, cache, w)"
    and w: "st_world s' = w"
    using assms(5)
    by (auto simp: PM_BuildAuthorization_def Let_def split: option.splits prod.splits if_splits)
  obtain source srcs st w2 h where src: "prog (po_program_name opts) = Some source"
    and st: "cache_ok prog (fst st)"
    and res: "resolve_imports_ordered E (pm_network_client pm) c source st = Some (Inr srcs, cache, w2)"
    and h: "hist w = Ev_Ffi (C_authorize (c_string ?key) (c_string source)
      (c_string (po_function_name opts)) (marshal_strings (po_inputs opts))
      (marshal_strings (Some srcs))) # h"
    using authorization_event [OF serves ok b] by (auto simp: call_options_def)
  from resolved_order [OF serves _ assms(4), of "fst st" source "snd st" srcs cache w2] st res
  obtain ids where "distinct ids \<and> map prog ids = map Some srcs \<and>
    set ids = (dep prog)\<^sup>* `` imports_of source" by auto
  with key src h w show ?thesis by metis
qed

section \<open>A concrete manager\<close>

definition node_options :: program_manager_options where
  "node_options = \<lparr>pmo_host = ''https://node/v2/'', pmo_network = TestnetV0, pmo_private_key = [],
     pmo_provable = None, pmo_http_client = None, pmo_key_cache = None\<rparr>"

lemma node_manager:
  "NewProgramManager import_env node_options start_state = ((Inr bare_manager, None), start_state)"
  by (simp add: NewProgramManager_def node_options_def bare_manager_def sample_client_def pm_init_account_def
      TestnetV0_def Let_def)

lemma node_serves_all: "\<forall>c. node_serves import_env (pm_network_client bare_manager) c two_programs"
  by (simp add: bare_manager_def two_programs_served)

lemma first_authorization:
  obtains s' where "PM_BuildAuthorization import_env bare_manager background sample_opts start_state =
     Some ((Inr \<lparr>auth_raw = Some ''{}''\<rparr>, bare_manager\<lparr>pm_program_cache := [''b.aleo'' \<mapsto> b_source]\<rparr>), s')"
proof -
  obtain w1 where "GetProgram import_env sample_client background ''b.aleo'' start_world = (Inr b_source, w1)"
    using import_env_program [of background "''b.aleo''" start_world] by (auto simp: two_programs_def)
  then have f: "fetch_program_cached import_env sample_client background ''b.aleo'' (Some Map.empty, start_world) =
      (Inr b_source, Some [''b.aleo'' \<mapsto> b_source], w1)"
    by (simp add: fetch_program_cached_def)
  have r: "resolve_imports_ordered import_env sample_client background b_source st = Some (Inr [], st)" for st
    using program_imports by (simp add: resolve_imports_ordered_def collect_imports_def collect_skip)
  have "result_or_error (Some ''{}'') = Inr ''{}''" by code_simp
  then show thesis
    using f r that by (simp add: PM_BuildAuthorization_def signing_key_def sample_opts_def call_options_def
        BuildAuthorizationWithCache_def bare_manager_def authorize_def then_io_def ffi_authorize_def
        bridge_eq import_env_def start_state_def)
qed

theorem manager_lifetime_witness:
  "\<exists>pm s. (manager_step import_env toy_box)\<^sup>*\<^sup>* (bare_manager, start_state) (pm, s) \<and>
     pm_program_cache pm = [''b.aleo'' \<mapsto> b_source] \<and> pm_program_cache pm \<subseteq>\<^sub>m two_programs \<and>
     nc_host (pm_network_client pm) = ''https://node/v2''"
proof (rule first_authorization)
  fix s'
  let ?pm = "bare_manager\<lparr>pm_program_cache := [''b.aleo'' \<mapsto> b_source]\<rparr>"
  assume "PM_BuildAuthorization import_env bare_manager background sample_opts start_state =
     Some ((Inr \<lparr>auth_raw = Some ''{}''\<rparr>, ?pm), s')"
  then have run: "(manager_step import_env toy_box)\<^sup>*\<^sup>* (bare_manager, start_state) (?pm, s')"
    by (intro r_into_rtranclp run_authorize)
  have "trim_right_set ''https://node/v2/'' ''/'' = ''https://node/v2''" by code_simp
  with manager_lifetime [OF node_manager rtranclp.rtrancl_refl run node_serves_all] run show ?thesis
    by (intro exI [of _ ?pm] exI [of _ s']) (simp add: node_options_def)
qed

theorem manager_authorizes_deployed_witness:
  "\<exists>a pm s h. PM_BuildAuthorization import_env bare_manager background sample_opts start_state =
     Some ((Inr a, pm), s) \<and>
   hist (st_world s) = Ev_Ffi (C_authorize ''APrivateKey1'' b_source ''main'' ''null'' ''[]'') # h"
proof (rule first_authorization)
  fix s'
  let ?pm = "bare_manager\<lparr>pm_program_cache := [''b.aleo'' \<mapsto> b_source]\<rparr>"
  assume a: "PM_BuildAuthorization import_env bare_manager background sample_opts start_state =
     Some ((Inr \<lparr>auth_raw = Some ''{}''\<rparr>, ?pm), s')"
  obtain key source ids srcs h where
    x: "key = signing_key bare_manager sample_opts (st_mem start_state)"
    "two_programs (po_program_name sample_opts) = Some source"
    "map two_programs ids = map Some srcs" "set ids = (dep two_programs)\<^sup>* `` imports_of source"
    "hist (st_world s') = Ev_Ffi (C_authorize (c_string key) (c_string source)
      (c_string (po_function_name sample_opts)) (marshal_strings (po_inputs sample_opts))
      (marshal_strings (Some srcs))) # h"
    using manager_authorizes_deployed [OF node_manager rtranclp.rtrancl_refl node_serves_all
        two_programs_acyclic a] by blast
  have source: "source = b_source" using x(2) by (simp add: sample_opts_def two_programs_def)
  then have "imports_of source = {}" using program_imports by (simp add: imports_of_def)
  then have "srcs = []" using x(3,4) by simp
  moreover have "c_string ''APrivateKey1'' = ''APrivateKey1''" "c_string b_source = b_source"
    "c_string ''main'' = ''main''" "marshal_strings None = ''null''" "marshal_strings (Some []) = ''[]''"
    by code_simp+
  ultimately show ?thesis
    using a x(1,5) source by (simp add: sample_opts_def signing_key_def)
qed

end
