(* ===== verification/Execute_Batch.thy ===== *)
theory Execute_Batch
  imports Manager_Runs
begin

text \<open>
  \<open>ExecuteBatch\<close> of \<open>program_manager.go\<close>: one goroutine per request, at most eight of them past the
  semaphore at a time, results stored by index, and the caller waiting for all of them. The
  goroutines are interleaved by a step relation. The concurrent calls of \<open>Execute\<close> share the manager
  and the network: a call finds the manager with its program cache and cached JWT as the others left
  them, and the events of the others come between its own. So its outcome is any outcome \<open>Execute\<close>
  has for the request on such a manager, when each answer it gets is one that the environment gives
  after some history.
\<close>

section \<open>Requests and results\<close>

record execute_request =
  er_program_name :: string
  er_function_name :: string
  er_options :: "execute_option list"

record execute_result =
  res_tx_id :: string
  res_error :: "sdk_error option"

definition zero_result :: execute_result where
  "zero_result = \<lparr>res_tx_id = [], res_error = None\<rparr>"

definition max_batch_concurrency :: nat where "max_batch_concurrency = 8"

definition to_execute_result :: "string result \<Rightarrow> execute_result" where
  "to_execute_result r =
     (case r of Inl e \<Rightarrow> \<lparr>res_tx_id = [], res_error = Some e\<rparr>
      | Inr txid \<Rightarrow> \<lparr>res_tx_id = txid, res_error = None\<rparr>)"

section \<open>Calls among other calls\<close>

text \<open>
  \<open>E'\<close> is what one goroutine sees of the environment \<open>E\<close>: every answer is an answer of \<open>E\<close>, but after a
  history that may hold the events of other goroutines, which also make time pass.
\<close>

definition seen_among_others :: "env \<Rightarrow> env \<Rightarrow> bool" where
  "seen_among_others E E' =
     (url_error E' = url_error E \<and> float_to_int E' = float_to_int E \<and>
      (\<forall>h rq. \<exists>g. respond E' h rq = respond E g rq) \<and>
      (\<forall>h rate. \<exists>g. limiter E' h rate = limiter E g rate) \<and>
      (\<forall>h n. \<exists>g. rand_bytes E' h n = rand_bytes E g n) \<and>
      (\<forall>h f. \<exists>g. ffi E' h f = ffi E g f) \<and>
      (\<forall>h a m t. \<exists>g. ffi_verify E' h a m t = ffi_verify E g a m t))"

lemma seen_alone: "seen_among_others E E"
  by (auto simp: seen_among_others_def)

text \<open>The manager as other calls may have left it: only its two caches can differ.\<close>

definition shares_manager :: "program_manager \<Rightarrow> program_manager \<Rightarrow> bool" where
  "shares_manager pm pm1 = (later_version (\<lambda>_. True) pm pm1 \<and> pm_account pm1 = pm_account pm)"

definition executes ::
  "env \<Rightarrow> box_lib \<Rightarrow> program_manager \<Rightarrow> mem \<Rightarrow> ctx \<Rightarrow> execute_request \<Rightarrow> string result \<Rightarrow> bool" where
  "executes E B pm m c rq r =
     (\<exists>E' pm1 w pm2 s'. seen_among_others E E' \<and> shares_manager pm pm1 \<and>
        Execute E' B pm1 c (er_program_name rq) (er_function_name rq) (er_options rq)
          \<lparr>st_mem = m, st_world = w\<rparr> = Some ((r, pm2), s'))"

text \<open>A call leaves the manager and the memory as the next one expects them.\<close>

interpretation unconditional: cache_condition E nc "\<lambda>_. True" for E nc
  by unfold_locales

lemma Execute_shares:
  assumes "Execute E B pm1 c program fn os s = Some ((r, pm2), s')" and "shares_manager pm pm1"
  shows "shares_manager pm pm2 \<and> st_mem s' = st_mem s"
proof -
  let ?opts = "apply_options os (call_options program fn None False)"
  have run: "ExecuteViaDPS E B pm1 c ?opts s = Some ((r, pm2), s')"
    using assms(1) by (simp add: Execute_def)
  then have "later_version (\<lambda>_. True) pm1 pm2"
    using unconditional.step_version [OF run_execute [OF run]] by simp
  moreover have "pm_account pm2 = pm_account pm1 \<and> st_mem s' = st_mem s"
    using run unfolding ExecuteViaDPS_def
    by (auto simp: with_proving_service_def BuildProvingRequest_def PM_BuildAuthorization_def Let_def
        split: option.splits prod.splits sum.splits if_splits)
  ultimately show ?thesis
    using assms(2) by (auto simp: shares_manager_def intro: later_version_trans)
qed

text \<open>
  A transaction id among the outcomes is one that the prover gave: in reply to a POST, with 200 or
  201, in a response which, when a broadcast was asked for, reports no failed one.
\<close>

definition prover_gave :: "env \<Rightarrow> bool \<Rightarrow> string \<Rightarrow> bool" where
  "prover_gave E broadcast txid =
     (txid \<noteq> [] \<and> (\<exists>g rq reply p. respond E g rq = Reply reply \<and> rq_method rq = ''POST'' \<and>
        rs_status reply \<in> {200, 201} \<and> unmarshal dec_response (rs_body reply) = Some p \<and>
        unmarshal (dec_one_string ''id'') (raw_string (resp_transaction p)) = Some txid \<and>
        (\<forall>b. broadcast \<longrightarrow> resp_broadcast p = Some b \<longrightarrow> br_status_code b = 200)))"

definition request_options :: "execute_request \<Rightarrow> proving_request_options" where
  "request_options rq =
     apply_options (er_options rq) (call_options (er_program_name rq) (er_function_name rq) None False)"

lemma executes_backed:
  assumes "executes E B pm m c rq (Inr txid)"
  shows "prover_gave E (po_broadcast (request_options rq)) txid"
proof -
  obtain E' pm1 w pm2 s' where E': "seen_among_others E E'"
    and run: "ExecuteViaDPS E' B pm1 c (request_options rq) \<lparr>st_mem = m, st_world = w\<rparr> =
      Some ((Inr txid, pm2), s')"
    using assms by (auto simp: executes_def Execute_def request_options_def)
  from execution_backed [OF run] obtain q reply p h where
    "txid \<noteq> []" "respond E' h q = Reply reply" "rq_method q = ''POST''"
    "rs_status reply \<in> {200, 201}" "unmarshal dec_response (rs_body reply) = Some p"
    "unmarshal (dec_one_string ''id'') (raw_string (resp_transaction p)) = Some txid"
    "\<forall>b. po_broadcast (request_options rq) \<longrightarrow> resp_broadcast p = Some b \<longrightarrow> br_status_code b = 200"
    by (elim conjE exE) (rule that)
  moreover from E' obtain g where "respond E' h q = respond E g q"
    unfolding seen_among_others_def by meson
  ultimately show ?thesis unfolding prover_gave_def by (intro conjI exI) (assumption | simp)+
qed

section \<open>The states of a batch\<close>

text \<open>
  A goroutine is not yet started, waits for the semaphore, executes, has stored its result, has
  given the semaphore back (the deferred receive), or is done (\<open>wg.Done\<close>, deferred first and so run
  last).
\<close>

datatype phase = Unstarted | Waiting | Executing | Stored | Released | Finished

fun phase_rank :: "phase \<Rightarrow> nat" where
  "phase_rank Unstarted = 0"
| "phase_rank Waiting = 1"
| "phase_rank Executing = 2"
| "phase_rank Stored = 3"
| "phase_rank Released = 4"
| "phase_rank Finished = 5"

lemma phase_rank_inj: "phase_rank p = phase_rank q \<Longrightarrow> p = q"
  by (cases p; cases q) simp_all

instantiation phase :: linorder
begin

definition less_eq_phase :: "phase \<Rightarrow> phase \<Rightarrow> bool" where
  "p \<le> q \<longleftrightarrow> phase_rank p \<le> phase_rank q"

definition less_phase :: "phase \<Rightarrow> phase \<Rightarrow> bool" where
  "p < q \<longleftrightarrow> phase_rank p < phase_rank q"

instance
  by standard (auto simp: less_eq_phase_def less_phase_def intro: phase_rank_inj)

end

record batch =
  ba_next :: nat
  ba_phases :: "phase list"
  ba_results :: "execute_result list"
  ba_sem :: nat
  ba_wg :: nat
  ba_returned :: "execute_result list option"

definition batch_init :: "nat \<Rightarrow> batch" where
  "batch_init n = \<lparr>ba_next = 0, ba_phases = replicate n Unstarted,
     ba_results = replicate n zero_result, ba_sem = 0, ba_wg = 0, ba_returned = None\<rparr>"

definition set_phase :: "nat \<Rightarrow> phase \<Rightarrow> batch \<Rightarrow> batch" where
  "set_phase i p b = b\<lparr>ba_phases := (ba_phases b)[i := p]\<rparr>"

text \<open>\<open>outcome i r\<close>: executing request \<open>i\<close> may return \<open>r\<close>.\<close>

inductive batch_step :: "(nat \<Rightarrow> string result \<Rightarrow> bool) \<Rightarrow> batch \<Rightarrow> batch \<Rightarrow> bool" for outcome where
  step_spawn: "ba_returned b = None \<Longrightarrow> ba_next b < length (ba_phases b) \<Longrightarrow>
    batch_step outcome b
      ((set_phase (ba_next b) Waiting b)\<lparr>ba_next := ba_next b + 1, ba_wg := ba_wg b + 1\<rparr>)"
| step_acquire: "i < length (ba_phases b) \<Longrightarrow> ba_phases b ! i = Waiting \<Longrightarrow>
    ba_sem b < max_batch_concurrency \<Longrightarrow>
    batch_step outcome b ((set_phase i Executing b)\<lparr>ba_sem := ba_sem b + 1\<rparr>)"
| step_execute: "i < length (ba_phases b) \<Longrightarrow> ba_phases b ! i = Executing \<Longrightarrow> outcome i r \<Longrightarrow>
    batch_step outcome b
      ((set_phase i Stored b)\<lparr>ba_results := (ba_results b)[i := to_execute_result r]\<rparr>)"
| step_release: "i < length (ba_phases b) \<Longrightarrow> ba_phases b ! i = Stored \<Longrightarrow> 0 < ba_sem b \<Longrightarrow>
    batch_step outcome b ((set_phase i Released b)\<lparr>ba_sem := ba_sem b - 1\<rparr>)"
| step_done: "i < length (ba_phases b) \<Longrightarrow> ba_phases b ! i = Released \<Longrightarrow>
    batch_step outcome b ((set_phase i Finished b)\<lparr>ba_wg := ba_wg b - 1\<rparr>)"
| step_return: "ba_returned b = None \<Longrightarrow> ba_next b = length (ba_phases b) \<Longrightarrow> ba_wg b = 0 \<Longrightarrow>
    batch_step outcome b (b\<lparr>ba_returned := Some (ba_results b)\<rparr>)"

inductive_cases batch_stepE: "batch_step outcome b b'"

definition batch_run :: "(nat \<Rightarrow> string result \<Rightarrow> bool) \<Rightarrow> nat \<Rightarrow> batch \<Rightarrow> bool" where
  "batch_run outcome n = (batch_step outcome)\<^sup>*\<^sup>* (batch_init n)"

text \<open>A batch of requests of a program manager.\<close>

definition ExecuteBatch ::
  "env \<Rightarrow> box_lib \<Rightarrow> program_manager \<Rightarrow> mem \<Rightarrow> ctx \<Rightarrow> execute_request list \<Rightarrow> batch \<Rightarrow> bool" where
  "ExecuteBatch E B pm m c reqs =
     batch_run (\<lambda>i r. i < length reqs \<and> executes E B pm m c (reqs ! i) r) (length reqs)"

section \<open>The invariant\<close>

definition holders :: "phase list \<Rightarrow> nat" where
  "holders ps = length (filter (\<lambda>p. p = Executing \<or> p = Stored) ps)"

definition unfinished :: "phase list \<Rightarrow> nat" where
  "unfinished ps = length (filter (\<lambda>p. Unstarted < p \<and> p < Finished) ps)"

text \<open>
  The semaphore counts the goroutines past it, the wait group those started and not done, the loop has
  started exactly the goroutines below its index, and a stored result is the request's own.
\<close>

definition batch_inv :: "(nat \<Rightarrow> string result \<Rightarrow> bool) \<Rightarrow> nat \<Rightarrow> batch \<Rightarrow> bool" where
  "batch_inv outcome n b =
     (length (ba_phases b) = n \<and> length (ba_results b) = n \<and> ba_next b \<le> n \<and>
      ba_sem b = holders (ba_phases b) \<and> ba_sem b \<le> max_batch_concurrency \<and>
      ba_wg b = unfinished (ba_phases b) \<and>
      (\<forall>i < n. Unstarted < ba_phases b ! i \<longleftrightarrow> i < ba_next b) \<and>
      (\<forall>i < n. Stored \<le> ba_phases b ! i \<longrightarrow>
         (\<exists>r. outcome i r \<and> ba_results b ! i = to_execute_result r)) \<and>
      (\<forall>rs. ba_returned b = Some rs \<longrightarrow> ba_next b = n \<and> ba_wg b = 0 \<and> rs = ba_results b))"

lemmas phase_order = less_eq_phase_def less_phase_def

lemma holders_update:
  "i < length ps \<Longrightarrow> holders (ps[i := p]) + (if ps ! i = Executing \<or> ps ! i = Stored then 1 else 0) =
     holders ps + (if p = Executing \<or> p = Stored then 1 else 0)"
  unfolding holders_def by (rule count_update)

lemma unfinished_update:
  "i < length ps \<Longrightarrow>
     unfinished (ps[i := p]) + (if Unstarted < ps ! i \<and> ps ! i < Finished then 1 else 0) =
     unfinished ps + (if Unstarted < p \<and> p < Finished then 1 else 0)"
  unfolding unfinished_def by (rule count_update)

lemma batch_inv_init: "batch_inv outcome n (batch_init n)"
  by (simp add: batch_inv_def batch_init_def holders_def unfinished_def phase_order)

lemma unfinished_0:
  "unfinished ps = 0 \<Longrightarrow> i < length ps \<Longrightarrow> Unstarted < ps ! i \<Longrightarrow> ps ! i = Finished"
proof -
  assume "unfinished ps = 0" and i: "i < length ps" and "Unstarted < ps ! i"
  then have "\<forall>p \<in> set ps. \<not> (Unstarted < p \<and> p < Finished)"
    by (simp add: unfinished_def filter_empty_conv)
  then have "\<not> (Unstarted < ps ! i \<and> ps ! i < Finished)" using nth_mem [OF i] by blast
  with \<open>Unstarted < ps ! i\<close> show "ps ! i = Finished" by (cases "ps ! i") (auto simp: phase_order)
qed

lemma batch_inv_step:
  assumes "batch_step outcome b b'" and "batch_inv outcome n b"
  shows "batch_inv outcome n b'"
  using assms(1)
proof (cases rule: batch_step.cases)
  case step_spawn
  then have "ba_phases b ! ba_next b = Unstarted"
    using assms(2) by (cases "ba_phases b ! ba_next b") (auto simp: batch_inv_def phase_order)
  with step_spawn assms(2) holders_update [of "ba_next b" "ba_phases b" Waiting]
    unfinished_update [of "ba_next b" "ba_phases b" Waiting]
  show ?thesis
    by (auto simp: batch_inv_def set_phase_def nth_list_update phase_order)
next
  case (step_acquire i)
  with assms(2) holders_update [of i "ba_phases b" Executing] unfinished_update [of i "ba_phases b" Executing]
  show ?thesis
    by (auto simp: batch_inv_def set_phase_def nth_list_update phase_order)
next
  case (step_execute i r)
  with assms(2) holders_update [of i "ba_phases b" Stored] unfinished_update [of i "ba_phases b" Stored]
    unfinished_0 [of "ba_phases b" i]
  show ?thesis
    by (auto simp: batch_inv_def set_phase_def nth_list_update phase_order)
next
  case (step_release i)
  with assms(2) holders_update [of i "ba_phases b" Released] unfinished_update [of i "ba_phases b" Released]
  show ?thesis
    by (auto simp: batch_inv_def set_phase_def nth_list_update phase_order)
next
  case (step_done i)
  with assms(2) holders_update [of i "ba_phases b" Finished] unfinished_update [of i "ba_phases b" Finished]
  show ?thesis
    by (auto simp: batch_inv_def set_phase_def nth_list_update phase_order)
next
  case step_return
  with assms(2) show ?thesis by (auto simp: batch_inv_def)
qed

lemma batch_inv_run: "batch_run outcome n b \<Longrightarrow> batch_inv outcome n b"
  unfolding batch_run_def
  by (induction rule: rtranclp_induct) (auto intro: batch_inv_init batch_inv_step)

lemma batch_returned:
  assumes "batch_inv outcome n b" and "ba_returned b = Some rs"
  shows "length rs = n" and "\<forall>i < n. \<exists>r. outcome i r \<and> rs ! i = to_execute_result r"
    and "\<forall>p \<in> set (ba_phases b). p = Finished"
proof -
  from assms have rs: "length (ba_phases b) = n" "rs = ba_results b" "ba_next b = n"
      "unfinished (ba_phases b) = 0"
    by (auto simp: batch_inv_def)
  then have fin: "ba_phases b ! i = Finished" if "i < n" for i
    using that assms(1) by (intro unfinished_0) (auto simp: batch_inv_def)
  show "length rs = n" using assms rs by (simp add: batch_inv_def)
  show "\<forall>i < n. \<exists>r. outcome i r \<and> rs ! i = to_execute_result r"
    using assms(1) fin rs by (auto simp: batch_inv_def phase_order)
  show "\<forall>p \<in> set (ba_phases b). p = Finished"
    using fin rs by (auto simp: in_set_conv_nth)
qed

section \<open>Progress\<close>

lemma holders_pos:
  assumes "0 < holders ps"
  obtains i where "i < length ps" and "ps ! i = Executing \<or> ps ! i = Stored"
proof -
  have "\<exists>p \<in> set ps. p = Executing \<or> p = Stored"
    using assms by (auto simp: holders_def filter_empty_conv)
  then show thesis using that by (auto simp: in_set_conv_nth)
qed

lemma unfinished_pos:
  assumes "0 < unfinished ps"
  obtains i where "i < length ps" and "Unstarted < ps ! i" and "ps ! i < Finished"
proof -
  have "\<exists>p \<in> set ps. Unstarted < p \<and> p < Finished"
    using assms by (auto simp: unfinished_def filter_empty_conv)
  then show thesis using that by (auto simp: in_set_conv_nth)
qed

lemma holder_steps:
  assumes "batch_inv outcome n b" and "\<forall>i < n. \<exists>r. outcome i r"
    and "i < length (ba_phases b)" and "ba_phases b ! i = Executing \<or> ba_phases b ! i = Stored"
  shows "\<exists>b'. batch_step outcome b b'"
  using assms(4)
proof
  assume "ba_phases b ! i = Executing"
  moreover obtain r where "outcome i r" using assms(1-3) by (auto simp: batch_inv_def)
  ultimately show ?thesis using assms(3) step_execute by blast
next
  assume st: "ba_phases b ! i = Stored"
  then have "0 < holders (ba_phases b)"
    using assms(3) nth_mem [of i "ba_phases b"] by (auto simp: holders_def filter_empty_conv)
  then have "0 < ba_sem b" using assms(1) by (simp add: batch_inv_def)
  with st assms(3) show ?thesis using step_release by blast
qed

lemma batch_can_step:
  assumes inv: "batch_inv outcome n b" and out: "\<forall>i < n. \<exists>r. outcome i r" and ret: "ba_returned b = None"
  shows "\<exists>b'. batch_step outcome b b'"
proof (cases "ba_next b < length (ba_phases b)")
  case True
  with ret show ?thesis using step_spawn by blast
next
  case False
  then have next_n: "ba_next b = length (ba_phases b)" using inv by (auto simp: batch_inv_def)
  show ?thesis
  proof (cases "ba_wg b = 0")
    case True
    with ret next_n show ?thesis using step_return by blast
  next
    case False
    then have "0 < unfinished (ba_phases b)" using inv by (simp add: batch_inv_def)
    then obtain i where i: "i < length (ba_phases b)" "Unstarted < ba_phases b ! i"
      "ba_phases b ! i < Finished"
      by (rule unfinished_pos)
    then consider "ba_phases b ! i = Waiting" | "ba_phases b ! i = Executing \<or> ba_phases b ! i = Stored"
      | "ba_phases b ! i = Released"
      by (cases "ba_phases b ! i") (auto simp: phase_order)
    then show ?thesis
    proof cases
      case 1
      show ?thesis
      proof (cases "ba_sem b < max_batch_concurrency")
        case True
        with 1 i show ?thesis using step_acquire by blast
      next
        case False
        then have "0 < holders (ba_phases b)"
          using inv by (simp add: batch_inv_def max_batch_concurrency_def)
        then obtain j where "j < length (ba_phases b)" "ba_phases b ! j = Executing \<or> ba_phases b ! j = Stored"
          by (rule holders_pos)
        then show ?thesis by (rule holder_steps [OF inv out])
      qed
    next
      case 2
      with i(1) show ?thesis by (rule holder_steps [OF inv out])
    next
      case 3
      with i show ?thesis using step_done by blast
    qed
  qed
qed

text \<open>Every step moves one goroutine on by one phase, or returns.\<close>

definition steps_taken :: "batch \<Rightarrow> nat" where
  "steps_taken b = sum_list (map phase_rank (ba_phases b)) + (if ba_returned b = None then 0 else 1)"

lemma rank_update:
  "i < length ps \<Longrightarrow> sum_list (map phase_rank (ps[i := p])) + phase_rank (ps ! i) =
     sum_list (map phase_rank ps) + phase_rank p"
proof (induction ps arbitrary: i)
  case (Cons q ps)
  then show ?case by (cases i) auto
qed simp

lemma steps_taken_step:
  assumes "batch_step outcome b b'" and "batch_inv outcome n b"
  shows "steps_taken b' = steps_taken b + 1"
  using assms(1)
proof (cases rule: batch_step.cases)
  case step_spawn
  then have "ba_phases b ! ba_next b = Unstarted"
    using assms(2) by (cases "ba_phases b ! ba_next b") (auto simp: batch_inv_def phase_order)
  with step_spawn rank_update [of "ba_next b" "ba_phases b" Waiting] show ?thesis
    by (simp add: steps_taken_def set_phase_def)
next
  case (step_acquire i)
  with rank_update [of i "ba_phases b" Executing] show ?thesis by (simp add: steps_taken_def set_phase_def)
next
  case (step_execute i r)
  with rank_update [of i "ba_phases b" Stored] show ?thesis by (simp add: steps_taken_def set_phase_def)
next
  case (step_release i)
  with rank_update [of i "ba_phases b" Released] show ?thesis by (simp add: steps_taken_def set_phase_def)
next
  case (step_done i)
  with rank_update [of i "ba_phases b" Finished] show ?thesis by (simp add: steps_taken_def set_phase_def)
next
  case step_return
  then show ?thesis by (simp add: steps_taken_def)
qed

lemma steps_taken_run:
  "(batch_step outcome ^^ k) (batch_init n) b \<Longrightarrow> steps_taken b = k \<and> batch_inv outcome n b"
proof (induction k arbitrary: b)
  case 0
  then show ?case
    using batch_inv_init [of outcome n]
    by (auto simp: steps_taken_def batch_init_def sum_list_replicate)
next
  case (Suc k)
  then obtain a where a: "(batch_step outcome ^^ k) (batch_init n) a" "batch_step outcome a b" by auto
  from Suc.IH [OF a(1)] a(2) steps_taken_step batch_inv_step show ?case by fastforce
qed

lemma rank_bound: "sum_list (map phase_rank ps) \<le> 5 * length ps"
proof (induction ps)
  case (Cons p ps)
  then show ?case by (cases p) simp_all
qed simp

section \<open>Properties\<close>

text \<open>At every moment of every run of \<open>ExecuteBatch\<close>, under every interleaving, at most eight requests
  are being executed, and the semaphore holds exactly one slot for each goroutine past it.\<close>

theorem batch_concurrency_bound:
  assumes "ExecuteBatch E B pm m c reqs b"
  shows "length (filter (\<lambda>p. p = Executing) (ba_phases b)) \<le> 8 \<and>
    ba_sem b = length (filter (\<lambda>p. p = Executing \<or> p = Stored) (ba_phases b))"
proof -
  have inv: "ba_sem b = holders (ba_phases b) \<and> ba_sem b \<le> max_batch_concurrency"
    using batch_inv_run [OF assms [unfolded ExecuteBatch_def]] by (simp add: batch_inv_def)
  have "length (filter (\<lambda>p. p = Executing) ps) \<le> holders ps" for ps
    unfolding holders_def by (induction ps) auto
  then have "length (filter (\<lambda>p. p = Executing) (ba_phases b)) \<le> holders (ba_phases b)" .
  with inv show ?thesis by (simp add: holders_def max_batch_concurrency_def)
qed

theorem batch_concurrency_bound_witness:
  "length (filter (\<lambda>p. p = Executing) (ba_phases (batch_init 3))) \<le> 8"
proof -
  have "ExecuteBatch quiet_env toy_box bare_manager [] background (replicate 3 \<lparr>er_program_name = ''a'',
      er_function_name = ''f'', er_options = []\<rparr>) (batch_init 3)"
    by (simp add: ExecuteBatch_def batch_run_def)
  then show ?thesis using batch_concurrency_bound by blast
qed

text \<open>C7: When \<open>ExecuteBatch\<close> returns, every request has been executed: there is one result per request, in
  the order of the requests, each is an outcome of executing that very request, a transaction id
  without an error is one that the prover gave in a 200 or 201 reply, all goroutines are done and the
  semaphore is empty.\<close>

theorem batch_results:
  assumes "ExecuteBatch E B pm m c reqs b" and "ba_returned b = Some rs"
  shows "length rs = length reqs \<and>
    (\<forall>i < length reqs. \<exists>r. executes E B pm m c (reqs ! i) r \<and> rs ! i = to_execute_result r) \<and>
    (\<forall>i < length reqs. res_error (rs ! i) = None \<longrightarrow>
       prover_gave E (po_broadcast (request_options (reqs ! i))) (res_tx_id (rs ! i))) \<and>
    (\<forall>p \<in> set (ba_phases b). p = Finished) \<and> ba_sem b = 0"
proof -
  let ?out = "\<lambda>i r. i < length reqs \<and> executes E B pm m c (reqs ! i) r"
  have inv: "batch_inv ?out (length reqs) b"
    using batch_inv_run [OF assms(1) [unfolded ExecuteBatch_def]] .
  note ends = batch_returned [OF inv assms(2)]
  moreover have "prover_gave E (po_broadcast (request_options (reqs ! i))) (res_tx_id (rs ! i))"
    if i: "i < length reqs" and none: "res_error (rs ! i) = None" for i
  proof -
    from ends(2) i obtain r where r: "executes E B pm m c (reqs ! i) r" "rs ! i = to_execute_result r"
      by blast
    with none obtain txid where "r = Inr txid" by (cases r) (auto simp: to_execute_result_def)
    with r show ?thesis by (auto simp: to_execute_result_def dest: executes_backed)
  qed
  moreover have "ba_sem b = 0"
    using inv ends(3) by (auto simp: batch_inv_def holders_def filter_empty_conv)
  ultimately show ?thesis by simp
qed

definition sample_request :: execute_request where
  "sample_request = \<lparr>er_program_name = ''b.aleo'', er_function_name = ''main'',
     er_options = [WithPrivateKey ''APrivateKey1'', WithBroadcast True]\<rparr>"

definition executed :: execute_result where
  "executed = \<lparr>res_tx_id = ''at1xyz'', res_error = None\<rparr>"

lemma executed: "to_execute_result (Inr ''at1xyz'') = executed"
  by (simp add: to_execute_result_def executed_def)

lemma sample_executes: "executes exec_env toy_box ready_manager [] background sample_request (Inr ''at1xyz'')"
proof -
  have opts: "apply_options [WithPrivateKey ''APrivateKey1'', WithBroadcast True]
      (call_options ''b.aleo'' ''main'' None False) = sample_opts"
    by (simp add: apply_options_def WithPrivateKey_def WithBroadcast_def call_options_def sample_opts_def)
  obtain pm2 s' where "ExecuteViaDPS exec_env toy_box ready_manager background sample_opts
      \<lparr>st_mem = [], st_world = start_world\<rparr> = Some ((Inr ''at1xyz'', pm2), s')"
    using exec_env_executes unfolding start_state_def by blast
  then have "Execute exec_env toy_box ready_manager background (er_program_name sample_request)
      (er_function_name sample_request) (er_options sample_request)
      \<lparr>st_mem = [], st_world = start_world\<rparr> = Some ((Inr ''at1xyz'', pm2), s')"
    by (simp add: Execute_def sample_request_def opts)
  moreover have "shares_manager ready_manager ready_manager" by (simp add: shares_manager_def)
  ultimately show ?thesis
    unfolding executes_def by (intro exI conjI) (rule seen_alone | assumption)+
qed

text \<open>A batch of one request, from its start to its return.\<close>

definition single_end :: "execute_result \<Rightarrow> batch" where
  "single_end x = \<lparr>ba_next = 1, ba_phases = [Finished], ba_results = [x], ba_sem = 0,
     ba_wg = 0, ba_returned = Some [x]\<rparr>"

lemma single_batch_run:
  assumes "executes E B pm m c rq r"
  shows "ExecuteBatch E B pm m c [rq] (single_end (to_execute_result r))"
proof -
  let ?out = "\<lambda>i r. i < length [rq] \<and> executes E B pm m c ([rq] ! i) r"
  have b1: "batch_step ?out (batch_init 1) \<lparr>ba_next = 1, ba_phases = [Waiting],
      ba_results = [zero_result], ba_sem = 0, ba_wg = 1, ba_returned = None\<rparr>"
    using step_spawn [of "batch_init 1" ?out] by (simp add: batch_init_def set_phase_def)
  have b2: "batch_step ?out \<lparr>ba_next = 1, ba_phases = [Waiting], ba_results = [zero_result],
      ba_sem = 0, ba_wg = 1, ba_returned = None\<rparr> \<lparr>ba_next = 1, ba_phases = [Executing],
      ba_results = [zero_result], ba_sem = 1, ba_wg = 1, ba_returned = None\<rparr>"
    using step_acquire [of 0 "\<lparr>ba_next = 1, ba_phases = [Waiting], ba_results = [zero_result],
      ba_sem = 0, ba_wg = 1, ba_returned = None\<rparr>" ?out]
    by (simp add: set_phase_def max_batch_concurrency_def)
  have b3: "batch_step ?out \<lparr>ba_next = 1, ba_phases = [Executing], ba_results = [zero_result],
      ba_sem = 1, ba_wg = 1, ba_returned = None\<rparr> \<lparr>ba_next = 1, ba_phases = [Stored],
      ba_results = [to_execute_result r], ba_sem = 1, ba_wg = 1, ba_returned = None\<rparr>"
    using step_execute [of 0 "\<lparr>ba_next = 1, ba_phases = [Executing], ba_results = [zero_result],
      ba_sem = 1, ba_wg = 1, ba_returned = None\<rparr>" ?out r]
    by (simp add: set_phase_def assms)
  have b4: "batch_step ?out \<lparr>ba_next = 1, ba_phases = [Stored], ba_results = [to_execute_result r],
      ba_sem = 1, ba_wg = 1, ba_returned = None\<rparr> \<lparr>ba_next = 1, ba_phases = [Released],
      ba_results = [to_execute_result r], ba_sem = 0, ba_wg = 1, ba_returned = None\<rparr>"
    using step_release [of 0 "\<lparr>ba_next = 1, ba_phases = [Stored], ba_results = [to_execute_result r],
      ba_sem = 1, ba_wg = 1, ba_returned = None\<rparr>" ?out] by (simp add: set_phase_def)
  have b5: "batch_step ?out \<lparr>ba_next = 1, ba_phases = [Released], ba_results = [to_execute_result r],
      ba_sem = 0, ba_wg = 1, ba_returned = None\<rparr> \<lparr>ba_next = 1, ba_phases = [Finished],
      ba_results = [to_execute_result r], ba_sem = 0, ba_wg = 0, ba_returned = None\<rparr>"
    using step_done [of 0 "\<lparr>ba_next = 1, ba_phases = [Released], ba_results = [to_execute_result r],
      ba_sem = 0, ba_wg = 1, ba_returned = None\<rparr>" ?out] by (simp add: set_phase_def)
  have b6: "batch_step ?out \<lparr>ba_next = 1, ba_phases = [Finished], ba_results = [to_execute_result r],
      ba_sem = 0, ba_wg = 0, ba_returned = None\<rparr> (single_end (to_execute_result r))"
    using step_return [of "\<lparr>ba_next = 1, ba_phases = [Finished], ba_results = [to_execute_result r],
      ba_sem = 0, ba_wg = 0, ba_returned = None\<rparr>" ?out] by (simp add: single_end_def)
  have "(batch_step ?out)\<^sup>*\<^sup>* (batch_init 1) (single_end (to_execute_result r))"
    using b1 b2 b3 b4 b5 b6 by (meson converse_rtranclp_into_rtranclp rtranclp.rtrancl_refl)
  then show ?thesis by (simp add: ExecuteBatch_def batch_run_def)
qed

theorem batch_results_witness:
  "ExecuteBatch exec_env toy_box ready_manager [] background [sample_request] (single_end executed) \<and>
   ba_returned (single_end executed) = Some [executed] \<and>
   prover_gave exec_env (po_broadcast (request_options sample_request)) ''at1xyz''"
proof -
  have ret: "ba_returned (single_end executed) = Some [executed]" by (simp add: single_end_def)
  have run: "ExecuteBatch exec_env toy_box ready_manager [] background [sample_request] (single_end executed)"
    using single_batch_run [OF sample_executes] by (simp add: executed)
  from batch_results [OF run ret] run ret show ?thesis by (simp add: executed_def)
qed

text \<open>C8: \<open>ExecuteBatch\<close> neither deadlocks nor runs on: as long as it has not returned some step is possible,
  provided every call of \<open>Execute\<close> returns, and no run has more than five steps per request and
  the final return.\<close>

theorem batch_progress_and_termination:
  assumes "(batch_step (\<lambda>i r. i < length reqs \<and> executes E B pm m c (reqs ! i) r) ^^ k)
      (batch_init (length reqs)) b"
    and "\<forall>rq \<in> set reqs. \<exists>r. executes E B pm m c rq r"
  shows "ExecuteBatch E B pm m c reqs b \<and> k \<le> 5 * length reqs + 1 \<and>
    (ba_returned b = None \<longrightarrow>
      (\<exists>b'. batch_step (\<lambda>i r. i < length reqs \<and> executes E B pm m c (reqs ! i) r) b b'))"
proof -
  let ?out = "\<lambda>i r. i < length reqs \<and> executes E B pm m c (reqs ! i) r"
  have inv: "steps_taken b = k" "batch_inv ?out (length reqs) b"
    using steps_taken_run [OF assms(1)] by blast+
  have "k \<le> 5 * length reqs + 1"
    using inv rank_bound [of "ba_phases b"] by (auto simp: steps_taken_def batch_inv_def split: if_splits)
  moreover have "\<exists>b'. batch_step ?out b b'" if "ba_returned b = None"
    using batch_can_step [OF inv(2) _ that] assms(2) by auto
  moreover have "ExecuteBatch E B pm m c reqs b"
    using relpowp_imp_rtranclp [OF assms(1)] by (simp add: ExecuteBatch_def batch_run_def)
  ultimately show ?thesis by blast
qed

theorem batch_progress_and_termination_witness:
  "\<exists>b'. batch_step (\<lambda>i r. i < length [sample_request] \<and>
     executes exec_env toy_box ready_manager [] background ([sample_request] ! i) r) (batch_init 1) b'"
proof -
  have "\<forall>rq \<in> set [sample_request]. \<exists>r. executes exec_env toy_box ready_manager [] background rq r"
    by (auto intro!: exI sample_executes)
  from batch_progress_and_termination [OF _ this, of 0 "batch_init 1"]
  show ?thesis by (simp add: batch_init_def)
qed

end
