(* ===== verification/Batch_Refinement.thy ===== *)
theory Batch_Refinement
  imports Execute_Batch
begin

text \<open>
  What \<open>ExecuteBatch\<close> promises, without its goroutines, semaphore and wait group: a pool of jobs of
  which at most eight run at a time, each finishing with an outcome of its own request, and whose
  answer is the list of the jobs' results once all are done. The batch refines the pool, and loses none
  of its behaviours.
\<close>

section \<open>Refinement mappings\<close>

text \<open>
  A concrete transition system refines an abstract one when an abstraction function takes every
  concrete step, from a state with the invariant, to an abstract step or to no change.
\<close>

locale refinement_map =
  fixes cstep :: "'c \<Rightarrow> 'c \<Rightarrow> bool" and astep :: "'a \<Rightarrow> 'a \<Rightarrow> bool"
    and abst :: "'c \<Rightarrow> 'a" and inv :: "'c \<Rightarrow> bool" and c0 :: 'c
  assumes inv_init: "inv c0"
    and inv_step: "cstep c c' \<Longrightarrow> inv c \<Longrightarrow> inv c'"
    and step_refines: "cstep c c' \<Longrightarrow> inv c \<Longrightarrow> abst c' = abst c \<or> astep (abst c) (abst c')"
begin

lemma run_refines: "cstep\<^sup>*\<^sup>* c0 c \<Longrightarrow> astep\<^sup>*\<^sup>* (abst c0) (abst c) \<and> inv c"
proof (induction rule: rtranclp_induct)
  case (step c c')
  with step_refines [of c c'] inv_step [of c c'] show ?case
    by (auto intro: rtranclp.rtrancl_into_rtrancl)
qed (simp add: inv_init)

end

text \<open>
  It loses no behaviour when every abstract state has a representative and every abstract step a run
  between the representatives.
\<close>

locale exact_refinement = refinement_map +
  fixes rep :: "'b \<Rightarrow> 'a"
  assumes rep_init: "cstep\<^sup>*\<^sup>* c0 (rep (abst c0))"
    and abst_rep: "abst (rep a) = a"
    and rep_step: "astep a a' \<Longrightarrow> cstep\<^sup>*\<^sup>* (rep a) (rep a')"
begin

lemma run_represents: "astep\<^sup>*\<^sup>* (abst c0) a \<Longrightarrow> cstep\<^sup>*\<^sup>* c0 (rep a)"
  by (induction rule: rtranclp_induct) (auto intro: rep_init rep_step rtranclp_trans)

lemma behaviours: "(\<exists>c. cstep\<^sup>*\<^sup>* c0 c \<and> abst c = a) \<longleftrightarrow> astep\<^sup>*\<^sup>* (abst c0) a"
  using run_refines run_represents abst_rep by blast

end

section \<open>The specification: a pool of jobs\<close>

datatype job = Pending | Running | Done execute_result

fun job_result :: "job \<Rightarrow> execute_result" where
  "job_result (Done r) = r"
| "job_result _ = zero_result"

record pool =
  pool_jobs :: "job list"
  pool_answer :: "execute_result list option"

definition pool_init :: "nat \<Rightarrow> pool" where
  "pool_init n = \<lparr>pool_jobs = replicate n Pending, pool_answer = None\<rparr>"

definition running :: "job list \<Rightarrow> nat" where
  "running js = length (filter (\<lambda>j. j = Running) js)"

definition remaining :: "job list \<Rightarrow> nat" where
  "remaining js = length (filter (\<lambda>j. j = Pending \<or> j = Running) js)"

inductive pool_step :: "(nat \<Rightarrow> string result \<Rightarrow> bool) \<Rightarrow> pool \<Rightarrow> pool \<Rightarrow> bool" for outcome where
  pool_start: "i < length (pool_jobs p) \<Longrightarrow> pool_jobs p ! i = Pending \<Longrightarrow> running (pool_jobs p) < 8 \<Longrightarrow>
    pool_step outcome p (p\<lparr>pool_jobs := (pool_jobs p)[i := Running]\<rparr>)"
| pool_finish: "i < length (pool_jobs p) \<Longrightarrow> pool_jobs p ! i = Running \<Longrightarrow> outcome i r \<Longrightarrow>
    pool_step outcome p (p\<lparr>pool_jobs := (pool_jobs p)[i := Done (to_execute_result r)]\<rparr>)"
| pool_return: "pool_answer p = None \<Longrightarrow> remaining (pool_jobs p) = 0 \<Longrightarrow>
    pool_step outcome p (p\<lparr>pool_answer := Some (map job_result (pool_jobs p))\<rparr>)"

inductive_cases pool_stepE: "pool_step outcome p p'"

section \<open>The abstraction\<close>

fun job_of :: "phase \<Rightarrow> execute_result \<Rightarrow> job" where
  "job_of Unstarted r = Pending"
| "job_of Waiting r = Pending"
| "job_of Executing r = Running"
| "job_of Stored r = Done r"
| "job_of Released r = Done r"
| "job_of Finished r = Done r"

definition pool_of :: "batch \<Rightarrow> pool" where
  "pool_of b = \<lparr>pool_jobs = map2 job_of (ba_phases b) (ba_results b), pool_answer = ba_returned b\<rparr>"

lemma map2_replicate: "map2 f (replicate n x) (replicate n y) = replicate n (f x y)"
  by (rule nth_equalityI) simp_all

lemma map2_update:
  "i < length ps \<Longrightarrow> length ps = length rs \<Longrightarrow>
     map2 f (ps[i := p]) (rs[i := r]) = (map2 f ps rs)[i := f p r]"
  by (rule nth_equalityI) (auto simp: nth_list_update)

lemma map2_update_left:
  "i < length ps \<Longrightarrow> length ps = length rs \<Longrightarrow> map2 f (ps[i := p]) rs = (map2 f ps rs)[i := f p (rs ! i)]"
  using map2_update [of i ps rs f p "rs ! i"] by simp

lemma map2_update_same:
  "i < length ps \<Longrightarrow> length ps = length rs \<Longrightarrow> f p (rs ! i) = f (ps ! i) (rs ! i) \<Longrightarrow>
     map2 f (ps[i := p]) rs = map2 f ps rs"
  by (rule nth_equalityI) (auto simp: nth_list_update)

lemma running_holders: "length ps = length rs \<Longrightarrow> running (map2 job_of ps rs) \<le> holders ps"
proof (induction ps rs rule: list_induct2)
  case (Cons p ps r rs)
  then show ?case by (cases p) (auto simp: running_def holders_def)
qed (simp add: running_def)

lemma all_finished_jobs:
  assumes "length ps = length rs" and "\<forall>p \<in> set ps. p = Finished"
  shows "map2 job_of ps rs = map Done rs"
  using assms by (induction ps rs rule: list_induct2) auto

lemma batch_step_refines:
  assumes "batch_step outcome b b'" and "batch_inv outcome n b"
  shows "pool_of b' = pool_of b \<or> pool_step outcome (pool_of b) (pool_of b')"
proof -
  have len: "length (ba_phases b) = length (ba_results b)" using assms(2) by (simp add: batch_inv_def)
  have same: "pool_of (set_phase i p b) = pool_of b"
    if "i < length (ba_phases b)" "\<And>r. job_of p r = job_of (ba_phases b ! i) r" for i p
    using that len by (simp add: pool_of_def set_phase_def map2_update_same)
  show ?thesis
    using assms(1)
  proof (cases rule: batch_step.cases)
    case step_spawn
    then have "ba_phases b ! ba_next b = Unstarted"
      using assms(2) by (cases "ba_phases b ! ba_next b") (auto simp: batch_inv_def phase_order)
    with step_spawn same [of "ba_next b" Waiting] show ?thesis by (simp add: pool_of_def)
  next
    case (step_acquire i)
    then have "running (pool_jobs (pool_of b)) < 8"
      using assms(2) running_holders [OF len]
      by (simp add: pool_of_def batch_inv_def max_batch_concurrency_def)
    with step_acquire len pool_start [of i "pool_of b" outcome] show ?thesis
      by (simp add: pool_of_def set_phase_def map2_update_left)
  next
    case (step_execute i r)
    with len pool_finish [of i "pool_of b" outcome r] show ?thesis
      by (simp add: pool_of_def set_phase_def map2_update)
  next
    case (step_release i)
    with same [of i Released] show ?thesis by (simp add: pool_of_def)
  next
    case (step_done i)
    with same [of i Finished] show ?thesis by (simp add: pool_of_def)
  next
    case step_return
    then have un: "unfinished (ba_phases b) = 0" "\<forall>i < length (ba_phases b). Unstarted < ba_phases b ! i"
      using assms(2) by (auto simp: batch_inv_def)
    then have "\<forall>p \<in> set (ba_phases b). p = Finished"
      using unfinished_0 by (auto simp: in_set_conv_nth)
    then have "map2 job_of (ba_phases b) (ba_results b) = map Done (ba_results b)"
      by (rule all_finished_jobs [OF len])
    with step_return pool_return [of "pool_of b" outcome] show ?thesis
      by (simp add: pool_of_def remaining_def filter_empty_conv comp_def)
  qed
qed

section \<open>The representatives\<close>

fun phase_of :: "job \<Rightarrow> phase" where
  "phase_of Pending = Waiting"
| "phase_of Running = Executing"
| "phase_of (Done r) = Finished"

text \<open>The batch of a pool that has started every goroutine and kept none between its phases.\<close>

definition batch_of :: "pool \<Rightarrow> batch" where
  "batch_of p = \<lparr>ba_next = length (pool_jobs p), ba_phases = map phase_of (pool_jobs p),
     ba_results = map job_result (pool_jobs p), ba_sem = running (pool_jobs p),
     ba_wg = remaining (pool_jobs p), ba_returned = pool_answer p\<rparr>"

lemma pool_of_batch_of: "pool_of (batch_of p) = p"
proof -
  have "job_of (phase_of j) (job_result j) = j" for j by (cases j) simp_all
  then have "map2 job_of (map phase_of js) (map job_result js) = js" for js
    by (induction js) simp_all
  then show ?thesis by (simp add: pool_of_def batch_of_def)
qed

lemma running_update:
  "i < length js \<Longrightarrow> running (js[i := j]) + (if js ! i = Running then 1 else 0) =
     running js + (if j = Running then 1 else 0)"
  unfolding running_def by (rule count_update)

lemma remaining_update:
  "i < length js \<Longrightarrow>
     remaining (js[i := j]) + (if js ! i = Pending \<or> js ! i = Running then 1 else 0) =
     remaining js + (if j = Pending \<or> j = Running then 1 else 0)"
  unfolding remaining_def by (rule count_update)

definition spawned :: "nat \<Rightarrow> nat \<Rightarrow> batch" where
  "spawned n k = (batch_init n)\<lparr>ba_next := k, ba_wg := k,
     ba_phases := replicate k Waiting @ replicate (n - k) Unstarted\<rparr>"

lemma spawn_all: "k \<le> n \<Longrightarrow> (batch_step outcome)\<^sup>*\<^sup>* (batch_init n) (spawned n k)"
proof (induction k)
  case 0
  show ?case by (simp add: spawned_def batch_init_def)
next
  case (Suc k)
  then have "replicate (n - k) Unstarted = Unstarted # replicate (n - Suc k) Unstarted"
    by (metis Suc_diff_Suc Suc_le_lessD replicate_Suc)
  then have "(replicate k Waiting @ replicate (n - k) Unstarted)[k := Waiting] =
      replicate (Suc k) Waiting @ replicate (n - Suc k) Unstarted"
    by (simp add: list_update_append replicate_append_same)
  with Suc.prems step_spawn [of "spawned n k" outcome]
  have "batch_step outcome (spawned n k) (spawned n (Suc k))"
    by (simp add: spawned_def batch_init_def set_phase_def)
  with Suc show ?case by (meson Suc_leD rtranclp.rtrancl_into_rtrancl)
qed

lemma represents_init: "(batch_step outcome)\<^sup>*\<^sup>* (batch_init n) (batch_of (pool_of (batch_init n)))"
proof -
  have "batch_of (pool_of (batch_init n)) = spawned n n"
    by (simp add: batch_of_def pool_of_def batch_init_def spawned_def running_def
        remaining_def map2_replicate)
  then show ?thesis using spawn_all by simp
qed

lemma represents_step:
  assumes "pool_step outcome p p'"
  shows "(batch_step outcome)\<^sup>*\<^sup>* (batch_of p) (batch_of p')"
  using assms
proof (cases rule: pool_step.cases)
  case (pool_start i)
  have "(map job_result (pool_jobs p))[i := zero_result] = map job_result (pool_jobs p)"
    using pool_start by (intro nth_equalityI) (auto simp: nth_list_update)
  with pool_start running_update [of i "pool_jobs p" Running] remaining_update [of i "pool_jobs p" Running]
    step_acquire [of i "batch_of p" outcome]
  have "batch_step outcome (batch_of p) (batch_of p')"
    by (simp add: batch_of_def set_phase_def max_batch_concurrency_def map_update)
  then show ?thesis by blast
next
  case (pool_finish i r)
  have counts: "running ((pool_jobs p)[i := Done (to_execute_result r)]) = running (pool_jobs p) - 1"
      "remaining ((pool_jobs p)[i := Done (to_execute_result r)]) = remaining (pool_jobs p) - 1"
      "0 < running (pool_jobs p)"
    using pool_finish running_update [of i "pool_jobs p" "Done (to_execute_result r)"]
      remaining_update [of i "pool_jobs p" "Done (to_execute_result r)"] by simp_all
  let ?b1 = "(set_phase i Stored (batch_of p))\<lparr>ba_results :=
      (ba_results (batch_of p))[i := to_execute_result r]\<rparr>"
  let ?b2 = "(set_phase i Released ?b1)\<lparr>ba_sem := ba_sem ?b1 - 1\<rparr>"
  have "batch_step outcome (batch_of p) ?b1" "batch_step outcome ?b1 ?b2"
    using pool_finish counts(3)
    by (intro step_execute step_release; simp add: batch_of_def set_phase_def)+
  moreover have "batch_step outcome ?b2 (batch_of p')"
    using pool_finish counts step_done [of i ?b2 outcome]
    by (simp add: batch_of_def set_phase_def map_update)
  ultimately show ?thesis by (meson converse_rtranclp_into_rtranclp rtranclp.rtrancl_refl)
next
  case pool_return
  with step_return [of "batch_of p" outcome] have "batch_step outcome (batch_of p) (batch_of p')"
    by (simp add: batch_of_def)
  then show ?thesis by blast
qed

interpretation batch: exact_refinement "batch_step outcome" "pool_step outcome" pool_of
    "batch_inv outcome n" "batch_init n" batch_of for outcome n
  by unfold_locales
    (fact batch_inv_init batch_inv_step batch_step_refines represents_init pool_of_batch_of
      represents_step)+

section \<open>The answers of a pool\<close>

definition advanced :: "execute_result list \<Rightarrow> nat \<Rightarrow> pool" where
  "advanced rs k = \<lparr>pool_jobs = map Done (take k rs) @ replicate (length rs - k) Pending,
     pool_answer = None\<rparr>"

lemma running_Done [simp]: "running (map Done rs) = 0" "remaining (map Done rs) = 0"
  by (induction rs) (simp_all add: running_def remaining_def)

lemma advance:
  assumes "k < length rs" and "outcome k r" and "rs ! k = to_execute_result r"
  shows "(pool_step outcome)\<^sup>*\<^sup>* (advanced rs k) (advanced rs (Suc k))"
proof -
  let ?p = "(advanced rs k)\<lparr>pool_jobs := (pool_jobs (advanced rs k))[k := Running]\<rparr>"
  have pend: "replicate (length rs - k) Pending = Pending # replicate (length rs - Suc k) Pending"
    using assms(1) by (metis Suc_diff_Suc replicate_Suc)
  have "running (pool_jobs (advanced rs k)) = 0"
    using running_Done(1) [of "take k rs"] by (simp add: advanced_def running_def)
  then have 1: "pool_step outcome (advanced rs k) ?p"
    using assms(1) by (intro pool_start) (simp_all add: advanced_def nth_append)
  have "pool_step outcome ?p (?p\<lparr>pool_jobs := (pool_jobs ?p)[k := Done (to_execute_result r)]\<rparr>)"
    using assms by (intro pool_finish) (simp_all add: advanced_def nth_append)
  moreover have "?p\<lparr>pool_jobs := (pool_jobs ?p)[k := Done (to_execute_result r)]\<rparr> = advanced rs (Suc k)"
    using assms pend by (simp add: advanced_def list_update_append take_Suc_conv_app_nth)
  ultimately have 2: "pool_step outcome ?p (advanced rs (Suc k))" by simp
  from 1 2 show ?thesis by (meson converse_rtranclp_into_rtranclp rtranclp.rtrancl_refl)
qed

lemma pool_answers:
  assumes "\<forall>i < length rs. \<exists>r. outcome i r \<and> rs ! i = to_execute_result r"
  shows "\<exists>p. (pool_step outcome)\<^sup>*\<^sup>* (pool_init (length rs)) p \<and> pool_answer p = Some rs"
proof -
  have "(pool_step outcome)\<^sup>*\<^sup>* (pool_init (length rs)) (advanced rs k)" if "k \<le> length rs" for k
    using that
  proof (induction k)
    case 0
    show ?case by (simp add: advanced_def pool_init_def)
  next
    case (Suc k)
    then have "k < length rs" by simp
    with assms obtain r where "outcome k r" "rs ! k = to_execute_result r" by blast
    with Suc advance [of k rs outcome r] show ?case by (meson Suc_leD Suc_le_lessD rtranclp_trans)
  qed
  moreover have "pool_step outcome (advanced rs (length rs))
      ((advanced rs (length rs))\<lparr>pool_answer := Some rs\<rparr>)"
    using pool_return [of "advanced rs (length rs)" outcome] by (simp add: advanced_def comp_def)
  ultimately have "(pool_step outcome)\<^sup>*\<^sup>* (pool_init (length rs))
      ((advanced rs (length rs))\<lparr>pool_answer := Some rs\<rparr>)"
    by (meson order_refl rtranclp.rtrancl_into_rtrancl)
  then show ?thesis by (intro exI conjI) (assumption, simp)
qed

section \<open>Properties\<close>

text \<open>
  C4: \<open>ExecuteBatch\<close> is a pool of eight workers. What can be seen of a batch - which requests wait,
  which execute, which are done and with what, and what the caller got - are exactly the states of the
  specification: whatever the goroutines, the semaphore and the wait group do is a step of the pool or
  invisible, and every state of the pool, those with eight requests executing at once included, is
  reached by some interleaving. And the lists that the caller can get are exactly those whose entries
  are outcomes of the requests, in their order.
\<close>

theorem batch_refines_pool:
  "((\<exists>b. ExecuteBatch E B pm m c reqs b \<and> pool_of b = p) \<longleftrightarrow>
     (pool_step (\<lambda>i r. i < length reqs \<and> executes E B pm m c (reqs ! i) r))\<^sup>*\<^sup>* (pool_init (length reqs)) p) \<and>
   ((\<exists>b. ExecuteBatch E B pm m c reqs b \<and> ba_returned b = Some rs) \<longleftrightarrow>
     list_all2 (\<lambda>rq x. \<exists>r. executes E B pm m c rq r \<and> x = to_execute_result r) reqs rs)"
    (is "?states \<and> (?got \<longleftrightarrow> ?outcomes)")
proof -
  let ?out = "\<lambda>i r. i < length reqs \<and> executes E B pm m c (reqs ! i) r"
  have "pool_of (batch_init n) = pool_init n" for n
    by (simp add: pool_of_def batch_init_def pool_init_def map2_replicate)
  then have states: "(\<exists>b. ExecuteBatch E B pm m c reqs b \<and> pool_of b = q) \<longleftrightarrow>
      (pool_step ?out)\<^sup>*\<^sup>* (pool_init (length reqs)) q" for q
    using batch.behaviours [of ?out "length reqs" q] by (simp add: ExecuteBatch_def batch_run_def)
  have "?got" if out: "?outcomes"
  proof -
    from out have "length rs = length reqs" "\<forall>i < length rs. \<exists>r. ?out i r \<and> rs ! i = to_execute_result r"
      by (auto simp: list_all2_conv_all_nth)
    with pool_answers [of rs ?out] obtain q where
      "(pool_step ?out)\<^sup>*\<^sup>* (pool_init (length reqs)) q" "pool_answer q = Some rs" by auto
    from this(1) [folded states] obtain b where "ExecuteBatch E B pm m c reqs b" "pool_of b = q"
      by (elim exE conjE)
    moreover from this(2) have "ba_returned b = pool_answer q" by (auto simp: pool_of_def)
    ultimately show ?thesis using \<open>pool_answer q = Some rs\<close> by (intro exI conjI) (assumption, simp)
  qed
  moreover have "?outcomes" if "?got"
  proof -
    from that obtain b where "batch_run ?out (length reqs) b" "ba_returned b = Some rs"
      unfolding ExecuteBatch_def by (elim exE conjE)
    from batch_returned(1,2) [OF batch_inv_run [OF this(1)] this(2)] show ?thesis
      by (auto simp: list_all2_conv_all_nth)
  qed
  ultimately have "?got \<longleftrightarrow> ?outcomes" by (rule iffI [rotated])
  with states [of p] show ?thesis by (rule conjI)
qed

end
