(* ===== verification/Block_Iterator.thy ===== *)
theory Block_Iterator
  imports Network_Client
begin

text \<open>
  \<open>BlockIterator\<close> of \<open>network_client.go\<close>: blocks of a height range, fetched in batches of 50 and
  served one at a time. Heights are 64-bit words, so the batch arithmetic wraps as in Go. What a
  caller's \<open>for it.Next()\<close> loop sees is stated through the interface \<open>stream_iterator\<close>: an
  iterator stands for the list of the items still to come.
\<close>

section \<open>The iterator\<close>

record block_iterator =
  it_client :: network_client
  it_ctx :: ctx
  it_cur :: u64
  it_end :: u64
  it_batch_size :: u64
  it_buf :: "block option list"
  it_buf_idx :: nat
  it_block :: "block option"
  it_err :: "sdk_error option"

definition default_block_batch_size :: u64 where
  "default_block_batch_size = 50"

definition BlockIterator :: "network_client \<Rightarrow> ctx \<Rightarrow> u64 \<Rightarrow> u64 \<Rightarrow> block_iterator" where
  "BlockIterator nc c start end_height =
     \<lparr>it_client = nc, it_ctx = c, it_cur = start, it_end = end_height,
      it_batch_size = default_block_batch_size, it_buf = [], it_buf_idx = 0, it_block = None,
      it_err = None\<rparr>"

definition serve :: "block_iterator \<Rightarrow> block_iterator" where
  "serve it = it\<lparr>it_block := it_buf it ! it_buf_idx it, it_buf_idx := it_buf_idx it + 1\<rparr>"

definition batch_end :: "block_iterator \<Rightarrow> u64" where
  "batch_end it =
     (let b = it_cur it + it_batch_size it - 1 in if b > it_end it then it_end it else b)"

definition iter_next :: "env \<Rightarrow> block_iterator \<Rightarrow> world \<Rightarrow> bool \<times> block_iterator \<times> world" where
  "iter_next E it w =
     (if it_err it \<noteq> None then (False, it, w)
      else if it_buf_idx it < length (it_buf it) then (True, serve it, w)
      else if it_cur it > it_end it then (False, it, w)
      else
        (case GetBlockRange E (it_client it) (it_ctx it) (it_cur it) (batch_end it) w of
           (Inl e, w') \<Rightarrow> (False, it\<lparr>it_err := Some e\<rparr>, w')
         | (Inr blocks, w') \<Rightarrow>
             (let it' = it\<lparr>it_cur := batch_end it + 1, it_buf := blocks, it_buf_idx := 0\<rparr>
              in if blocks = [] then (False, it', w') else (True, serve it', w'))))"

definition iter_block :: "block_iterator \<Rightarrow> block option" where "iter_block it = it_block it"

definition iter_err :: "block_iterator \<Rightarrow> sdk_error option" where "iter_err it = it_err it"

text \<open>The caller's loop \<open>for it.Next() { use(it.Block()) }\<close> with a bound on its turns.\<close>

fun drain ::
  "('i \<Rightarrow> world \<Rightarrow> bool \<times> 'i \<times> world) \<Rightarrow> ('i \<Rightarrow> 'a) \<Rightarrow> nat \<Rightarrow> 'i \<Rightarrow> world \<Rightarrow> ('a list \<times> 'i) option" where
  "drain nxt item 0 it w = None"
| "drain nxt item (Suc n) it w =
     (case nxt it w of
        (False, it', _) \<Rightarrow> Some ([], it')
      | (True, it', w') \<Rightarrow>
          (case drain nxt item n it' w' of
             None \<Rightarrow> None
           | Some (xs, r) \<Rightarrow> Some (item it' # xs, r)))"

section \<open>The contract of an iterator\<close>

locale stream_iterator =
  fixes nxt :: "'i \<Rightarrow> world \<Rightarrow> bool \<times> 'i \<times> world"
    and item :: "'i \<Rightarrow> 'a"
    and rest :: "'i \<Rightarrow> 'a list"
    and inv :: "'i \<Rightarrow> bool"
  assumes next_done: "inv i \<Longrightarrow> rest i = [] \<Longrightarrow> nxt i w = (False, i, w)"
    and next_item: "inv i \<Longrightarrow> rest i = x # xs \<Longrightarrow>
      \<exists>i' w'. nxt i w = (True, i', w') \<and> item i' = x \<and> rest i' = xs \<and> inv i'"
begin

lemma drain_rest:
  "inv i \<Longrightarrow> length (rest i) < n \<Longrightarrow> \<exists>i'. drain nxt item n i w = Some (rest i, i') \<and> inv i' \<and> rest i' = []"
proof (induction n arbitrary: i w)
  case (Suc n)
  show ?case
  proof (cases "rest i")
    case Nil
    with Suc.prems(1) next_done show ?thesis by simp
  next
    case (Cons x xs)
    obtain i' w' where step: "nxt i w = (True, i', w')" "item i' = x" "rest i' = xs" "inv i'"
      using next_item [OF Suc.prems(1) Cons] by blast
    with Suc.IH [of i' w'] Suc.prems(2) Cons show ?thesis by auto
  qed
qed simp

end

section \<open>The block iterator meets it\<close>

text \<open>
  A node that serves the range \<open>lo..hi\<close> of a chain answers every query for at most 50 heights inside
  the range with the blocks of those heights, in order.
\<close>

definition chain :: "(nat \<Rightarrow> block) \<Rightarrow> u64 \<Rightarrow> u64 \<Rightarrow> block option list" where
  "chain f s e = map (\<lambda>h. Some (f h)) [unat s..<Suc (unat e)]"

definition serves :: "env \<Rightarrow> network_client \<Rightarrow> ctx \<Rightarrow> (nat \<Rightarrow> block) \<Rightarrow> u64 \<Rightarrow> u64 \<Rightarrow> bool" where
  "serves E nc c f lo hi =
     (\<forall>w s e. lo \<le> s \<longrightarrow> s \<le> e \<longrightarrow> e \<le> hi \<longrightarrow> e - s < 50 \<longrightarrow>
        fst (GetBlockRange E nc c s e w) = Inr (chain f s e))"

definition to_come :: "(nat \<Rightarrow> block) \<Rightarrow> block_iterator \<Rightarrow> block option list" where
  "to_come f it = drop (it_buf_idx it) (it_buf it) @ chain f (it_cur it) (it_end it)"

text \<open>The largest end height for which neither the batch end nor the next start can wrap.\<close>

definition safe_end :: u64 where
  "safe_end = 18446744073709551566"

definition iter_inv :: "env \<Rightarrow> (nat \<Rightarrow> block) \<Rightarrow> u64 \<Rightarrow> block_iterator \<Rightarrow> bool" where
  "iter_inv E f lo it =
     (it_err it = None \<and> it_batch_size it = 50 \<and> lo \<le> it_cur it \<and> it_end it \<le> safe_end \<and>
      serves E (it_client it) (it_ctx it) f lo (it_end it))"

lemma chain_Nil: "chain f s e = [] \<longleftrightarrow> e < s"
  by (auto simp: chain_def word_less_nat_alt)

lemma chain_split:
  assumes "s \<le> m" and "m \<le> e" and "unat m < 18446744073709551615"
  shows "chain f s e = chain f s m @ chain f (m + 1) e"
proof -
  have "unat (m + 1) = Suc (unat m)"
    using assms(3) by (simp add: unat_word_ariths)
  moreover have "unat s \<le> Suc (unat m)" "Suc (unat m) \<le> Suc (unat e)"
    using assms(1,2) by (simp_all add: word_le_nat_alt)
  then have "[unat s..<Suc (unat e)] = [unat s..<Suc (unat m)] @ [Suc (unat m)..<Suc (unat e)]"
    by (metis le_Suc_ex upt_add_eq_append)
  ultimately show ?thesis by (simp add: chain_def del: upt_Suc)
qed

lemma batch_end_bounds:
  assumes "it_batch_size it = 50" and "it_cur it \<le> it_end it" and "it_end it \<le> safe_end"
  shows "it_cur it \<le> batch_end it" and "batch_end it \<le> it_end it"
    and "batch_end it - it_cur it < 50" and "unat (batch_end it) < 18446744073709551615"
proof -
  have c: "unat (it_cur it) \<le> unat (it_end it)" "unat (it_end it) \<le> 18446744073709551566"
    using assms(2,3) by (simp_all add: word_le_nat_alt safe_end_def)
  have b: "unat (it_cur it + 50 - 1) = unat (it_cur it) + 49"
  proof -
    have "it_cur it + 50 - 1 = it_cur it + 49" by simp
    then show ?thesis using c by (simp only: unat_word_ariths) simp
  qed
  have be: "unat (batch_end it) = min (unat (it_cur it) + 49) (unat (it_end it))"
    using b assms(1) by (auto simp: batch_end_def Let_def word_less_nat_alt min_def)
  show "it_cur it \<le> batch_end it" "batch_end it \<le> it_end it"
    using c be by (simp_all add: word_le_nat_alt)
  then have "unat (batch_end it - it_cur it) = unat (batch_end it) - unat (it_cur it)"
    by (simp add: unat_sub)
  then show "batch_end it - it_cur it < 50" using be by (simp add: word_less_nat_alt)
  show "unat (batch_end it) < 18446744073709551615" using be c by simp
qed

lemma iter_next_buffered:
  "it_err it = None \<Longrightarrow> it_buf_idx it < length (it_buf it) \<Longrightarrow> iter_next E it w = (True, serve it, w)"
  by (simp add: iter_next_def)

lemma to_come_serve:
  assumes "it_buf_idx it < length (it_buf it)"
  shows "to_come f it = it_block (serve it) # to_come f (serve it)"
  using assms by (simp add: to_come_def serve_def Cons_nth_drop_Suc)

lemma iter_inv_serve [simp]: "iter_inv E f lo (serve it) = iter_inv E f lo it"
  by (simp add: iter_inv_def serve_def)

lemma iter_next_fetch:
  assumes "iter_inv E f lo it" and "length (it_buf it) \<le> it_buf_idx it" and "it_cur it \<le> it_end it"
  shows "\<exists>it' w'. iter_next E it w = (True, it', w') \<and> iter_inv E f lo it' \<and>
    to_come f it = it_block it' # to_come f it'"
proof -
  note inv = assms(1) [unfolded iter_inv_def]
  have bounds: "it_cur it \<le> batch_end it" "batch_end it \<le> it_end it"
      "batch_end it - it_cur it < 50" "unat (batch_end it) < 18446744073709551615"
    using batch_end_bounds [of it] inv assms(3) by blast+
  define blocks where "blocks = chain f (it_cur it) (batch_end it)"
  have "fst (GetBlockRange E (it_client it) (it_ctx it) (it_cur it) (batch_end it) w) = Inr blocks"
    using inv bounds unfolding serves_def blocks_def by blast
  then obtain w' where get: "GetBlockRange E (it_client it) (it_ctx it) (it_cur it) (batch_end it) w =
      (Inr blocks, w')"
    by (cases "GetBlockRange E (it_client it) (it_ctx it) (it_cur it) (batch_end it) w") simp
  define it' where "it' = it\<lparr>it_cur := batch_end it + 1, it_buf := blocks, it_buf_idx := 0\<rparr>"
  have "blocks \<noteq> []" using bounds by (auto simp: blocks_def chain_Nil)
  with inv assms(2,3) get have "iter_next E it w = (True, serve it', w')"
    by (simp add: iter_next_def it'_def Let_def)
  moreover have "lo \<le> batch_end it + 1"
    using bounds inv by (simp add: word_le_nat_alt unat_word_ariths)
  then have "iter_inv E f lo (serve it')"
    using inv by (simp add: iter_inv_def it'_def serve_def)
  moreover have "to_come f it = to_come f it'"
    using assms(2) bounds chain_split [of "it_cur it" "batch_end it" "it_end it" f]
    by (simp add: to_come_def it'_def blocks_def)
  moreover have "to_come f it' = it_block (serve it') # to_come f (serve it')"
    using \<open>blocks \<noteq> []\<close> by (intro to_come_serve) (simp add: it'_def)
  ultimately show ?thesis by auto
qed

interpretation blocks: stream_iterator "iter_next E" iter_block "to_come f" "iter_inv E f lo"
  for E f lo
proof unfold_locales
  fix it w
  assume inv: "iter_inv E f lo it" and none: "to_come f it = []"
  then have "length (it_buf it) \<le> it_buf_idx it" "it_end it < it_cur it"
    by (auto simp: to_come_def chain_Nil)
  with inv show "iter_next E it w = (False, it, w)"
    by (simp add: iter_next_def iter_inv_def)
next
  fix it w x xs
  assume inv: "iter_inv E f lo it" and cons: "to_come f it = x # xs"
  show "\<exists>it' w'. iter_next E it w = (True, it', w') \<and> iter_block it' = x \<and> to_come f it' = xs \<and>
      iter_inv E f lo it'"
  proof (cases "it_buf_idx it < length (it_buf it)")
    case True
    with inv cons to_come_serve [OF True, of f] show ?thesis
      by (simp add: iter_next_buffered iter_inv_def [of E f lo it] iter_block_def)
  next
    case False
    with cons have "it_cur it \<le> it_end it"
      using chain_Nil [of f "it_cur it" "it_end it"] by (force simp: to_come_def)
    with iter_next_fetch [OF inv, of w] False cons show ?thesis
      by (auto simp: iter_block_def)
  qed
qed

section \<open>Properties\<close>

text \<open>C19: Against a node that serves the range, the loop over \<open>BlockIterator(start, end)\<close> yields exactly
  the blocks of the heights start to end, in order and each once, and ends with a nil \<open>Err()\<close>; every
  bound on the turns above the number of blocks is enough. The end height has to leave room for one
  batch below \<open>2 ^ 64\<close>.\<close>

theorem iterator_yields_range:
  assumes "end_height \<le> safe_end" and "serves E nc c f start end_height"
    and "length (chain f start end_height) < n"
  shows "\<exists>it. drain (iter_next E) iter_block n (BlockIterator nc c start end_height) w =
    Some (map (\<lambda>h. Some (f h)) [unat start..<Suc (unat end_height)], it) \<and> iter_err it = None"
proof -
  let ?it = "BlockIterator nc c start end_height"
  have "iter_inv E f start ?it"
    using assms(1,2) by (simp add: iter_inv_def BlockIterator_def default_block_batch_size_def)
  moreover have "to_come f ?it = chain f start end_height"
    by (simp add: to_come_def BlockIterator_def)
  ultimately show ?thesis
    using blocks.drain_rest [of E f start ?it n w] assms(3)
    by (auto simp: iter_inv_def iter_err_def chain_def simp del: upt_Suc)
qed

definition height_block :: "nat \<Rightarrow> block" where
  "height_block h = zero_block\<lparr>b_height := of_nat h\<rparr>"

definition block_7_json :: string where
  "block_7_json = [CHR ''['', CHR ''{''] @ quote ''height'' @ '':7}]''"

lemma block_7_decoded: "unmarshal dec_blocks block_7_json = Some [Some (height_block 7)]"
proof -
  have "json_parse block_7_json = Some (JArr [JObj [(''height'', ''7'', JNum ''7'')]])" by code_simp
  moreover have "show_u64 7 = ''7''" by code_simp
  then have "parse_uint ''7'' = Inr 7" using parse_uint_show [of 7] by simp
  ultimately show ?thesis
    by (simp add: unmarshal_def dec_block_def block_fields_def find_field_def fld_uint_def
        height_block_def zero_block_def)
qed

theorem iterator_yields_range_witness:
  "\<exists>it. drain (iter_next (ok_env block_7_json)) iter_block 2
     (BlockIterator sample_client background 7 7) start_world = Some ([Some (height_block 7)], it) \<and>
   iter_err it = None"
proof -
  have one: "s = 7 \<and> e = 7" if "7 \<le> s" "s \<le> e" "e \<le> (7 :: u64)" for s e
    using that by (meson order_antisym order_trans)
  have get: "fst (GetBlockRange (ok_env block_7_json) sample_client background 7 7 w) =
      Inr [Some (height_block 7)]" for w
    unfolding GetBlockRange_def
    by (subst query_definitive
        [where rs = "\<lparr>rs_status = 200, rs_headers = [], rs_body = block_7_json\<rparr>"])
      (simp_all add: ok_env_def sample_defs decode_json_def raw_string_def block_7_decoded)
  have "serves (ok_env block_7_json) sample_client background height_block 7 7"
    unfolding serves_def
    by (intro allI impI, drule (2) one) (simp add: chain_def get)
  then have "\<exists>it. drain (iter_next (ok_env block_7_json)) iter_block 2
      (BlockIterator sample_client background 7 7) start_world =
      Some (map (\<lambda>h. Some (height_block h)) [unat (7 :: u64)..<Suc (unat (7 :: u64))], it) \<and>
      iter_err it = None"
    by (intro iterator_yields_range) (simp_all add: safe_end_def chain_def)
  then show ?thesis by simp
qed

text \<open>An error of the node ends the iteration for good: \<open>Next\<close> returns false and records it, and
  every later \<open>Next\<close> returns false with the same error and without a request.\<close>

theorem iterator_error_sticky:
  assumes "it_err it = None" and "length (it_buf it) \<le> it_buf_idx it" and "it_cur it \<le> it_end it"
    and "GetBlockRange E (it_client it) (it_ctx it) (it_cur it) (batch_end it) w = (Inl e, w')"
  shows "\<exists>it'. iter_next E it w = (False, it', w') \<and> iter_err it' = Some e \<and>
    (\<forall>v. iter_next E it' v = (False, it', v))"
proof (intro exI conjI allI)
  let ?it = "it\<lparr>it_err := Some e\<rparr>"
  show "iter_next E it w = (False, ?it, w')"
    using assms by (simp add: iter_next_def not_less)
  show "iter_err ?it = Some e" by (simp add: iter_err_def)
  show "iter_next E ?it v = (False, ?it, v)" for v by (simp add: iter_next_def)
qed

theorem iterator_error_sticky_witness:
  "\<exists>e w' it'. iter_next (reply_env 404 ''no'') (BlockIterator sample_client background 1 9) start_world =
     (False, it', w') \<and> iter_err it' = Some e \<and>
     (\<forall>v. iter_next (reply_env 404 ''no'') it' v = (False, it', v))"
proof -
  let ?it = "BlockIterator sample_client background 1 9"
  let ?E = "reply_env 404 ''no''"
  have "\<exists>e w'. GetBlockRange ?E sample_client background 1 (batch_end ?it) start_world = (Inl e, w')"
    using get_definitive [of sample_client ?E
        "api_url sample_client (''/blocks?start='' @ show_u64 1 @ ''&end='' @ show_u64 (batch_end ?it))"
        start_world "\<lparr>rs_status = 404, rs_headers = [], rs_body = ''no''\<rparr>" background]
    by (simp add: GetBlockRange_def query_def reply_env_def sample_defs retryable_def)
  then obtain e w' where
    "GetBlockRange ?E sample_client background 1 (batch_end ?it) start_world = (Inl e, w')" by blast
  then have "\<exists>it'. iter_next ?E ?it start_world = (False, it', w') \<and> iter_err it' = Some e \<and>
      (\<forall>v. iter_next ?E it' v = (False, it', v))"
    by (intro iterator_error_sticky) (simp_all add: BlockIterator_def)
  then show ?thesis by blast
qed

lemma batch_end_below:
  assumes "it_batch_size it = 50" and "it_cur it \<le> it_end it" and "18446744073709551567 \<le> unat (it_cur it)"
  shows "batch_end it < it_cur it"
proof -
  have "it_cur it + 50 - 1 = it_cur it + 49" by simp
  moreover have lt: "unat (it_cur it) < 18446744073709551616"
    using unsigned_less [of "it_cur it", where ?'a = nat] by simp
  ultimately have "unat (it_cur it + 50 - 1) = unat (it_cur it) + 49 - 18446744073709551616"
    using assms(3) by (simp only: unat_word_ariths) (simp add: mod_if)
  with lt assms(3) have "unat (it_cur it + 50 - 1) < unat (it_cur it)" by linarith
  then have "it_cur it + 50 - 1 < it_cur it" by (simp only: word_less_nat_alt)
  moreover from this have "it_cur it + 50 - 1 < it_end it" using assms(2) by (rule less_le_trans)
  ultimately show ?thesis
    unfolding batch_end_def Let_def assms(1) by (simp only: less_not_sym if_False)
qed

text \<open>C39: Near the top of the range of \<open>uint64\<close> the batch arithmetic wraps. Started with less than a batch of
  room above, the iterator asks for a range whose end lies below its start, so that on a node that
  rejects such ranges the first \<open>Next\<close> already fails, though blocks of the requested range may exist. And
  with \<open>end = math.MaxUint64\<close> the range is never exhausted: after the batch that reaches the end, the
  iterator stands at height 0 and goes on with the heights 0 to 49.\<close>

theorem iterator_wraps:
  assumes "start \<le> end_height" and "18446744073709551567 \<le> unat start"
    and "\<forall>a b. b < a \<longrightarrow> (\<exists>e v. GetBlockRange E nc c a b w = (Inl e, v))"
    and "GetBlockRange E nc c (- 50) (- 1) u = (Inr blocks, u')"
  shows "(\<exists>it e v. iter_next E (BlockIterator nc c start end_height) w = (False, it, v) \<and>
      iter_err it = Some e) \<and>
    (\<exists>it. iter_next E (BlockIterator nc c (- 50) (- 1)) u = (blocks \<noteq> [], it, u') \<and> iter_err it = None \<and>
      it_cur it = 0 \<and> batch_end it = 49 \<and> \<not> it_end it < it_cur it)"
proof
  let ?it = "BlockIterator nc c start end_height"
  have "batch_end ?it < start"
    using batch_end_below [of ?it] assms(1,2) by (simp add: BlockIterator_def default_block_batch_size_def)
  then obtain e v where "GetBlockRange E nc c start (batch_end ?it) w = (Inl e, v)" using assms(3) by blast
  moreover have "\<not> end_height < start" using assms(1) by simp
  ultimately show "\<exists>it e v. iter_next E ?it w = (False, it, v) \<and> iter_err it = Some e"
    by (simp add: iter_next_def BlockIterator_def iter_err_def)
next
  let ?it = "BlockIterator nc c (- 50) (- 1)"
  have "batch_end ?it = - 1"
    by (simp add: batch_end_def BlockIterator_def default_block_batch_size_def)
  then show "\<exists>it. iter_next E ?it u = (blocks \<noteq> [], it, u') \<and> iter_err it = None \<and>
      it_cur it = 0 \<and> batch_end it = 49 \<and> \<not> it_end it < it_cur it"
    using assms(4)
    by (auto simp: iter_next_def BlockIterator_def iter_err_def serve_def Let_def batch_end_def
        default_block_batch_size_def)
qed

text \<open>A node with blocks at the top of the range only.\<close>

definition top_env :: env where
  "top_env = quiet_env\<lparr>respond := (\<lambda>_ rq. Reply
     (if rq_url rq = api_url sample_client (''/blocks?start='' @ show_u64 (- 50) @ ''&end='' @ show_u64 (- 1))
      then \<lparr>rs_status = 200, rs_headers = [], rs_body = ''[null]''\<rparr>
      else \<lparr>rs_status = 400, rs_headers = [], rs_body = ''bad range''\<rparr>))\<rparr>"

lemma top_env_range:
  "fst (GetBlockRange top_env sample_client background a b w) =
     (if ''/blocks?start='' @ show_u64 a @ ''&end='' @ show_u64 b =
         ''/blocks?start='' @ show_u64 (- 50) @ ''&end='' @ show_u64 (- 1) then Inr [None]
      else Inl (Wrapf (''get block range '' @ show_u64 a @ ''-'' @ show_u64 b) (Errorf ''HTTP 400: bad range'')))"
proof -
  let ?path = "''/blocks?start='' @ show_u64 a @ ''&end='' @ show_u64 b"
  let ?top = "''/blocks?start='' @ show_u64 (- 50) @ ''&end='' @ show_u64 (- 1)"
  define rs where "rs = (if ?path = ?top then \<lparr>rs_status = 200, rs_headers = [], rs_body = ''[null]''\<rparr>
    else \<lparr>rs_status = 400, rs_headers = [], rs_body = ''bad range''\<rparr>)"
  have "respond top_env (hist w) (get_request sample_client (api_url sample_client ?path)) = Reply rs"
    by (simp only: top_env_def rs_def get_request_def api_url_def) simp
  then have "fst (nc_get top_env sample_client background (api_url sample_client ?path) w) =
      (if rs_status rs = 200 then Inr (Some (rs_body rs)) else Inl (http_error rs))"
    by (subst get_definitive [where rs = rs])
      (simp_all add: top_env_def sample_defs rs_def retryable_def)
  moreover have "unmarshal dec_blocks ''[null]'' = Some [None]" by code_simp
  moreover have "http_error \<lparr>rs_status = 400, rs_headers = [], rs_body = ''bad range''\<rparr> =
      Errorf ''HTTP 400: bad range''" by (simp add: http_error_def) code_simp
  ultimately show ?thesis
    by (cases "nc_get top_env sample_client background (api_url sample_client ?path) w")
      (simp add: GetBlockRange_def query_def then_io_def decode_json_def raw_string_def rs_def ret_io_def
        split: sum.split)
qed

lemma range_path_inj:
  assumes "''/blocks?start='' @ show_u64 a @ ''&end='' @ show_u64 b =
    ''/blocks?start='' @ show_u64 a' @ ''&end='' @ show_u64 b'"
  shows "a = a' \<and> b = b'"
proof -
  have "c \<noteq> CHR ''&''" if "c \<in> set (show_u64 n)" for c n
    using show_nat_digits [of c "unat n"] that by (auto simp: show_u64_def is_digit_def)
  then have cut: "takeWhile (\<lambda>c. c \<noteq> CHR ''&'') (show_u64 n @ ''&end='' @ r) = show_u64 n" for n r
    by (subst takeWhile_append2) auto
  have "show_u64 a @ ''&end='' @ show_u64 b = show_u64 a' @ ''&end='' @ show_u64 b'"
    using assms by (simp only: same_append_eq)
  then have "show_u64 a = show_u64 a'" using cut by metis
  with assms show ?thesis by (simp add: show_u64_inj)
qed

theorem iterator_wraps_witness:
  "(\<exists>it e v. iter_next top_env (BlockIterator sample_client background (- 10) (- 1)) start_world =
      (False, it, v) \<and> iter_err it = Some e) \<and>
   (\<exists>it v. iter_next top_env (BlockIterator sample_client background (- 50) (- 1)) start_world =
      (True, it, v) \<and> it_cur it = 0)"
proof -
  have rej: "\<forall>a b. b < a \<longrightarrow> (\<exists>e v. GetBlockRange top_env sample_client background a b start_world = (Inl e, v))"
  proof (intro allI impI)
    fix a b :: u64
    assume "b < a"
    then have "\<not> (a = - 50 \<and> b = - 1)" by auto
    then have "\<exists>e. fst (GetBlockRange top_env sample_client background a b start_world) = Inl e"
      using range_path_inj [of a b "- 50" "- 1"] unfolding top_env_range by (metis (no_types))
    then show "\<exists>e v. GetBlockRange top_env sample_client background a b start_world = (Inl e, v)"
      by (metis prod.collapse)
  qed
  obtain v where got: "GetBlockRange top_env sample_client background (- 50) (- 1) start_world = (Inr [None], v)"
    using top_env_range [of "- 50" "- 1" start_world] by (metis prod.collapse)
  have "(- 10 :: u64) \<le> - 1" "18446744073709551567 \<le> unat (- 10 :: u64)" by simp_all
  from iterator_wraps [OF this rej got] show ?thesis
    by (simp only: list.distinct not_False_eq_True) blast
qed

end
