(* ===== verification/Retry_Reference.thy ===== *)
theory Retry_Reference
  imports Network_Client Provable_Client
begin

text \<open>
  What the two retry loops compute, without the loops: a function of the list of answers the server
  gives. The loops (\<open>NetworkClient.get\<close> and \<open>SubmitProvingRequestSafe\<close>) are proved equal to it for every
  server and every sequence of answers, as long as the context is not cancelled.
\<close>

section \<open>The GET\<close>

text \<open>An answer that asks for another attempt leaves the error to report if none follows.\<close>

fun get_answer :: "http_outcome \<Rightarrow> get_step" where
  "get_answer (Transport_Error m) = Again (Some (LibErr m))"
| "get_answer (Read_Error _ m) = Again (Some (LibErr m))"
| "get_answer (Reply rs) =
     (if rs_status rs = 200 then Stop (Inr (Some (rs_body rs)))
      else if rs_status rs = 429 \<or> 500 \<le> rs_status rs then Again (Some (http_error rs))
      else Stop (Inl (http_error rs)))"

definition get_reference :: "http_outcome list \<Rightarrow> raw_message result" where
  "get_reference answers = first_stop get_exhausted None (map get_answer answers)"

text \<open>
  The time an attempt waits, for the attempt's number and the answer it gets: the back-off before
  the request and, after a 429, the whole seconds of \<open>Retry-After\<close>.
\<close>

definition backoff_pause :: "int \<Rightarrow> nat \<Rightarrow> int list" where
  "backoff_pause base k = (if k = 0 then [] else [base * 2 ^ (k - 1)])"

fun retry_after_pause :: "http_outcome \<Rightarrow> int list" where
  "retry_after_pause (Reply rs) =
     (case parse_int (header_get ''Retry-After'' (rs_headers rs)) of
        Inr secs \<Rightarrow> if rs_status rs = 429 \<and> 0 < secs then [secs * second] else []
      | Inl _ \<Rightarrow> [])"
| "retry_after_pause _ = []"

fun schedule :: "(nat \<Rightarrow> 'o \<Rightarrow> int list) \<Rightarrow> ('o \<Rightarrow> bool) \<Rightarrow> nat \<Rightarrow> 'o list \<Rightarrow> int list" where
  "schedule pause again k [] = []"
| "schedule pause again k (a # as) =
     pause k a @ (if again a then schedule pause again (Suc k) as else [])"

lemma schedule_cong:
  "(\<And>j a. k \<le> j \<Longrightarrow> j < k + length as \<Longrightarrow> a \<in> set as \<Longrightarrow> p j a = q j a) \<Longrightarrow>
     schedule p again k as = schedule q again k as"
proof (induction as arbitrary: k)
  case (Cons a as)
  have "schedule p again (Suc k) as = schedule q again (Suc k) as"
    by (rule Cons.IH) (use Cons.prems in auto)
  with Cons.prems [of k a] show ?case by simp
qed simp

lemma retry_schedule:
  assumes "\<And>k w. \<exists>v. body k w = (step_of (answer (requests w)), v) \<and> requests v = Suc (requests w) \<and>
    waits v = rev (pause k (answer (requests w))) @ waits w"
  shows "waits (snd (retry body fin n k prev w)) =
    rev (schedule pause (\<lambda>a. is_again (step_of a)) k (map answer [requests w..<requests w + n])) @ waits w"
proof (induction n arbitrary: k prev w)
  case (Suc n)
  obtain v where b: "body k w = (step_of (answer (requests w)), v)" and v: "requests v = Suc (requests w)"
    "waits v = rev (pause k (answer (requests w))) @ waits w"
    using assms by blast
  have "[requests w..<requests w + Suc n] = requests w # [requests v..<requests v + n]"
    using v by (simp add: upt_conv_Cons)
  then show ?case
    using b v Suc.IH [of "Suc k" _ v] by (cases "step_of (answer (requests w))") (simp_all del: upt.simps)
qed simp

lemma weaken_step: "\<exists>v. x = (a, v) \<and> P v \<and> Q v \<Longrightarrow> \<exists>v. x = (a, v) \<and> P v"
  by blast

lemma retry_after_never_done:
  assumes "cancel_at c = None"
  shows "\<exists>w'. retry_after_wait E c rs w = (None, w') \<and> requests w' = requests w \<and>
    waits w' = map (\<lambda>d. max 0 (wrap64 d)) (retry_after_pause (Reply rs)) @ waits w"
proof (cases "parse_int (header_get ''Retry-After'' (rs_headers rs))")
  case (Inr secs)
  then have "header_get ''Retry-After'' (rs_headers rs) \<noteq> []"
    using parse_int_Nil by (metis is_ok_simps(1))
  with Inr assms show ?thesis
    by (simp add: retry_after_wait_def wait_select_never_done requests_def waits_def)
qed (simp add: retry_after_wait_def Let_def)

lemma backoff_never_done:
  assumes "cancel_at c = None"
  shows "\<exists>w'. backoff_wait E c base k w = (None, w') \<and> requests w' = requests w \<and>
    waits w' = (if k = 0 then [] else [max 0 (backoff E base k)]) @ waits w"
  using assms by (auto simp: backoff_wait_def wait_select_never_done requests_def waits_def)

lemma http_waits: "http_do E rq w = (out, w') \<Longrightarrow> waits w' = waits w"
  by (auto dest!: http_do_world simp: waits_def)

lemma get_attempt_answer:
  assumes "cancel_at c = None" and "nc_rate_limiter nc = None" and "\<not> url_error E url"
    and "\<forall>v. respond E (hist v) (get_request nc url) = answer (requests v)"
  shows "\<exists>v. get_attempt E nc c url k w = (get_answer (answer (requests w)), v) \<and>
    requests v = Suc (requests w) \<and>
    waits v = rev ((if k = 0 then [] else [max 0 (backoff E (nc_base_delay nc) k)]) @
      map (\<lambda>d. max 0 (wrap64 d)) (retry_after_pause (answer (requests w)))) @ waits w"
proof -
  obtain w1 where b: "backoff_wait E c (nc_base_delay nc) k w = (None, w1)" "requests w1 = requests w"
    "waits w1 = (if k = 0 then [] else [max 0 (backoff E (nc_base_delay nc) k)]) @ waits w"
    using backoff_never_done [OF assms(1)] by blast
  obtain w3 where h: "http_do E (get_request nc url) w1 = (answer (requests w), w3)"
    using http_do_eq [of E "get_request nc url" w1] assms(4) b(2) by auto
  have w3: "requests w3 = Suc (requests w)" "waits w3 = waits w1"
    using http_do_world [OF h] b(2) http_waits [OF h] by simp_all
  have step: "get_attempt E nc c url k w = (case answer (requests w) of
      Transport_Error m \<Rightarrow> (Again (Some (LibErr m)), w3)
    | Read_Error rs m \<Rightarrow> (Again (Some (LibErr m)), w3)
    | Reply rs \<Rightarrow> classify_reply E c rs w3)"
    using b h assms(2,3) by (simp add: get_attempt_def rate_wait_def split: http_outcome.split)
  show ?thesis
  proof (cases "answer (requests w)")
    case (Reply rs)
    obtain w4 where w4: "retry_after_wait E c rs w3 = (None, w4)" "requests w4 = requests w3"
      "waits w4 = map (\<lambda>d. max 0 (wrap64 d)) (retry_after_pause (Reply rs)) @ waits w3"
      using retry_after_never_done [OF assms(1)] by blast
    have "retry_after_pause (Reply rs) = []" if "rs_status rs \<noteq> 429"
      using that by (simp split: sum.split)
    moreover have "length (retry_after_pause (Reply rs)) \<le> 1" by (simp split: sum.split)
    then have "rev (map f (retry_after_pause (Reply rs))) = map f (retry_after_pause (Reply rs))" for f :: "int \<Rightarrow> int"
      by (cases "retry_after_pause (Reply rs)") simp_all
    ultimately show ?thesis
      using Reply step w3 w4 b(3)
      by (auto simp: classify_reply_def retryable_def simp del: retry_after_pause.simps)
  qed (use step w3 b(3) in simp_all)
qed

text \<open>Delays that fit a signed 64-bit duration are the ideal ones.\<close>

definition backoff_fits :: "int \<Rightarrow> nat \<Rightarrow> bool" where
  "backoff_fits base n = (0 \<le> base \<and> n \<le> 64 \<and> base * 2 ^ (n - 2) \<le> max_int64)"

fun retry_after_fits :: "http_outcome \<Rightarrow> bool" where
  "retry_after_fits (Reply rs) =
     (case parse_int (header_get ''Retry-After'' (rs_headers rs)) of
        Inr secs \<Rightarrow> secs \<le> 9223372036
      | Inl _ \<Rightarrow> True)"
| "retry_after_fits _ = True"

lemma ideal_backoff:
  assumes "backoff_fits base m" and "k < m"
  shows "(if k = 0 then [] else [max 0 (backoff E base k)]) = backoff_pause base k"
proof (cases "k = 0")
  case False
  note fits = assms(1) [unfolded backoff_fits_def]
  have "base * 2 ^ (k - 1) \<le> base * 2 ^ (m - 2)"
    using fits assms(2) by (intro mult_left_mono power_increasing) auto
  with fits assms(2) False have "backoff E base k = base * 2 ^ (k - 1)" by (intro backoff_exact) simp_all
  moreover have "0 \<le> base * 2 ^ (k - 1)" using fits by simp
  ultimately show ?thesis using False by (simp add: backoff_pause_def)
qed (simp add: backoff_pause_def)

lemma ideal_retry_after:
  assumes "retry_after_fits a"
  shows "map (\<lambda>d. max 0 (wrap64 d)) (retry_after_pause a) = retry_after_pause a"
proof -
  have "max 0 (wrap64 (s * second)) = s * second" if "0 < s" "s \<le> 9223372036" for s
    using that by (subst wrap64_nonneg_id) (simp_all add: second_def max_int64_def)
  with assms show ?thesis by (cases a) (simp_all split: sum.splits)
qed

lemma get_waits_schedule:
  assumes "cancel_at c = None" and "nc_rate_limiter nc = None" and "\<not> url_error E url"
    and "\<forall>v. respond E (hist v) (get_request nc url) = answer (requests v)"
    and "answers = map answer [requests w..<requests w + nat (nc_max_retries nc + 1)]"
    and "backoff_fits (nc_base_delay nc) (length answers)" and "list_all retry_after_fits answers"
  shows "waits (snd (nc_get E nc c url w)) =
    rev (schedule (\<lambda>k a. backoff_pause (nc_base_delay nc) k @ retry_after_pause a)
      (\<lambda>a. is_again (get_answer a)) 0 answers) @ waits w"
proof -
  let ?raw = "\<lambda>k a. (if k = 0 then [] else [max 0 (backoff E (nc_base_delay nc) k)]) @
      map (\<lambda>d. max 0 (wrap64 d)) (retry_after_pause a)"
  have "waits (snd (nc_get E nc c url w)) =
      rev (schedule ?raw (\<lambda>a. is_again (get_answer a)) 0 answers) @ waits w"
    using retry_schedule [where pause = ?raw, OF get_attempt_answer [OF assms(1-4)],
        where fin = get_exhausted and n = "attempts (nc_max_retries nc)" and k = 0 and prev = None and w = w]
    by (simp add: nc_get_def assms(5) attempts_def)
  also have "schedule ?raw (\<lambda>a. is_again (get_answer a)) 0 answers =
      schedule (\<lambda>k a. backoff_pause (nc_base_delay nc) k @ retry_after_pause a)
        (\<lambda>a. is_again (get_answer a)) 0 answers"
  proof (rule schedule_cong)
    fix j a
    assume j: "j < 0 + length answers" and a: "a \<in> set answers"
    from j ideal_backoff [OF assms(6), of j E]
    have "(if j = 0 then [] else [max 0 (backoff E (nc_base_delay nc) j)]) =
        backoff_pause (nc_base_delay nc) j" by simp
    moreover have "map (\<lambda>d. max 0 (wrap64 d)) (retry_after_pause a) = retry_after_pause a"
      using a assms(7) by (intro ideal_retry_after) (simp add: list_all_iff)
    ultimately show "?raw j a = backoff_pause (nc_base_delay nc) j @ retry_after_pause a" by simp
  qed
  finally show ?thesis .
qed

text \<open>C9: The GET is what its reference says. For every sequence of answers of the server, with no
  cancellation and no rate limiter: the result is the first answer among the first \<open>maxRetries + 1\<close>
  that is neither a transport failure nor 429 nor 5xx, and otherwise the error of the final one; no
  request is sent after the answer that decides. It waits, as long as the delays fit a 64-bit
  duration, \<open>baseDelay * 2^(k-1)\<close> before the k-th retry and exactly the \<open>Retry-After\<close> seconds of a 429
  after it, and never else. For a negative \<open>maxRetries\<close> there is no answer, and the
  reference like the code returns a nil body without an error.\<close>

theorem get_equals_reference:
  assumes "cancel_at c = None" and "nc_rate_limiter nc = None" and "\<not> url_error E url"
    and "\<forall>v. respond E (hist v) (get_request nc url) = answer (requests v)"
    and "answers = map answer [requests w..<requests w + nat (nc_max_retries nc + 1)]"
  shows "fst (nc_get E nc c url w) = get_reference answers \<and>
    requests (snd (nc_get E nc c url w)) = requests w + min (length answers)
      (Suc (length (takeWhile (\<lambda>o'. is_again (get_answer o')) answers))) \<and>
    (backoff_fits (nc_base_delay nc) (length answers) \<and> list_all retry_after_fits answers \<longrightarrow>
     waits (snd (nc_get E nc c url w)) =
       rev (schedule (\<lambda>k a. backoff_pause (nc_base_delay nc) k @ retry_after_pause a)
         (\<lambda>a. is_again (get_answer a)) 0 answers) @ waits w)"
proof -
  have len: "length answers = attempts (nc_max_retries nc)"
    and steps: "map get_answer answers =
      map (\<lambda>i. get_answer (answer i)) [requests w..<requests w + attempts (nc_max_retries nc)]"
    unfolding assms(5) by (simp_all add: attempts_def)
  have "fst (nc_get E nc c url w) = get_reference answers \<and>
    requests (snd (nc_get E nc c url w)) = requests w + min (length answers)
      (Suc (length (takeWhile (\<lambda>o'. is_again (get_answer o')) answers)))"
    using retry_first_stop [OF weaken_step [OF get_attempt_answer [OF assms(1-4)]], where fin = get_exhausted
        and n = "attempts (nc_max_retries nc)" and k = 0 and prev = None and w = w]
    unfolding nc_get_def get_reference_def steps [symmetric] takeWhile_map len by (simp add: o_def)
  with get_waits_schedule [OF assms] show ?thesis by blast
qed

text \<open>A server that answers by the number of requests sent so far.\<close>

definition script_env :: "(nat \<Rightarrow> http_outcome) \<Rightarrow> env" where
  "script_env answer = quiet_env\<lparr>respond := (\<lambda>h _. answer (length (filter is_http h)))\<rparr>"

lemma script_env_answers: "respond (script_env answer) (hist v) rq = answer (requests v)"
  by (simp add: script_env_def requests_def)

definition plain_reply :: "int \<Rightarrow> string \<Rightarrow> http_outcome" where
  "plain_reply status body = Reply \<lparr>rs_status = status, rs_headers = [], rs_body = body\<rparr>"

text \<open>A server that is down for two requests and then answers with \<open>body\<close>.\<close>

definition recovering :: "string \<Rightarrow> nat \<Rightarrow> http_outcome" where
  "recovering body i = (if i < 2 then plain_reply 500 ''down'' else plain_reply 200 body)"

lemma recovering_answers:
  "map (recovering body) [0..<4] =
     [plain_reply 500 ''down'', plain_reply 500 ''down'', plain_reply 200 body, plain_reply 200 body]"
  by (simp add: recovering_def upt_conv_Cons)

text \<open>A server that is busy for one request, down for one, and then answers.\<close>

definition busy :: "nat \<Rightarrow> http_outcome" where
  "busy i = (if i = 0 then Reply \<lparr>rs_status = 429, rs_headers = [(''Retry-After'', ''2'')], rs_body = []\<rparr>
     else recovering ''7'' i)"

theorem get_equals_reference_witness:
  "fst (nc_get (script_env busy) sample_client background ''u'' start_world) = Inr (Some ''7'') \<and>
   requests (snd (nc_get (script_env busy) sample_client background ''u'' start_world)) = 3 \<and>
   waits (snd (nc_get (script_env busy) sample_client background ''u'' start_world)) =
     [1000000000, 500000000, 2000000000]"
proof -
  let ?answers = "map busy [requests start_world..<requests start_world + nat (nc_max_retries sample_client + 1)]"
  have a: "?answers = [Reply \<lparr>rs_status = 429, rs_headers = [(''Retry-After'', ''2'')], rs_body = []\<rparr>,
      plain_reply 500 ''down'', plain_reply 200 ''7'', plain_reply 200 ''7'']"
    by (simp add: requests_def sample_defs busy_def recovering_def upt_conv_Cons)
  have "show_int 2 = ''2''" "header_get ''Retry-After'' [(''Retry-After'', ''2'')] = ''2''"
      "header_get ''Retry-After'' [] = []"
    by code_simp+
  with parse_int_show [of 2] parse_int_Nil
  have p: "parse_int (header_get ''Retry-After'' [(''Retry-After'', ''2'')]) = Inr 2"
      "\<not> is_ok (parse_int (header_get ''Retry-After'' []))"
    by (simp_all add: min_int64_def max_int64_def)
  have fits: "backoff_fits (nc_base_delay sample_client) (length ?answers)"
      "list_all retry_after_fits ?answers"
    unfolding a using p
    by (auto simp: backoff_fits_def sample_defs max_int64_def plain_reply_def split: sum.splits)
  have "\<forall>v. respond (script_env busy) (hist v) (get_request sample_client ''u'') = busy (requests v)"
    by (simp add: script_env_answers)
  from get_equals_reference [OF _ _ _ this refl, of background start_world] fits
  have main: "fst (nc_get (script_env busy) sample_client background ''u'' start_world) =
      get_reference ?answers \<and>
    requests (snd (nc_get (script_env busy) sample_client background ''u'' start_world)) =
      requests start_world + min (length ?answers)
        (Suc (length (takeWhile (\<lambda>o'. is_again (get_answer o')) ?answers))) \<and>
    waits (snd (nc_get (script_env busy) sample_client background ''u'' start_world)) =
      rev (schedule (\<lambda>k a. backoff_pause (nc_base_delay sample_client) k @ retry_after_pause a)
        (\<lambda>a. is_again (get_answer a)) 0 ?answers) @ waits start_world"
    by (simp add: script_env_def sample_defs)
  show ?thesis
    using main p unfolding a
    by (auto simp: get_reference_def plain_reply_def backoff_pause_def second_def sample_defs waits_def
        requests_def split: sum.splits)
qed

section \<open>The submission of a proving request\<close>

fun submit_answer :: "http_outcome \<Rightarrow> (proving_result result, unit) step" where
  "submit_answer (Transport_Error m) = Stop (Inl (Wrapf ''prove request failed'' (LibErr m)))"
| "submit_answer (Read_Error _ m) = Stop (Inl (Wrapf ''read prove response'' (LibErr m)))"
| "submit_answer (Reply rs) =
     (if rs_status rs = 500 \<or> rs_status rs = 503 then Again ()
      else Stop (Inr (handle_proving_response (rs_status rs) (rs_body rs))))"

definition submit_reference :: "http_outcome list \<Rightarrow> proving_result result" where
  "submit_reference answers =
     first_stop (\<lambda>_. Inr retries_exceeded) () (map submit_answer answers)"

lemma submit_attempt_answer:
  assumes "cancel_at c = None" and "\<not> dp_privacy params"
    and "marshal_proving_request (dp_request params) = Some body" and "\<not> url_error E (base @ ''/prove'')"
    and "\<forall>v. respond E (hist v) (prove_request pc jwt base body) = answer (requests v)"
  shows "\<exists>v. submit_attempt E B pc c jwt base params k w = (submit_answer (answer (requests w)), v) \<and>
    requests v = Suc (requests w) \<and>
    waits v = rev (if k = 0 then [] else [max 0 (backoff E (pc_base_delay pc) k)]) @ waits w"
proof -
  obtain w1 where b: "backoff_wait E c (pc_base_delay pc) k w = (None, w1)" "requests w1 = requests w"
    "waits w1 = (if k = 0 then [] else [max 0 (backoff E (pc_base_delay pc) k)]) @ waits w"
    using backoff_never_done [OF assms(1)] by blast
  obtain w3 where h: "http_do E (prove_request pc jwt base body) w1 = (answer (requests w), w3)"
    using http_do_eq [of E "prove_request pc jwt base body" w1] assms(5) b(2) by auto
  have "requests w3 = Suc (requests w)" "waits w3 = waits w1"
    using http_do_world [OF h] b(2) http_waits [OF h] by simp_all
  moreover have "submit_unencrypted E pc c jwt base (dp_request params) w1 =
      do_prove_request E (prove_request pc jwt base body) w1"
    using assms(3,4) by (simp add: submit_unencrypted_def Let_def prove_request_def)
  moreover have "\<not> pres_ok (handle_proving_response st reply) \<and>
      (pres_status (handle_proving_response st reply) = 500 \<or>
       pres_status (handle_proving_response st reply) = 503) \<longleftrightarrow> st = 500 \<or> st = 503" for st reply
    by (auto simp: handle_proving_response_def failed_result_def split: option.split)
  ultimately show ?thesis
    using b h assms(2)
    by (cases "answer (requests w)") (simp_all add: submit_attempt_def do_prove_request_def)
qed

lemma submission_waits_schedule:
  assumes "cancel_at c = None" and "\<not> dp_privacy params"
    and "marshal_proving_request (dp_request params) = Some body" and "\<not> url_error E (base @ ''/prove'')"
    and "pc_jwt pc \<noteq> []" and "clock w < pc_jwt_exp pc - jwt_buffer_duration"
    and "base = (if dp_url params \<noteq> [] then trim_right_set (dp_url params) ''/'' else pc_prover_base pc)"
    and "\<forall>v. respond E (hist v) (prove_request pc (pc_jwt pc) base body) = answer (requests v)"
    and "answers = map answer [requests w..<requests w + nat (pc_max_retries pc + 1)]"
    and "backoff_fits (pc_base_delay pc) (length answers)"
  shows "waits (snd (SubmitProvingRequestSafe E B pc c params w)) =
    rev (schedule (\<lambda>k a. backoff_pause (pc_base_delay pc) k)
      (\<lambda>a. is_again (submit_answer a)) 0 answers) @ waits w"
proof -
  let ?raw = "\<lambda>k (a :: http_outcome). if k = 0 then [] else [max 0 (backoff E (pc_base_delay pc) k)]"
  let ?loop = "retry (submit_attempt E B pc c (pc_jwt pc) base params) (\<lambda>_. Inr retries_exceeded)
      (attempts (pc_max_retries pc)) 0 () w"
  have "snd (SubmitProvingRequestSafe E B pc c params w) = snd ?loop"
    by (simp add: SubmitProvingRequestSafe_def Let_def GetJWT_fresh [OF assms(5,6)] assms(7) split: prod.split)
  moreover have "waits (snd ?loop) =
      rev (schedule ?raw (\<lambda>a. is_again (submit_answer a)) 0 answers) @ waits w"
    using retry_schedule [where body = "submit_attempt E B pc c (pc_jwt pc) base params" and pause = ?raw,
        OF submit_attempt_answer [OF assms(1-4,8)], where fin = "\<lambda>_. Inr retries_exceeded"
        and n = "attempts (pc_max_retries pc)" and k = 0 and prev = "()" and w = w]
    by (simp add: assms(9) attempts_def)
  moreover have "schedule ?raw (\<lambda>a. is_again (submit_answer a)) 0 answers =
      schedule (\<lambda>k a. backoff_pause (pc_base_delay pc) k) (\<lambda>a. is_again (submit_answer a)) 0 answers"
    by (rule schedule_cong) (use ideal_backoff [OF assms(10), of _ E] in simp)
  ultimately show ?thesis by simp
qed

text \<open>C10: The plain submission is what its reference says. For every sequence of answers of the prover, with
  a valid cached JWT and no cancellation: the result is what the first answer other than 500 and 503
  among the first \<open>maxRetries + 1\<close> gives, a transport failure included, and 503 "max retries exceeded"
  if there is none; no request is sent after the answer that decides, and the client is unchanged. It
  waits, as long as the delays fit a 64-bit duration, \<open>baseDelay * 2^(k-1)\<close> before the k-th retry and
  never else: a \<open>Retry-After\<close> of the prover is not read.\<close>

theorem submission_equals_reference:
  assumes "cancel_at c = None" and "\<not> dp_privacy params"
    and "marshal_proving_request (dp_request params) = Some body" and "\<not> url_error E (base @ ''/prove'')"
    and "pc_jwt pc \<noteq> []" and "clock w < pc_jwt_exp pc - jwt_buffer_duration"
    and "base = (if dp_url params \<noteq> [] then trim_right_set (dp_url params) ''/'' else pc_prover_base pc)"
    and "\<forall>v. respond E (hist v) (prove_request pc (pc_jwt pc) base body) = answer (requests v)"
    and "answers = map answer [requests w..<requests w + nat (pc_max_retries pc + 1)]"
  shows "\<exists>w'. SubmitProvingRequestSafe E B pc c params w = ((submit_reference answers, pc), w') \<and>
    requests w' = requests w + min (length answers)
      (Suc (length (takeWhile (\<lambda>o'. is_again (submit_answer o')) answers))) \<and>
    (backoff_fits (pc_base_delay pc) (length answers) \<longrightarrow>
     waits w' = rev (schedule (\<lambda>k a. backoff_pause (pc_base_delay pc) k)
       (\<lambda>a. is_again (submit_answer a)) 0 answers) @ waits w)"
proof -
  have len: "length answers = attempts (pc_max_retries pc)"
    and steps: "map submit_answer answers =
      map (\<lambda>i. submit_answer (answer i)) [requests w..<requests w + attempts (pc_max_retries pc)]"
    unfolding assms(9) by (simp_all add: attempts_def)
  obtain r w' where loop: "retry (submit_attempt E B pc c (pc_jwt pc) base params)
      (\<lambda>_. Inr retries_exceeded) (attempts (pc_max_retries pc)) 0 () w = (r, w')" by fastforce
  with retry_first_stop [where body = "submit_attempt E B pc c (pc_jwt pc) base params",
      OF weaken_step [OF submit_attempt_answer [OF assms(1-4,8)]], where fin = "\<lambda>_. Inr retries_exceeded"
      and n = "attempts (pc_max_retries pc)" and k = 0 and prev = "()" and w = w]
  have "r = submit_reference answers" and "requests w' = requests w + min (length answers)
      (Suc (length (takeWhile (\<lambda>o'. is_again (submit_answer o')) answers)))"
    unfolding submit_reference_def steps [symmetric] takeWhile_map len by (simp_all add: o_def)
  moreover have s: "SubmitProvingRequestSafe E B pc c params w = ((r, pc), w')"
    using loop by (simp add: SubmitProvingRequestSafe_def Let_def GetJWT_fresh [OF assms(5,6)] assms(7))
  ultimately show ?thesis
    using submission_waits_schedule [OF assms, of B] by simp
qed

theorem submission_equals_reference_witness:
  "\<exists>w'. SubmitProvingRequestSafe (script_env (recovering ''{}'')) toy_box logged_in background sample_params
     start_world = ((Inr \<lparr>pres_ok = True, pres_data = Some zero_response, pres_status = 0,
       pres_error = None\<rparr>, logged_in), w') \<and> requests w' = 3 \<and>
     waits w' = [pc_base_delay logged_in * 2, pc_base_delay logged_in]"
proof -
  let ?answers = "map (recovering ''{}'') [requests start_world..<requests start_world +
    nat (pc_max_retries logged_in + 1)]"
  have a: "?answers = map (recovering ''{}'') [0..<4]"
    by (simp add: requests_def logged_in_def sample_dps_def start_world_def)
  have fits: "backoff_fits (pc_base_delay logged_in) (length ?answers)"
    unfolding a by (simp add: backoff_fits_def logged_in_def sample_dps_def max_int64_def)
  have dec: "unmarshal dec_response ''{}'' = Some zero_response" by code_simp
  have "\<exists>w'. SubmitProvingRequestSafe (script_env (recovering ''{}'')) toy_box logged_in background sample_params
      start_world = ((submit_reference ?answers, logged_in), w') \<and>
    requests w' = requests start_world + min (length ?answers)
      (Suc (length (takeWhile (\<lambda>o'. is_again (submit_answer o')) ?answers))) \<and>
    (backoff_fits (pc_base_delay logged_in) (length ?answers) \<longrightarrow>
     waits w' = rev (schedule (\<lambda>k a. backoff_pause (pc_base_delay logged_in) k)
       (\<lambda>a. is_again (submit_answer a)) 0 ?answers) @ waits start_world)"
    by (rule submission_equals_reference [OF _ _ sample_marshal _ logged_in_fresh refl _ refl])
      (simp_all add: script_env_answers, simp_all add: script_env_def quiet_env_def background_def sample_params_def)
  with fits show ?thesis
    unfolding a recovering_answers
    by (simp add: submit_reference_def plain_reply_def dec handle_proving_response_def requests_def
        start_world_def numeral_3_eq_3 backoff_pause_def waits_def)
qed

end
