(* ===== verification/JWT_Mutex.thy ===== *)
theory JWT_Mutex
  imports Provable_Client
begin

text \<open>
  The JWT cache of \<open>ProvableClient\<close> is the one piece of state that concurrent executions write, under the
  mutex \<open>jwtMu\<close>. This theory follows any number of goroutines that call \<open>GetJWT\<close> on one client: a goroutine
  locks the mutex, runs the body on the shared client, and unlocks; between any two steps the rest of
  the program may send requests and let time pass.
\<close>

datatype jwt_phase = Calling | Locked | Served | Returned

record jwt_pool =
  jp_phases :: "jwt_phase list"
  jp_results :: "string result option list"
  jp_locked :: bool
  jp_client :: provable_client
  jp_world :: world

definition jwt_init :: "nat \<Rightarrow> provable_client \<Rightarrow> world \<Rightarrow> jwt_pool" where
  "jwt_init n pc w = \<lparr>jp_phases = replicate n Calling, jp_results = replicate n None,
     jp_locked = False, jp_client = pc, jp_world = w\<rparr>"

definition set_jwt_phase :: "nat \<Rightarrow> jwt_phase \<Rightarrow> jwt_pool \<Rightarrow> jwt_pool" where
  "set_jwt_phase i p s = s\<lparr>jp_phases := (jp_phases s)[i := p]\<rparr>"

text \<open>\<open>c.jwtMu.Lock()\<close>, the body of \<open>GetJWT\<close>, and the deferred \<open>c.jwtMu.Unlock()\<close>.\<close>

inductive jwt_step :: "env \<Rightarrow> jwt_pool \<Rightarrow> jwt_pool \<Rightarrow> bool" for E where
  jwt_lock: "i < length (jp_phases s) \<Longrightarrow> jp_phases s ! i = Calling \<Longrightarrow> \<not> jp_locked s \<Longrightarrow>
    jwt_step E s ((set_jwt_phase i Locked s)\<lparr>jp_locked := True\<rparr>)"
| jwt_body: "i < length (jp_phases s) \<Longrightarrow> jp_phases s ! i = Locked \<Longrightarrow>
    GetJWT E (jp_client s) c (jp_world s) = ((r, pc'), w') \<Longrightarrow>
    jwt_step E s ((set_jwt_phase i Served s)\<lparr>jp_results := (jp_results s)[i := Some r],
      jp_client := pc', jp_world := w'\<rparr>)"
| jwt_unlock: "i < length (jp_phases s) \<Longrightarrow> jp_phases s ! i = Served \<Longrightarrow>
    jwt_step E s ((set_jwt_phase i Returned s)\<lparr>jp_locked := False\<rparr>)"
| jwt_other: "later (jp_world s) v \<Longrightarrow> jwt_step E s (s\<lparr>jp_world := v\<rparr>)"

section \<open>Invariants\<close>

definition in_section :: "jwt_phase list \<Rightarrow> nat" where
  "in_section ps = length (filter (\<lambda>p. p = Locked \<or> p = Served) ps)"

lemma in_section_update:
  "i < length ps \<Longrightarrow> in_section (ps[i := p]) + (if ps ! i = Locked \<or> ps ! i = Served then 1 else 0) =
     in_section ps + (if p = Locked \<or> p = Served then 1 else 0)"
  unfolding in_section_def by (rule count_update)

text \<open>The mutex is locked exactly when one goroutine is in the critical section.\<close>

definition lock_inv :: "nat \<Rightarrow> jwt_pool \<Rightarrow> bool" where
  "lock_inv n s = (length (jp_phases s) = n \<and> length (jp_results s) = n \<and>
     in_section (jp_phases s) = (if jp_locked s then 1 else 0))"

lemma lock_inv_step:
  assumes "jwt_step E s s'" and "lock_inv n s"
  shows "lock_inv n s'"
  using assms
proof cases
  case (jwt_lock i)
  with assms(2) in_section_update [of i "jp_phases s" Locked] show ?thesis
    by (simp add: lock_inv_def set_jwt_phase_def)
next
  case (jwt_body i c r pc' w')
  with assms(2) in_section_update [of i "jp_phases s" Served] show ?thesis
    by (simp add: lock_inv_def set_jwt_phase_def)
next
  case (jwt_unlock i)
  with assms(2) in_section_update [of i "jp_phases s" Returned] show ?thesis
    by (simp add: lock_inv_def set_jwt_phase_def split: if_splits)
qed (use assms(2) in \<open>simp add: lock_inv_def\<close>)

text \<open>
  \<open>T\<close> is a time before which no token that the service hands out has to be refreshed. Until then
  the first token that was fetched is the one every goroutine gets.
\<close>

definition tokens_last :: "env \<Rightarrow> int \<Rightarrow> bool" where
  "tokens_last E T = (\<forall>pc c v tok v'. fetch_jwt E pc c v = (Inr tok, v') \<longrightarrow>
     T < parse_jwt_expiry (clock v') tok - jwt_buffer_duration)"

definition token_inv :: "int \<Rightarrow> jwt_pool \<Rightarrow> bool" where
  "token_inv T s =
     ((pc_jwt (jp_client s) \<noteq> [] \<longrightarrow> T < pc_jwt_exp (jp_client s) - jwt_buffer_duration) \<and>
      (clock (jp_world s) \<le> T \<longrightarrow> (\<forall>r \<in> set (jp_results s). \<forall>a. r = Some (Inr a) \<longrightarrow>
         a = pc_jwt (jp_client s) \<and> a \<noteq> [])))"

lemma jwt_step_later: "jwt_step E s s' \<Longrightarrow> later (jp_world s) (jp_world s')"
proof (induction rule: jwt_step.induct)
  case (jwt_body i s c r pc' w')
  then show ?case using GetJWT_world [of "jp_world s" E "jp_client s" c] by (simp add: set_jwt_phase_def)
qed (simp_all add: set_jwt_phase_def)

lemma body_token:
  assumes "GetJWT E pc c w = ((r, pc'), w')" and "tokens_last E T"
    and "pc_jwt pc \<noteq> [] \<Longrightarrow> T < pc_jwt_exp pc - jwt_buffer_duration"
  shows "(pc_jwt pc' \<noteq> [] \<longrightarrow> T < pc_jwt_exp pc' - jwt_buffer_duration) \<and>
    (\<forall>a. r = Inr a \<longrightarrow> a = pc_jwt pc' \<and> a \<noteq> []) \<and>
    (pc_jwt pc \<noteq> [] \<and> clock w \<le> T \<longrightarrow> pc' = pc)"
proof (cases "pc_jwt pc \<noteq> [] \<and> clock w \<le> T")
  case True
  then have "clock w < pc_jwt_exp pc - jwt_buffer_duration" using assms(3) by simp
  with True assms(1,3) GetJWT_fresh [of pc w E c] show ?thesis by auto
next
  case False
  show ?thesis
  proof (rule GetJWT_cases [of pc w E c])
    fix jwt v
    assume f: "fetch_jwt E pc c w = (Inr jwt, v)" and "GetJWT E pc c w =
      ((Inr jwt, pc\<lparr>pc_jwt := jwt, pc_jwt_exp := parse_jwt_expiry (clock v) jwt\<rparr>), v)"
    with assms(1,2) fetch_jwt_nonempty [OF f] False show ?thesis
      unfolding tokens_last_def by fastforce
  qed (use assms(1,3) False in auto)
qed

lemma token_inv_step:
  assumes "jwt_step E s s'" and "token_inv T s" and "tokens_last E T"
  shows "token_inv T s'"
  using assms(1)
proof cases
  case (jwt_body i c r pc' w')
  have le: "clock (jp_world s) \<le> clock w'"
    using GetJWT_world [of "jp_world s" E "jp_client s" c] jwt_body(4) by (simp add: later_def)
  have b: "(pc_jwt pc' \<noteq> [] \<longrightarrow> T < pc_jwt_exp pc' - jwt_buffer_duration) \<and>
    (\<forall>a. r = Inr a \<longrightarrow> a = pc_jwt pc' \<and> a \<noteq> []) \<and>
    (pc_jwt (jp_client s) \<noteq> [] \<and> clock (jp_world s) \<le> T \<longrightarrow> pc' = jp_client s)"
    by (rule body_token [OF jwt_body(4) assms(3)]) (use assms(2) in \<open>simp add: token_inv_def\<close>)
  have "a = pc_jwt pc' \<and> a \<noteq> []"
    if now: "clock w' \<le> T" and x: "x \<in> set ((jp_results s)[i := Some r])" "x = Some (Inr a)" for x a
  proof (cases "x = Some r")
    case True
    with b x(2) show ?thesis by auto
  next
    case False
    then have "x \<in> set (jp_results s)" using x(1) set_update_subset_insert [of "jp_results s" i "Some r"] by blast
    then have "a = pc_jwt (jp_client s)" "a \<noteq> []" using assms(2) now le x(2) by (auto simp: token_inv_def)
    with b now le show ?thesis by auto
  qed
  then have "clock w' \<le> T \<longrightarrow> (\<forall>x \<in> set ((jp_results s)[i := Some r]). \<forall>a. x = Some (Inr a) \<longrightarrow>
      a = pc_jwt pc' \<and> a \<noteq> [])" by blast
  with b show ?thesis unfolding jwt_body(1) token_inv_def by (simp add: set_jwt_phase_def)
qed (use assms(2) in \<open>auto simp: token_inv_def set_jwt_phase_def later_def\<close>)

lemma jwt_run:
  assumes "(jwt_step E)\<^sup>*\<^sup>* (jwt_init n pc w) s" and "pc_jwt pc = []" and "tokens_last E T"
  shows "lock_inv n s \<and> token_inv T s"
  using assms(1)
proof (induction rule: rtranclp_induct)
  case base
  show ?case using assms(2)
    by (simp add: lock_inv_def token_inv_def jwt_init_def in_section_def)
next
  case (step s s')
  then show ?case using lock_inv_step token_inv_step [OF _ _ assms(3)] by blast
qed

lemma jwt_progress:
  assumes "lock_inv n s" and "p \<in> set (jp_phases s)" and "p \<noteq> Returned"
  shows "\<exists>s'. jwt_step E s s' \<and> jp_phases s' \<noteq> jp_phases s"
proof -
  have change: "(jp_phases s)[i := q] \<noteq> jp_phases s" if "i < length (jp_phases s)" "jp_phases s ! i \<noteq> q" for i q
    using that by (metis nth_list_update_eq)
  obtain i where i: "i < length (jp_phases s)"
    "jp_phases s ! i = (if jp_locked s then jp_phases s ! i else Calling)"
    "jp_locked s \<Longrightarrow> jp_phases s ! i = Locked \<or> jp_phases s ! i = Served"
  proof (cases "jp_locked s")
    case True
    then have "filter (\<lambda>p. p = Locked \<or> p = Served) (jp_phases s) \<noteq> []"
      using assms(1) by (auto simp: lock_inv_def in_section_def)
    then obtain i where "i < length (jp_phases s)" "jp_phases s ! i = Locked \<or> jp_phases s ! i = Served"
      by (auto simp: filter_empty_conv in_set_conv_nth)
    with True that show thesis by auto
  next
    case False
    then have "\<forall>q \<in> set (jp_phases s). q \<noteq> Locked \<and> q \<noteq> Served"
      using assms(1) by (auto simp: lock_inv_def in_section_def filter_empty_conv)
    then have "p = Calling" using assms(2,3) by (cases p) auto
    then obtain i where "i < length (jp_phases s)" "jp_phases s ! i = Calling"
      using assms(2) by (auto simp: in_set_conv_nth)
    with False that show thesis by auto
  qed
  obtain r pc' w' where g: "GetJWT E (jp_client s) background (jp_world s) = ((r, pc'), w')"
    by (metis surj_pair)
  consider "\<not> jp_locked s" "jp_phases s ! i = Calling" | "jp_phases s ! i = Locked"
    | "jp_phases s ! i = Served" using i(2,3) by (cases "jp_locked s") auto
  then show ?thesis
  proof cases
    case 1
    then show ?thesis using jwt_lock [OF i(1)] change [OF i(1), of Locked] by (fastforce simp: set_jwt_phase_def)
  next
    case 2
    then show ?thesis
      using jwt_body [OF i(1) _ g] change [OF i(1), of Served] by (fastforce simp: set_jwt_phase_def)
  next
    case 3
    then show ?thesis using jwt_unlock [OF i(1)] change [OF i(1), of Returned] by (fastforce simp: set_jwt_phase_def)
  qed
qed

section \<open>Property\<close>

text \<open>C14: Concurrent calls of \<open>GetJWT\<close> share one token. For any number of goroutines and every interleaving,
  with requests of others and time passing in between: at most one goroutine is between \<open>Lock\<close> and
  \<open>Unlock\<close>, no deadlock arises, and as long as no token handed out by the service has to be refreshed, all
  goroutines that got a token got the same one, and once there is one every further call returns it
  without a request.\<close>

theorem jwt_shared:
  assumes "(jwt_step E)\<^sup>*\<^sup>* (jwt_init n pc w) s" and "pc_jwt pc = []" and "tokens_last E T"
    and "clock (jp_world s) \<le> T"
  shows "length (filter (\<lambda>p. p = Locked \<or> p = Served) (jp_phases s)) \<le> 1 \<and>
    (\<forall>a b. Some (Inr a) \<in> set (jp_results s) \<longrightarrow> Some (Inr b) \<in> set (jp_results s) \<longrightarrow> a = b) \<and>
    (\<forall>a c v. Some (Inr a) \<in> set (jp_results s) \<longrightarrow> clock v \<le> T \<longrightarrow>
       GetJWT E (jp_client s) c v = ((Inr a, jp_client s), v)) \<and>
    ((\<forall>p \<in> set (jp_phases s). p = Returned) \<or> (\<exists>s'. jwt_step E s s' \<and> jp_phases s' \<noteq> jp_phases s))"
proof -
  have inv: "lock_inv n s" "token_inv T s" using jwt_run [OF assms(1-3)] by blast+
  have tok: "a = pc_jwt (jp_client s) \<and> a \<noteq> []" if "Some (Inr a) \<in> set (jp_results s)" for a
    using inv(2) assms(4) that unfolding token_inv_def by blast
  have "GetJWT E (jp_client s) c v = ((Inr a, jp_client s), v)"
    if "Some (Inr a) \<in> set (jp_results s)" "clock v \<le> T" for a c v
  proof -
    have a: "a = pc_jwt (jp_client s)" "pc_jwt (jp_client s) \<noteq> []" using tok [OF that(1)] by auto
    then have "clock v < pc_jwt_exp (jp_client s) - jwt_buffer_duration"
      using inv(2) that(2) by (simp add: token_inv_def)
    with a GetJWT_fresh show ?thesis by simp
  qed
  moreover have "in_section (jp_phases s) \<le> 1" using inv(1) by (simp add: lock_inv_def)
  ultimately show ?thesis
    using tok jwt_progress [OF inv(1)] unfolding in_section_def by blast
qed

text \<open>A token that expires 1000 seconds after the epoch.\<close>

definition long_token :: string where
  "long_token = ''aa.eyJleHAiOjEwMDB9.cc''"

lemma long_token_expiry: "parse_jwt_expiry now long_token = 1000 * second"
proof -
  have "trim_prefix long_token ''Bearer '' = ''aa'' @ CHR ''.'' # ''eyJleHAiOjEwMDB9'' @ CHR ''.'' # ''cc''"
    by code_simp
  moreover have "base64_raw_url_decode ''eyJleHAiOjEwMDB9'' = Some ([CHR ''{''] @ quote ''exp'' @ '':1000}'')"
    by code_simp
  moreover have "unmarshal dec_exp ([CHR ''{''] @ quote ''exp'' @ '':1000}'') = Some (show_int 1000)"
    by code_simp
  ultimately show ?thesis
    by (intro jwt_expiry_read [where h = "''aa''" and p = "''eyJleHAiOjEwMDB9''" and s = "''cc''"])
      (simp_all add: year_one_def max_int64_def)
qed

lemma long_token_header:
  "header_get ''Authorization'' [(''Authorization'', long_token)] = long_token" "long_token \<noteq> []"
  by code_simp+

lemma long_token_lasts: "tokens_last (dps_env long_token 200 '''') (600 * second)"
proof -
  have "600 * second < parse_jwt_expiry now long_token - jwt_buffer_duration" for now
    by (simp add: long_token_expiry jwt_buffer_duration_def minute_def second_def)
  then show ?thesis
    unfolding tokens_last_def
    by (auto simp: fetch_jwt_def dps_env_def http_do_def jwt_of_reply_def long_token_header Let_def
        split: if_splits)
qed

lemma first_call:
  "\<exists>pc w. GetJWT (dps_env long_token 200 '''') sample_dps background start_world = ((Inr long_token, pc), w) \<and>
     clock w = 0"
  using long_token_header
  by (simp add: GetJWT_def sample_dps_def fetch_jwt_def dps_env_def quiet_env_def http_do_def Let_def
      jwt_of_reply_def start_world_def)

theorem jwt_shared_witness:
  "\<exists>s. (jwt_step (dps_env long_token 200 ''''))\<^sup>*\<^sup>* (jwt_init 2 sample_dps start_world) s \<and>
     jp_results s = [Some (Inr long_token), None] \<and>
     GetJWT (dps_env long_token 200 '''') (jp_client s) background (jp_world s) =
       ((Inr long_token, jp_client s), jp_world s)"
proof -
  let ?E = "dps_env long_token 200 ''''"
  obtain pc w where g: "GetJWT ?E sample_dps background start_world = ((Inr long_token, pc), w)" "clock w = 0"
    using first_call by blast
  let ?s0 = "jwt_init 2 sample_dps start_world"
  let ?s1 = "(set_jwt_phase 0 Locked ?s0)\<lparr>jp_locked := True\<rparr>"
  let ?s2 = "(set_jwt_phase 0 Served ?s1)\<lparr>jp_results := (jp_results ?s1)[0 := Some (Inr long_token)],
    jp_client := pc, jp_world := w\<rparr>"
  have "jwt_step ?E ?s0 ?s1"
    by (rule jwt_lock) (simp_all add: jwt_init_def numeral_2_eq_2)
  moreover have "jwt_step ?E ?s1 ?s2"
    by (rule jwt_body [where c = background])
      (simp_all add: jwt_init_def set_jwt_phase_def numeral_2_eq_2 g(1))
  ultimately have run: "(jwt_step ?E)\<^sup>*\<^sup>* ?s0 ?s2" by (meson converse_rtranclp_into_rtranclp rtranclp.rtrancl_refl)
  have res: "jp_results ?s2 = [Some (Inr long_token), None]" "jp_world ?s2 = w"
    by (simp_all add: jwt_init_def set_jwt_phase_def numeral_2_eq_2)
  have "pc_jwt sample_dps = []" and T: "clock (jp_world ?s2) \<le> 600 * second"
    using g(2) by (simp_all add: sample_dps_def second_def)
  have "Some (Inr long_token) \<in> set (jp_results ?s2)" unfolding res(1) by simp
  with jwt_shared [OF run \<open>pc_jwt sample_dps = []\<close> long_token_lasts T] T
  have "GetJWT ?E (jp_client ?s2) background (jp_world ?s2) = ((Inr long_token, jp_client ?s2), jp_world ?s2)"
    by blast
  with run res(1) show ?thesis by blast
qed

end
