(* ===== verification/Private_Execution.thy ===== *)
theory Private_Execution
  imports Program_Manager
begin

text \<open>
  What an execution with DPS privacy sends: every HTTP request is one of four kinds, and only a
  sealed box carries anything of the caller's key, inputs and authorization. The effect of an
  operation on the history is described by a predicate on the requests it may add, which composes
  like the operations do.
\<close>

section \<open>The requests an operation may send\<close>

definition sent_only :: "(http_request \<Rightarrow> bool) \<Rightarrow> history \<Rightarrow> history \<Rightarrow> bool" where
  "sent_only P h h' = (\<exists>new. h' = new @ h \<and> (\<forall>rq out. Ev_Http rq out \<in> set new \<longrightarrow> P rq))"

definition asks :: "(http_request \<Rightarrow> bool) \<Rightarrow> 'a io \<Rightarrow> bool" where
  "asks P m = (\<forall>w. sent_only P (hist w) (hist (snd (m w))))"

lemma sent_only_refl [simp]: "sent_only P h h"
  by (simp add: sent_only_def)

lemma sent_only_trans: "sent_only P h1 h2 \<Longrightarrow> sent_only P h2 h3 \<Longrightarrow> sent_only P h1 h3"
proof -
  assume "sent_only P h1 h2" "sent_only P h2 h3"
  then obtain a b where "h2 = a @ h1" "h3 = b @ h2" "\<forall>rq out. Ev_Http rq out \<in> set a \<longrightarrow> P rq"
    "\<forall>rq out. Ev_Http rq out \<in> set b \<longrightarrow> P rq"
    unfolding sent_only_def by blast
  then show ?thesis unfolding sent_only_def by (intro exI [of _ "b @ a"]) auto
qed

lemma sent_only_quiet: "\<not> is_http e \<Longrightarrow> sent_only P h (e # h)"
  unfolding sent_only_def by (intro exI [of _ "[e]"]) auto

lemma sent_only_http: "P rq \<Longrightarrow> sent_only P h (Ev_Http rq out # h)"
  unfolding sent_only_def by (intro exI [of _ "[Ev_Http rq out]"]) auto

lemma asksI: "(\<And>w. sent_only P (hist w) (hist (snd (m w)))) \<Longrightarrow> asks P m"
  by (simp add: asks_def)

lemma asksD: "asks P m \<Longrightarrow> m w = (r, w') \<Longrightarrow> sent_only P (hist w) (hist w')"
  unfolding asks_def by (metis snd_conv)

lemma asks_ret [simp]: "asks P (ret_io r)"
  by (simp add: asks_def)

lemma asks_http: "P rq \<Longrightarrow> asks P (http_do E rq)"
  by (simp add: asks_def http_do_sel sent_only_http)

lemma sent_http: "http_do E rq w = (out, w') \<Longrightarrow> P rq \<Longrightarrow> sent_only P (hist w) (hist w')"
  by (auto dest!: http_do_world simp: sent_only_http)

lemma asks_wait [simp]: "asks P (wait_select E c d)"
  by (simp add: asks_def wait_select_def sent_only_quiet)

lemma asks_limiter [simp]: "asks P (limiter_wait E r)"
  by (simp add: asks_def limiter_wait_def sent_only_quiet split: sum.split)

lemma asks_bridge [simp]: "asks P (bridge E f)"
  by (simp add: asks_def bridge_sel sent_only_quiet)

lemma asks_encrypt [simp]: "asks P (encrypt_proving_request E B hx data)"
  by (auto simp: asks_def encrypt_proving_request_world sent_only_quiet split: option.split)

lemma asks_then:
  assumes "asks P m" and "\<And>x w w'. m w = (Inr x, w') \<Longrightarrow> sent_only P (hist w') (hist (snd (k x w')))"
  shows "asks P (then_io m wrap k)"
proof (rule asksI)
  fix w
  obtain r w' where m: "m w = (r, w')" by (cases "m w")
  with assms(1) have "sent_only P (hist w) (hist w')" by (rule asksD)
  with assms(2) m show "sent_only P (hist w) (hist (snd (then_io m wrap k w)))"
    by (cases r) (auto intro: sent_only_trans)
qed

lemma asks_then_any: "asks P m \<Longrightarrow> (\<And>x. asks P (k x)) \<Longrightarrow> asks P (then_io m wrap k)"
  by (rule asks_then) (simp_all add: asks_def)

lemma asks_retry:
  assumes "\<And>k. asks P (body k)"
  shows "asks P (retry body fin n k prev)"
proof (rule asksI)
  fix w
  show "sent_only P (hist w) (hist (snd (retry body fin n k prev w)))"
  proof (induction n arbitrary: k prev w)
    case (Suc n)
    obtain r w' where b: "body k w = (r, w')" by (cases "body k w")
    with assms have "sent_only P (hist w) (hist w')" by (rule asksD)
    with b show ?case
      by (cases r) (auto intro: sent_only_trans [OF _ Suc.IH])
  qed simp
qed

lemma asks_backoff [simp]: "asks P (backoff_wait E c base k)"
  using asks_wait [of P E c "backoff E base k"] by (simp add: asks_def backoff_wait_def)

section \<open>The network client and the proving client\<close>

lemma asks_get_attempt:
  assumes "P (get_request nc url)"
  shows "asks P (get_attempt E nc c url k)"
proof (rule asksI)
  fix w
  obtain b w1 where b: "backoff_wait E c (nc_base_delay nc) k w = (b, w1)"
    by (cases "backoff_wait E c (nc_base_delay nc) k w")
  obtain r w2 where r: "rate_wait E nc w1 = (r, w2)" by (cases "rate_wait E nc w1")
  obtain out w3 where h: "http_do E (get_request nc url) w2 = (out, w3)"
    by (cases "http_do E (get_request nc url) w2")
  have "sent_only P (hist w) (hist w1)" using asksD [OF asks_backoff b] .
  moreover have "asks P (rate_wait E nc)"
    using asks_limiter [of P E] by (simp add: asks_def rate_wait_def split: option.split)
  then have "sent_only P (hist w1) (hist w2)" using r by (rule asksD)
  ultimately have w2: "sent_only P (hist w) (hist w1)" "sent_only P (hist w) (hist w2)"
    by (auto intro: sent_only_trans)
  have "sent_only P (hist w2) (hist w3)" using asksD [OF asks_http [of P, OF assms] h] .
  with w2(2) have w3: "sent_only P (hist w) (hist w3)" by (rule sent_only_trans)
  have "asks P (classify_reply E c rs)" for rs
    using asks_wait [of P E c] unfolding asks_def classify_reply_def retry_after_wait_def Let_def
    by (auto split: prod.splits option.splits sum.splits) (metis snd_conv)+
  then have "sent_only P (hist w3) (hist (snd (classify_reply E c rs w3)))" for rs
    by (simp add: asks_def)
  with w3 have "sent_only P (hist w) (hist (snd (classify_reply E c rs w3)))" for rs
    by (rule sent_only_trans)
  with b r h w2 w3 show "sent_only P (hist w) (hist (snd (get_attempt E nc c url k w)))"
    by (simp add: get_attempt_def split: option.split sum.split http_outcome.split)
qed

lemma asks_get: "P (get_request nc url) \<Longrightarrow> asks P (nc_get E nc c url)"
  using asks_retry [of P "get_attempt E nc c url"] asks_get_attempt [of P nc url]
  by (simp add: asks_def nc_get_def)

lemma asks_GetProgram:
  "P (get_request nc (api_url nc (''/program/'' @ p))) \<Longrightarrow> asks P (GetProgram E nc c p)"
  unfolding GetProgram_def query_def by (intro asks_then asks_get) simp_all

lemma asks_fetch_jwt: "P (jwt_request pc) \<Longrightarrow> asks P (fetch_jwt E pc c)"
  by (auto simp: asks_def fetch_jwt_def dest: sent_http [of _ _ _ _ _ P] split: prod.split http_outcome.split)

lemma asks_GetJWT: "P (jwt_request pc) \<Longrightarrow> asks P (GetJWT E pc c)"
proof (rule asksI)
  fix w
  assume P: "P (jwt_request pc)"
  show "sent_only P (hist w) (hist (snd (GetJWT E pc c w)))"
    by (rule GetJWT_cases [of pc w E c]) (use asksD [OF asks_fetch_jwt [of P, OF P]] in auto)
qed

lemma asks_pubkey: "P (pubkey_request pc jwt base) \<Longrightarrow> asks P (get_public_key E pc c jwt base)"
  by (auto simp: asks_def get_public_key_def Let_def dest: sent_http [of _ _ _ _ _ P]
      split: prod.split http_outcome.split option.split)

lemma asks_do_prove: "P rq \<Longrightarrow> asks P (do_prove_request E rq)"
  by (auto simp: asks_def do_prove_request_def dest: sent_http [of _ _ _ _ _ P]
      split: prod.split http_outcome.split)

section \<open>Authorizing\<close>

definition program_request :: "network_client \<Rightarrow> http_request \<Rightarrow> bool" where
  "program_request nc rq = (\<exists>p. rq = get_request nc (api_url nc (''/program/'' @ p)))"

lemma sent_only_mono: "sent_only P h h' \<Longrightarrow> (\<And>rq. P rq \<Longrightarrow> Q rq) \<Longrightarrow> sent_only Q h h'"
  unfolding sent_only_def by blast

interpretation fetching: stateful_fetch "fetch_program_cached E nc c"
    "\<lambda>st. sent_only (program_request nc) h0 (hist (snd st))" for E nc c h0
proof (unfold_locales, goal_cases)
  case (1 st p r st')
  obtain cache w cache' w' where st: "st = (cache, w)" "st' = (cache', w')" by (cases st; cases st') auto
  have "asks (program_request nc) (GetProgram E nc c p)"
    by (intro asks_GetProgram) (auto simp: program_request_def)
  then have "sent_only (program_request nc) (hist w) (hist w'')" if "GetProgram E nc c p w = (x, w'')" for x w''
    using that by (rule asksD)
  with 1 st show ?case
    by (auto elim!: fetch_cases [of E nc c p cache w] intro: sent_only_trans)
qed

lemma authorization_asks:
  assumes "BuildAuthorizationWithCache E nc c opts st = Some (r, st')"
  shows "sent_only (program_request nc) (hist (snd st)) (hist (snd st'))"
proof (cases "po_private_key opts = []")
  case True
  with assms show ?thesis by (auto simp: BuildAuthorizationWithCache_def)
next
  case False
  obtain x st1 where f: "fetch_program_cached E nc c (po_program_name opts) st = (x, st1)"
    by (cases "fetch_program_cached E nc c (po_program_name opts) st")
  then have 1: "sent_only (program_request nc) (hist (snd st)) (hist (snd st1))"
    using fetching.fetch_inv [of nc "hist (snd st)" st E c "po_program_name opts" x st1] by simp
  show ?thesis
  proof (cases x)
    case (Inl e)
    with False f 1 assms show ?thesis by (simp add: BuildAuthorizationWithCache_def)
  next
    case (Inr source)
    obtain y cache2 w2 where r: "resolve_imports_ordered E nc c source st1 = Some (y, cache2, w2)"
      using assms False f Inr
      by (cases "resolve_imports_ordered E nc c source st1") (auto simp: BuildAuthorizationWithCache_def)
    then obtain z where "collect_imports E nc c source {} [] st1 = Some (z, cache2, w2)"
      by (auto simp: resolve_imports_ordered_def split: option.splits sum.splits prod.splits)
    from fetching.collect_keeps_inv [OF this [unfolded collect_imports_def] 1]
    have 2: "sent_only (program_request nc) (hist (snd st)) (hist w2)" by simp
    have "asks (program_request nc) (authorize E opts source srcs)" for srcs
      unfolding authorize_def ffi_authorize_def by (intro asks_then) simp_all
    then have "sent_only (program_request nc) (hist w2) (hist w3)"
      if "authorize E opts source srcs w2 = (q, w3)" for srcs q w3
      using that by (rule asksD)
    with 2 assms False f Inr r show ?thesis
      by (auto simp: BuildAuthorizationWithCache_def split: sum.splits prod.splits
          intro: sent_only_trans)
  qed
qed

section \<open>The encrypted submission\<close>

text \<open>Texts that \<open>encryptProvingRequest\<close> returns for a prover's key.\<close>

definition sealed_text :: "box_lib \<Rightarrow> string \<Rightarrow> bool" where
  "sealed_text B ct = (\<exists>E key data w w'. encrypt_proving_request E B key data w = (Inr ct, w'))"

definition private_request ::
  "box_lib \<Rightarrow> network_client \<Rightarrow> provable_client \<Rightarrow> string \<Rightarrow> http_request \<Rightarrow> bool" where
  "private_request B nc pc base rq =
     (program_request nc rq \<or> rq = jwt_request pc \<or> (\<exists>jwt. rq = pubkey_request pc jwt base) \<or>
      (\<exists>jwt key_id ct. sealed_text B ct \<and> rq = encrypted_prove_request pc jwt base
         (marshal_encrypted_request \<lparr>enc_key_id = key_id, enc_ciphertext = ct\<rparr>)))"

lemma asks_submit_encrypted:
  "asks (private_request B nc pc base) (submit_encrypted E B pc c jwt base pr)"
proof -
  let ?P = "private_request B nc pc base"
  have key: "asks ?P (get_public_key E pc c jwt base)"
    by (rule asks_pubkey) (auto simp: private_request_def)
  have ser: "asks ?P (ffi_proving_request_to_bytes E a f b)" for a f b
    by (simp add: ffi_proving_request_to_bytes_def)
  have post: "asks ?P (submit_sealed E pc jwt base key_id ct)" if "sealed_text B ct" for key_id ct
  proof -
    have "asks ?P (do_prove_request E (encrypted_prove_request pc jwt base
        (marshal_encrypted_request \<lparr>enc_key_id = key_id, enc_ciphertext = ct\<rparr>)))"
      using that by (intro asks_do_prove) (auto simp: private_request_def)
    then show ?thesis by (simp add: asks_def submit_sealed_def Let_def)
  qed
  have seal: "asks ?P (then_io (encrypt_proving_request E B key data) wrap
      (\<lambda>ct. submit_sealed E pc jwt base key_id ct))" for key data wrap key_id
  proof (rule asks_then [OF asks_encrypt])
    fix ct w w'
    assume "encrypt_proving_request E B key data w = (Inr ct, w')"
    then have "sealed_text B ct" unfolding sealed_text_def by blast
    then show "sent_only ?P (hist w') (hist (snd (submit_sealed E pc jwt base key_id ct w')))"
      using post by (simp add: asks_def)
  qed
  have "asks ?P (case base64_decode b of
        None \<Rightarrow> ret_io (Inl (Wrapf ''decode proving request base64'' (LibErr ''base64'')))
      | Some pr_bytes \<Rightarrow> then_io (encrypt_proving_request E B (pk_public_key pubkey) pr_bytes)
          (Wrapf ''encrypt proving request'')
          (\<lambda>ciphertext. submit_sealed E pc jwt base (pk_key_id pubkey) ciphertext))" for b pubkey
    using seal by (simp split: option.split)
  then have "asks ?P (then_io (ffi_proving_request_to_bytes E (raw_string (pr_authorization pr))
         (raw_string (pr_fee_authorization pr)) (pr_broadcast pr))
       (Wrapf ''serialize proving request'') (\<lambda>b. case base64_decode b of
        None \<Rightarrow> ret_io (Inl (Wrapf ''decode proving request base64'' (LibErr ''base64'')))
      | Some pr_bytes \<Rightarrow> then_io (encrypt_proving_request E B (pk_public_key pubkey) pr_bytes)
          (Wrapf ''encrypt proving request'')
          (\<lambda>ciphertext. submit_sealed E pc jwt base (pk_key_id pubkey) ciphertext)))" for pubkey
    by (intro asks_then_any ser)
  then show ?thesis
    unfolding submit_encrypted_def by (rule asks_then_any [OF key])
qed

lemma asks_submit_attempt:
  assumes "dp_privacy params"
  shows "asks (private_request B nc pc base) (submit_attempt E B pc c jwt base params k)"
proof (rule asksI)
  fix w
  obtain b w1 where b: "backoff_wait E c (pc_base_delay pc) k w = (b, w1)"
    by (cases "backoff_wait E c (pc_base_delay pc) k w")
  obtain r w2 where r: "submit_encrypted E B pc c jwt base (dp_request params) w1 = (r, w2)"
    by (cases "submit_encrypted E B pc c jwt base (dp_request params) w1")
  have "sent_only (private_request B nc pc base) (hist w) (hist w1)"
    using asksD [OF asks_backoff b] .
  moreover have "sent_only (private_request B nc pc base) (hist w1) (hist w2)"
    using asksD [OF asks_submit_encrypted r] .
  ultimately show "sent_only (private_request B nc pc base) (hist w)
      (hist (snd (submit_attempt E B pc c jwt base params k w)))"
    using assms b r
    by (auto simp: submit_attempt_def split: option.split sum.split intro: sent_only_trans)
qed

definition request_base :: "provable_client \<Rightarrow> string \<Rightarrow> string" where
  "request_base pc url = (if url \<noteq> [] then trim_right_set url ''/'' else pc_prover_base pc)"

lemma submission_asks:
  assumes "SubmitProvingRequestSafe E B pc c params w = ((r, pc'), w')" and "dp_privacy params"
  shows "sent_only (private_request B nc pc (request_base pc (dp_url params))) (hist w) (hist w')"
proof -
  let ?base = "request_base pc (dp_url params)"
  have jwt: "asks (private_request B nc pc ?base) (GetJWT E pc c)"
    by (rule asks_GetJWT) (simp add: private_request_def)
  show ?thesis
    using assms(1)
  proof (cases rule: SafeE)
    case (nojwt e)
    with jwt show ?thesis by (auto dest: asksD)
  next
    case (loop tok base w1)
    then have base: "base = ?base" by (simp add: request_base_def)
    have same: "pc' = pc\<lparr>pc_jwt := pc_jwt pc', pc_jwt_exp := pc_jwt_exp pc'\<rparr>"
      using loop(1) by (rule GetJWT_keeps)
    have "jwt_request pc' = jwt_request pc" "pubkey_request pc' = pubkey_request pc"
        "encrypted_prove_request pc' = encrypted_prove_request pc"
      by (subst same; simp add: fun_eq_iff jwt_request_def pubkey_request_def encrypted_prove_request_def)+
    then have "private_request B nc pc' ?base = private_request B nc pc ?base"
      by (simp add: fun_eq_iff private_request_def)
    moreover have "asks (private_request B nc pc' ?base)
        (retry (submit_attempt E B pc' c tok ?base params) (\<lambda>_. Inr retries_exceeded)
          (attempts (pc_max_retries pc')) 0 ())"
      by (intro asks_retry asks_submit_attempt assms(2))
    ultimately have "sent_only (private_request B nc pc ?base) (hist w1) (hist w')"
      using asksD loop(2) base by metis
    with asksD [OF jwt loop(1)] show ?thesis by (rule sent_only_trans)
  qed
qed

section \<open>Properties\<close>

text \<open>
  C2: An execution with DPS privacy sends nothing in clear. Every HTTP request of \<open>ExecuteViaDPS\<close>
  with privacy switched on - however it ends, over all retries and whatever the servers answer - is
  the fetch of a program's source, the request of a JWT, the request of the prover's public key
  (none of which has a body), or a POST to the encrypted end point whose whole body is a key id and a
  text that \<open>encryptProvingRequest\<close> returned. So key, inputs and authorization leave the process in
  sealed boxes only.
\<close>

theorem private_execution_confidential:
  assumes "ExecuteViaDPS E B pm c opts s = Some ((r, pm'), s')" and "po_dps_privacy opts"
    and "pm_provable_client pm = Some pc"
  shows "\<exists>new. hist (st_world s') = new @ hist (st_world s) \<and>
    (\<forall>rq out. Ev_Http rq out \<in> set new \<longrightarrow>
      (rq_body rq = [] \<and>
        ((\<exists>p. rq = get_request (pm_network_client pm)
            (api_url (pm_network_client pm) (''/program/'' @ p))) \<or>
         rq = jwt_request pc \<or>
         (\<exists>jwt. rq = pubkey_request pc jwt (request_base pc (po_prover_url opts))))) \<or>
      (\<exists>jwt key_id ct. sealed_text B ct \<and>
         rq = encrypted_prove_request pc jwt (request_base pc (po_prover_url opts))
           (marshal_encrypted_request \<lparr>enc_key_id = key_id, enc_ciphertext = ct\<rparr>)))"
proof -
  let ?nc = "pm_network_client pm" and ?base = "request_base pc (po_prover_url opts)"
  let ?P = "private_request B ?nc pc ?base"
  have auth: "sent_only ?P (hist (st_world s)) (hist (st_world s1))"
    if "BuildProvingRequest E pm c opts s = Some (x, s1)" for x s1
  proof -
    have "sent_only (program_request ?nc) (hist (st_world s)) (hist (st_world s1))"
      using that by (auto simp: BuildProvingRequest_def PM_BuildAuthorization_def Let_def
          split: if_splits option.splits prod.splits sum.splits dest!: authorization_asks)
    then show ?thesis by (rule sent_only_mono) (simp add: private_request_def)
  qed
  have submit: "sent_only ?P (hist w) (hist w')"
    if "prove_and_finish E B c opts pc (delegated opts pr) w = (x, w')" for pr x w w'
  proof -
    obtain y w2 where y: "SubmitProvingRequestSafe E B pc c (delegated opts pr) w = (y, w2)"
      by (cases "SubmitProvingRequestSafe E B pc c (delegated opts pr) w")
    obtain q pc' where "y = (q, pc')" by (cases y)
    with y submission_asks [of E B pc c "delegated opts pr" w q pc' w2 ?nc] assms(2)
    have "sent_only ?P (hist w) (hist w2)" by (simp add: delegated_def)
    moreover have "w' = w2"
      using that y by (auto simp: prove_and_finish_def SubmitProvingRequest_def split: prod.splits sum.splits)
    ultimately show ?thesis by simp
  qed
  have "sent_only ?P (hist (st_world s)) (hist (st_world s'))"
    using assms(1,3) unfolding ExecuteViaDPS_def with_proving_service_def
    by (auto split: option.splits prod.splits sum.splits dest!: auth submit intro: sent_only_trans)
  moreover have "rq_body rq = []" if "program_request ?nc rq \<or> rq = jwt_request pc \<or>
      (\<exists>jwt. rq = pubkey_request pc jwt ?base)" for rq
    using that by (auto simp: program_request_def get_request_def jwt_request_def pubkey_request_def)
  ultimately show ?thesis
    unfolding sent_only_def private_request_def program_request_def by metis
qed

theorem private_execution_confidential_witness:
  "\<exists>r pm' s' new. ExecuteViaDPS exec_env toy_box ready_manager background
      (sample_opts\<lparr>po_dps_privacy := True\<rparr>) start_state = Some ((r, pm'), s') \<and>
    hist (st_world s') = new @ hist (st_world start_state) \<and>
    (\<forall>rq out. Ev_Http rq out \<in> set new \<longrightarrow> rq_body rq \<noteq> [] \<longrightarrow>
      (\<exists>jwt key_id ct. sealed_text toy_box ct \<and>
         rq = encrypted_prove_request logged_in jwt (request_base logged_in [])
           (marshal_encrypted_request \<lparr>enc_key_id = key_id, enc_ciphertext = ct\<rparr>)))"
proof -
  let ?opts = "sample_opts\<lparr>po_dps_privacy := True\<rparr>"
  have url: "po_prover_url ?opts = []" by (simp add: sample_opts_def)
  have "PM_BuildAuthorization exec_env ready_manager background ?opts start_state =
      PM_BuildAuthorization exec_env ready_manager background sample_opts start_state"
    by (simp add: PM_BuildAuthorization_def BuildAuthorizationWithCache_def signing_key_def
        authorize_def [abs_def] sample_opts_def call_options_def)
  then have "\<exists>r pm' s'. ExecuteViaDPS exec_env toy_box ready_manager background ?opts start_state =
      Some ((r, pm'), s')"
    unfolding ExecuteViaDPS_def with_proving_service_def BuildProvingRequest_def exec_env_authorizes
    by (auto simp: ready_manager_def sample_opts_def split: option.splits prod.splits sum.splits)
  then obtain r pm' s' where e: "ExecuteViaDPS exec_env toy_box ready_manager background ?opts start_state =
      Some ((r, pm'), s')" by blast
  obtain new where "hist (st_world s') = new @ hist (st_world start_state)"
    and "\<forall>rq out. Ev_Http rq out \<in> set new \<longrightarrow> rq_body rq \<noteq> [] \<longrightarrow>
      (\<exists>jwt key_id ct. sealed_text toy_box ct \<and>
         rq = encrypted_prove_request logged_in jwt (request_base logged_in [])
           (marshal_encrypted_request \<lparr>enc_key_id = key_id, enc_ciphertext = ct\<rparr>))"
    using private_execution_confidential [OF e, of logged_in] unfolding url
    by (simp add: ready_manager_def) blast
  with e show ?thesis by blast
qed

end
