(* ===== verification/Rust_Bridge.thy ===== *)
theory Rust_Bridge
  imports FFI_Bridge
begin

text \<open>
  The Rust library behind the boundary (\<open>rust-bridge/src\<close>): the exported functions as they are
  written over snarkVM, each ending in the outcome that \<open>ffi_catch\<close> of \<open>FFI_Bridge\<close> turns into a C
  string. snarkVM, \<open>serde_json\<close> and the \<open>base64\<close> crate are parameters; what a call of the random
  generator yields depends on the history. \<open>with_rust\<close> puts the library under the Go program.
\<close>

section \<open>Results and panics\<close>

text \<open>\<open>let x = m?; k(x)\<close>: an error returns early, a panic unwinds.\<close>

definition and_then :: "'a rust_outcome \<Rightarrow> ('a \<Rightarrow> 'b rust_outcome) \<Rightarrow> 'b rust_outcome" where
  "and_then m k = (case m of R_Ok x \<Rightarrow> k x | R_Err e \<Rightarrow> R_Err e | R_Panic \<Rightarrow> R_Panic)"

definition map_err :: "(string \<Rightarrow> string) \<Rightarrow> 'a rust_outcome \<Rightarrow> 'a rust_outcome" where
  "map_err f m = (case m of R_Ok x \<Rightarrow> R_Ok x | R_Err e \<Rightarrow> R_Err (f e) | R_Panic \<Rightarrow> R_Panic)"

definition ok_or :: "string \<Rightarrow> 'a option \<Rightarrow> 'a rust_outcome" where
  "ok_or e v = (case v of None \<Rightarrow> R_Err e | Some x \<Rightarrow> R_Ok x)"

text \<open>\<open>unwrap\<close>, which the \<open>json!\<close> macro does to the value of a member: an error panics.\<close>

definition unwrap :: "'a rust_outcome \<Rightarrow> 'a rust_outcome" where
  "unwrap m = (case m of R_Ok x \<Rightarrow> R_Ok x | R_Err e \<Rightarrow> R_Panic | R_Panic \<Rightarrow> R_Panic)"

lemma unwrap_Ok [simp]: "unwrap m = R_Ok x \<longleftrightarrow> m = R_Ok x" and unwrap_not_Err [simp]: "unwrap m \<noteq> R_Err e"
  and unwrap_R_Ok [simp]: "unwrap (R_Ok x) = R_Ok x"
  by (cases m; simp add: unwrap_def)+

lemma and_then_simps [simp]:
  "and_then (R_Ok x) k = k x" "and_then (R_Err e) k = R_Err e" "and_then R_Panic k = R_Panic"
  by (simp_all add: and_then_def)

lemma map_err_simps [simp]:
  "map_err f (R_Ok x) = R_Ok x" "map_err f (R_Err e) = R_Err (f e)" "map_err f R_Panic = R_Panic"
  by (simp_all add: map_err_def)

lemma ok_or_simps [simp]: "ok_or e None = R_Err e" "ok_or e (Some x) = R_Ok x"
  by (simp_all add: ok_or_def)

lemma and_then_OkE:
  assumes "and_then m k = R_Ok y"
  obtains x where "m = R_Ok x" and "k x = R_Ok y"
  using assms by (cases m) simp_all

lemma map_err_Ok [simp]: "map_err f m = R_Ok x \<longleftrightarrow> m = R_Ok x"
  by (cases m) simp_all

text \<open>The placeholder in single quotes of a format string.\<close>

definition quoted :: "string \<Rightarrow> string" where
  "quoted s = CHR 0x27 # s @ [CHR 0x27]"

section \<open>Pointers\<close>

text \<open>\<open>CStr::from_ptr\<close> reads up to the first NUL; a string that is not UTF-8 is refused like null.\<close>

definition read_c_str :: "string option \<Rightarrow> string option" where
  "read_c_str p =
     (case p of
        None \<Rightarrow> None
      | Some s \<Rightarrow> if valid_utf8 (c_string s) then Some (c_string s) else None)"

definition read_str :: "string option \<Rightarrow> string \<Rightarrow> string rust_outcome" where
  "read_str p what = ok_or what (read_c_str p)"

text \<open>A pointer to bytes with a length: null stands for no bytes.\<close>

definition read_slice :: "bytes option \<Rightarrow> bytes" where
  "read_slice p = (case p of None \<Rightarrow> [] | Some b \<Rightarrow> b)"

text \<open>A text that crosses the boundary unchanged.\<close>

definition c_text :: "string \<Rightarrow> bool" where
  "c_text s \<longleftrightarrow> valid_utf8 s \<and> CHR 0x00 \<notin> set s"

lemma read_c_text [simp]: "c_text s \<Longrightarrow> read_str (Some (c_string s)) what = R_Ok s"
  "c_text s \<Longrightarrow> read_str (Some s) what = R_Ok s"
  by (simp_all add: read_str_def read_c_str_def c_text_def c_string_id)

lemma read_null [simp]: "read_str None what = R_Err what"
  by (simp add: read_str_def read_c_str_def)

lemma ascii_c_text: "list_all ascii s \<Longrightarrow> CHR 0x00 \<notin> set s \<Longrightarrow> c_text s"
  by (simp add: c_text_def valid_utf8_ascii)

section \<open>The libraries\<close>

text \<open>The types the bridge parses from text.\<close>

datatype aleo_type =
  PrivateKeyT | ViewKeyT | AddressT | SignatureT | RecordT | ValueT | LiteralT

text \<open>
  snarkVM, for the network \<open>MainnetV0\<close>: \<open>'v\<close> are its values (keys, addresses, signatures, records,
  authorizations), \<open>'g\<close> its programs and \<open>'p\<close> its processes, the stores of loaded programs.
\<close>

record ('v, 'g, 'p) snarkvm =
  sv_parse :: "aleo_type \<Rightarrow> string \<Rightarrow> 'v rust_outcome"
  sv_display :: "'v \<Rightarrow> string"
  sv_new_key :: "history \<Rightarrow> 'v rust_outcome"
  sv_view_key :: "'v \<Rightarrow> 'v rust_outcome"
  sv_address :: "'v \<Rightarrow> 'v rust_outcome"
  sv_compute_key :: "'v \<Rightarrow> 'v rust_outcome"
  sv_graph_key :: "'v \<Rightarrow> 'v rust_outcome"
  sv_compute_key_json :: "'v \<Rightarrow> string rust_outcome"
  sv_sign :: "history \<Rightarrow> 'v \<Rightarrow> bytes \<Rightarrow> 'v rust_outcome"
  sv_verify :: "'v \<Rightarrow> 'v \<Rightarrow> bytes \<Rightarrow> bool rust_outcome"
  sv_decrypt :: "'v \<Rightarrow> 'v \<Rightarrow> 'v rust_outcome"
  sv_parse_program :: "string \<Rightarrow> 'g rust_outcome"
  sv_program_id :: "'g \<Rightarrow> string"
  sv_load :: "'p rust_outcome"
  sv_add_program :: "'p \<Rightarrow> 'g \<Rightarrow> 'p rust_outcome"
  sv_authorize :: "history \<Rightarrow> 'p \<Rightarrow> 'v \<Rightarrow> string \<Rightarrow> string \<Rightarrow> 'v list \<Rightarrow> 'v rust_outcome"
  sv_execute :: "history \<Rightarrow> 'p \<Rightarrow> 'v \<Rightarrow> 'v list rust_outcome"
  sv_auth_to_json :: "'v \<Rightarrow> string rust_outcome"
  sv_auth_from_json :: "string \<Rightarrow> 'v rust_outcome"
  sv_auth_write_le :: "'v \<Rightarrow> bytes rust_outcome"
  sv_execution_from_json :: "string \<Rightarrow> 'v rust_outcome"
  sv_verify_execution :: "'p \<Rightarrow> 'v \<Rightarrow> unit rust_outcome"
  sv_to_bits_le :: "'v \<Rightarrow> bool list rust_outcome"
  sv_as_field :: "'v \<Rightarrow> 'v option"
  sv_field_from_bits :: "bool list \<Rightarrow> 'v rust_outcome"
  sv_hash_bits :: "hash_fn \<Rightarrow> bool list \<Rightarrow> 'v rust_outcome"
  sv_hash_fields :: "hash_fn \<Rightarrow> 'v list \<Rightarrow> 'v rust_outcome"

text \<open>
  \<open>serde_json\<close>: the text of a string, of a list of strings and of an object with members whose texts
  are given, and the reading of a list of strings; \<open>STANDARD.encode\<close> of \<open>base64\<close>.
\<close>

record crates =
  cr_string :: "string \<Rightarrow> string"
  cr_strings :: "string list \<Rightarrow> string rust_outcome"
  cr_parse_strings :: "string \<Rightarrow> string list rust_outcome"
  cr_object :: "(string \<times> string) list \<Rightarrow> string"
  cr_base64 :: "bytes \<Rightarrow> string"

section \<open>Accounts and signatures\<close>

definition aleo_private_key_new :: "('v, 'g, 'p) snarkvm \<Rightarrow> crates \<Rightarrow> history \<Rightarrow> string" where
  "aleo_private_key_new V K h =
     ffi_catch (cr_string K) ''panic during key generation''
       (and_then (sv_new_key V h) (\<lambda>sk. R_Ok (sv_display V sk)))"

definition aleo_derive_all_keys :: "('v, 'g, 'p) snarkvm \<Rightarrow> crates \<Rightarrow> string option \<Rightarrow> string" where
  "aleo_derive_all_keys V K sk_ptr =
     ffi_catch (cr_string K) ''panic during key derivation''
       (and_then (read_str sk_ptr ''null private key pointer'') (\<lambda>sk_str.
        and_then (sv_parse V PrivateKeyT sk_str) (\<lambda>sk.
        and_then (sv_view_key V sk) (\<lambda>vk.
        and_then (sv_address V sk) (\<lambda>addr.
        and_then (sv_compute_key V sk) (\<lambda>ck.
        and_then (sv_graph_key V vk) (\<lambda>gk.
        and_then (unwrap (sv_compute_key_json V ck)) (\<lambda>ck_json.
          R_Ok (cr_object K
            [(''view_key'', cr_string K (sv_display V vk)),
             (''address'', cr_string K (sv_display V addr)),
             (''compute_key'', ck_json),
             (''graph_key'', cr_string K (sv_display V gk))])))))))))"

definition aleo_sign_message ::
  "('v, 'g, 'p) snarkvm \<Rightarrow> crates \<Rightarrow> history \<Rightarrow> string option \<Rightarrow> bytes option \<Rightarrow> string" where
  "aleo_sign_message V K h sk_ptr msg_ptr =
     ffi_catch (cr_string K) ''panic during message signing''
       (and_then (read_str sk_ptr ''null private key pointer'') (\<lambda>sk_str.
        and_then (sv_parse V PrivateKeyT sk_str) (\<lambda>sk.
        and_then (sv_sign V h sk (read_slice msg_ptr)) (\<lambda>sig.
          R_Ok (sv_display V sig)))))"

definition aleo_verify_signature ::
  "('v, 'g, 'p) snarkvm \<Rightarrow> string option \<Rightarrow> bytes option \<Rightarrow> string option \<Rightarrow> int" where
  "aleo_verify_signature V addr_ptr msg_ptr sig_ptr =
     (case
        and_then (read_str addr_ptr ''null address pointer'') (\<lambda>addr_str.
        and_then (read_str sig_ptr ''null signature pointer'') (\<lambda>sig_str.
        and_then (sv_parse V AddressT addr_str) (\<lambda>addr.
        and_then (sv_parse V SignatureT sig_str) (\<lambda>sig.
          sv_verify V sig addr (read_slice msg_ptr)))))
      of R_Ok True \<Rightarrow> 1 | R_Ok False \<Rightarrow> 0 | R_Err _ \<Rightarrow> - 1 | R_Panic \<Rightarrow> - 1)"

section \<open>Programs\<close>

definition aleo_decrypt_record ::
  "('v, 'g, 'p) snarkvm \<Rightarrow> crates \<Rightarrow> string option \<Rightarrow> string option \<Rightarrow> string" where
  "aleo_decrypt_record V K ct_ptr vk_ptr =
     ffi_catch (cr_string K) ''panic during record decryption''
       (and_then (read_str ct_ptr ''null ciphertext pointer'') (\<lambda>ct_str.
        and_then (read_str vk_ptr ''null view key pointer'') (\<lambda>vk_str.
        and_then (sv_parse V RecordT ct_str) (\<lambda>ciphertext.
        and_then (sv_parse V ViewKeyT vk_str) (\<lambda>vk.
        and_then (sv_decrypt V ciphertext vk) (\<lambda>plaintext.
          R_Ok (sv_display V plaintext)))))))"

definition aleo_program_id :: "('v, 'g, 'p) snarkvm \<Rightarrow> crates \<Rightarrow> string option \<Rightarrow> string" where
  "aleo_program_id V K src_ptr =
     ffi_catch (cr_string K) ''panic during program parsing''
       (and_then (read_str src_ptr ''null program source'') (\<lambda>source.
        and_then (sv_parse_program V source) (\<lambda>program.
          R_Ok (sv_program_id V program))))"

text \<open>The process is loaded once; a failed load is remembered, so every call sees the same outcome.\<close>

definition get_or_init_process :: "('v, 'g, 'p) snarkvm \<Rightarrow> 'p rust_outcome" where
  "get_or_init_process V = map_err (\<lambda>e. ''load process: '' @ e) (sv_load V)"

text \<open>The inputs are parsed in order, up to the first that fails.\<close>

fun parse_inputs :: "('v, 'g, 'p) snarkvm \<Rightarrow> nat \<Rightarrow> string list \<Rightarrow> 'v list rust_outcome" where
  "parse_inputs V i [] = R_Ok []"
| "parse_inputs V i (s # ss) =
     and_then (map_err (\<lambda>e. ''parse input #'' @ show_nat i @ '' '' @ quoted s @ '': '' @ e)
       (sv_parse V ValueT s)) (\<lambda>v.
     and_then (parse_inputs V (Suc i) ss) (\<lambda>vs. R_Ok (v # vs)))"

definition read_inputs :: "('v, 'g, 'p) snarkvm \<Rightarrow> crates \<Rightarrow> string \<Rightarrow> 'v list rust_outcome" where
  "read_inputs V K inputs_str =
     and_then (map_err (\<lambda>e. ''parse inputs JSON: '' @ e) (cr_parse_strings K inputs_str))
       (parse_inputs V 0)"

text \<open>Each import is parsed and added in the order given.\<close>

fun add_imports :: "('v, 'g, 'p) snarkvm \<Rightarrow> nat \<Rightarrow> 'p \<Rightarrow> string list \<Rightarrow> 'p rust_outcome" where
  "add_imports V i process [] = R_Ok process"
| "add_imports V i process (src # srcs) =
     and_then (map_err (\<lambda>e. ''parse import #'' @ show_nat i @ '': '' @ e) (sv_parse_program V src))
       (\<lambda>imp_program.
     and_then (map_err (\<lambda>e. ''add import '' @ quoted (sv_program_id V imp_program) @ '': '' @ e)
       (sv_add_program V process imp_program)) (\<lambda>process'.
     add_imports V (Suc i) process' srcs))"

definition aleo_execute_program ::
  "('v, 'g, 'p) snarkvm \<Rightarrow> crates \<Rightarrow> history \<Rightarrow> string option \<Rightarrow> string option \<Rightarrow> string option \<Rightarrow>
    string option \<Rightarrow> string" where
  "aleo_execute_program V K h src_ptr fn_ptr inputs_ptr sk_ptr =
     ffi_catch (cr_string K) ''panic during program execution''
       (and_then (read_str src_ptr ''null program source'') (\<lambda>source.
        and_then (read_str fn_ptr ''null function name'') (\<lambda>fn_name.
        and_then (read_str inputs_ptr ''null inputs json'') (\<lambda>inputs_str.
        and_then (read_str sk_ptr ''null private key'') (\<lambda>sk_str.
        and_then (sv_parse V PrivateKeyT sk_str) (\<lambda>private_key.
        and_then (read_inputs V K inputs_str) (\<lambda>inputs.
        and_then (sv_parse_program V source) (\<lambda>program.
        and_then (get_or_init_process V) (\<lambda>process0.
        and_then (map_err (\<lambda>e. ''add program: '' @ e) (sv_add_program V process0 program)) (\<lambda>process.
        and_then (map_err (\<lambda>e. ''authorize: '' @ e)
          (sv_authorize V h process private_key (sv_program_id V program) fn_name inputs)) (\<lambda>authorization.
        and_then (map_err (\<lambda>e. ''execute: '' @ e) (sv_execute V h process authorization)) (\<lambda>outputs.
          map_err (\<lambda>e. ''serialize outputs: '' @ e)
            (cr_strings K (map (sv_display V) outputs))))))))))))))"

section \<open>Authorizations\<close>

definition aleo_authorize ::
  "('v, 'g, 'p) snarkvm \<Rightarrow> crates \<Rightarrow> history \<Rightarrow> string option \<Rightarrow> string option \<Rightarrow> string option \<Rightarrow>
    string option \<Rightarrow> string option \<Rightarrow> string" where
  "aleo_authorize V K h sk_ptr src_ptr fn_ptr inputs_ptr imports_ptr =
     ffi_catch (cr_string K) ''panic during authorization''
       (and_then (read_str sk_ptr ''null private key'') (\<lambda>sk_str.
        and_then (read_str src_ptr ''null program source'') (\<lambda>source.
        and_then (read_str fn_ptr ''null function name'') (\<lambda>fn_name.
        and_then (read_str inputs_ptr ''null inputs json'') (\<lambda>inputs_str.
        and_then (read_str imports_ptr ''null imports json'') (\<lambda>imports_str.
        and_then (sv_parse V PrivateKeyT sk_str) (\<lambda>private_key.
        and_then (read_inputs V K inputs_str) (\<lambda>inputs.
        and_then (map_err (\<lambda>e. ''parse imports JSON: '' @ e) (cr_parse_strings K imports_str))
          (\<lambda>import_sources.
        and_then (get_or_init_process V) (\<lambda>process0.
        and_then (add_imports V 0 process0 import_sources) (\<lambda>process1.
        and_then (sv_parse_program V source) (\<lambda>program.
        and_then (map_err (\<lambda>e. ''add program '' @ quoted (sv_program_id V program) @ '': '' @ e)
          (sv_add_program V process1 program)) (\<lambda>process.
        and_then (map_err (\<lambda>e. ''authorize: '' @ e)
          (sv_authorize V h process private_key (sv_program_id V program) fn_name inputs)) (\<lambda>authorization.
          map_err (\<lambda>e. ''serialize authorization: '' @ e)
            (sv_auth_to_json V authorization)))))))))))))))"

definition aleo_proving_request_to_bytes ::
  "('v, 'g, 'p) snarkvm \<Rightarrow> crates \<Rightarrow> string option \<Rightarrow> string option \<Rightarrow> bool \<Rightarrow> string" where
  "aleo_proving_request_to_bytes V K auth_ptr fee_ptr broadcast =
     ffi_catch (cr_string K) ''panic during proving request serialization''
       (and_then (read_str auth_ptr ''null authorization json'') (\<lambda>auth_str.
        and_then (map_err (\<lambda>e. ''parse authorization: '' @ e) (sv_auth_from_json V auth_str))
          (\<lambda>authorization.
        and_then
          (case read_c_str fee_ptr of
             None \<Rightarrow> R_Ok None
           | Some s \<Rightarrow>
               if s \<noteq> [] then
                 and_then (map_err (\<lambda>e. ''parse fee authorization: '' @ e) (sv_auth_from_json V s))
                   (\<lambda>fee. R_Ok (Some fee))
               else R_Ok None) (\<lambda>fee_authorization.
        and_then (map_err (\<lambda>e. ''serialize authorization bytes: '' @ e)
          (sv_auth_write_le V authorization)) (\<lambda>auth_bytes.
        and_then
          (case fee_authorization of
             Some fa \<Rightarrow>
               and_then (map_err (\<lambda>e. ''serialize fee authorization bytes: '' @ e)
                 (sv_auth_write_le V fa)) (\<lambda>fee_bytes. R_Ok (byte_char 1 # fee_bytes))
           | None \<Rightarrow> R_Ok [byte_char 0]) (\<lambda>flag_and_fee.
          R_Ok (cr_base64 K (auth_bytes @ flag_and_fee @ [byte_char (of_bool broadcast)]))))))))"

section \<open>Hashes\<close>

text \<open>The names that \<open>stringify!($hasher)\<close> gives; the multi-input functions share their hasher.\<close>

fun hasher_name :: "hash_fn \<Rightarrow> string" where
  "hasher_name Hash_bhp256 = ''hash_bhp256''"
| "hasher_name Hash_bhp512 = ''hash_bhp512''"
| "hasher_name Hash_bhp768 = ''hash_bhp768''"
| "hasher_name Hash_bhp1024 = ''hash_bhp1024''"
| "hasher_name Hash_ped64 = ''hash_ped64''"
| "hasher_name Hash_ped128 = ''hash_ped128''"
| "hasher_name Hash_psd2 = ''hash_psd2''"
| "hasher_name Hash_psd4 = ''hash_psd4''"
| "hasher_name Hash_psd8 = ''hash_psd8''"
| "hasher_name Hash_psd2_multi = ''hash_psd2''"
| "hasher_name Hash_psd4_multi = ''hash_psd4''"
| "hasher_name Hash_psd8_multi = ''hash_psd8''"

fun hasher :: "hash_fn \<Rightarrow> hash_fn" where
  "hasher Hash_psd2_multi = Hash_psd2"
| "hasher Hash_psd4_multi = Hash_psd4"
| "hasher Hash_psd8_multi = Hash_psd8"
| "hasher f = f"

definition literal_to_bits :: "('v, 'g, 'p) snarkvm \<Rightarrow> string \<Rightarrow> bool list rust_outcome" where
  "literal_to_bits V input =
     and_then (map_err (\<lambda>e. ''parse literal: '' @ e) (sv_parse V LiteralT input)) (sv_to_bits_le V)"

definition literal_to_field :: "('v, 'g, 'p) snarkvm \<Rightarrow> string \<Rightarrow> 'v rust_outcome" where
  "literal_to_field V input =
     and_then (map_err (\<lambda>e. ''parse literal: '' @ e) (sv_parse V LiteralT input)) (\<lambda>lit.
       case sv_as_field V lit of
         Some f \<Rightarrow> R_Ok f
       | None \<Rightarrow>
           and_then (sv_to_bits_le V lit) (\<lambda>bits.
             map_err (\<lambda>e. ''convert to field: '' @ e) (sv_field_from_bits V bits)))"

text \<open>The functions that \<open>define_bhp_hash_ffi!\<close> and \<open>define_ped_hash_ffi!\<close> expand to are alike.\<close>

definition hash_bits_ffi ::
  "('v, 'g, 'p) snarkvm \<Rightarrow> crates \<Rightarrow> hash_fn \<Rightarrow> string option \<Rightarrow> string" where
  "hash_bits_ffi V K f input_ptr =
     ffi_catch (cr_string K) (''panic during '' @ hasher_name f)
       (and_then (read_str input_ptr ''null input'') (\<lambda>input.
        and_then (literal_to_bits V input) (\<lambda>bits.
        and_then (map_err (\<lambda>e. hasher_name f @ '': '' @ e) (sv_hash_bits V f bits)) (\<lambda>r.
          R_Ok (sv_display V r)))))"

definition hash_field_ffi ::
  "('v, 'g, 'p) snarkvm \<Rightarrow> crates \<Rightarrow> hash_fn \<Rightarrow> string option \<Rightarrow> string" where
  "hash_field_ffi V K f input_ptr =
     ffi_catch (cr_string K) (''panic during '' @ hasher_name f)
       (and_then (read_str input_ptr ''null input'') (\<lambda>input.
        and_then (literal_to_field V input) (\<lambda>field.
        and_then (map_err (\<lambda>e. hasher_name f @ '': '' @ e) (sv_hash_fields V f [field])) (\<lambda>r.
          R_Ok (sv_display V r)))))"

fun literals_to_fields :: "('v, 'g, 'p) snarkvm \<Rightarrow> nat \<Rightarrow> string list \<Rightarrow> 'v list rust_outcome" where
  "literals_to_fields V i [] = R_Ok []"
| "literals_to_fields V i (s # ss) =
     and_then (map_err (\<lambda>e. ''input #'' @ show_nat i @ '': '' @ e) (literal_to_field V s)) (\<lambda>f.
     and_then (literals_to_fields V (Suc i) ss) (\<lambda>fs. R_Ok (f # fs)))"

definition hash_multi_ffi ::
  "('v, 'g, 'p) snarkvm \<Rightarrow> crates \<Rightarrow> hash_fn \<Rightarrow> string option \<Rightarrow> string" where
  "hash_multi_ffi V K f inputs_ptr =
     ffi_catch (cr_string K) (''panic during multi-input '' @ hasher_name f)
       (and_then (read_str inputs_ptr ''null inputs json'') (\<lambda>inputs_str.
        and_then (map_err (\<lambda>e. ''parse inputs: '' @ e) (cr_parse_strings K inputs_str)) (\<lambda>input_strings.
        and_then (literals_to_fields V 0 input_strings) (\<lambda>fields.
        and_then (map_err (\<lambda>e. hasher_name f @ '': '' @ e) (sv_hash_fields V (hasher f) fields)) (\<lambda>r.
          R_Ok (sv_display V r))))))"

fun aleo_hash :: "('v, 'g, 'p) snarkvm \<Rightarrow> crates \<Rightarrow> hash_fn \<Rightarrow> string option \<Rightarrow> string" where
  "aleo_hash V K Hash_bhp256 = hash_bits_ffi V K Hash_bhp256"
| "aleo_hash V K Hash_bhp512 = hash_bits_ffi V K Hash_bhp512"
| "aleo_hash V K Hash_bhp768 = hash_bits_ffi V K Hash_bhp768"
| "aleo_hash V K Hash_bhp1024 = hash_bits_ffi V K Hash_bhp1024"
| "aleo_hash V K Hash_ped64 = hash_bits_ffi V K Hash_ped64"
| "aleo_hash V K Hash_ped128 = hash_bits_ffi V K Hash_ped128"
| "aleo_hash V K Hash_psd2 = hash_field_ffi V K Hash_psd2"
| "aleo_hash V K Hash_psd4 = hash_field_ffi V K Hash_psd4"
| "aleo_hash V K Hash_psd8 = hash_field_ffi V K Hash_psd8"
| "aleo_hash V K Hash_psd2_multi = hash_multi_ffi V K Hash_psd2_multi"
| "aleo_hash V K Hash_psd4_multi = hash_multi_ffi V K Hash_psd4_multi"
| "aleo_hash V K Hash_psd8_multi = hash_multi_ffi V K Hash_psd8_multi"

section \<open>Verification of executions\<close>

definition aleo_verify_execution :: "('v, 'g, 'p) snarkvm \<Rightarrow> crates \<Rightarrow> string option \<Rightarrow> string" where
  "aleo_verify_execution V K exec_ptr =
     ffi_catch (cr_string K) ''panic during execution verification''
       (and_then (read_str exec_ptr ''null execution json'') (\<lambda>exec_str.
        and_then (map_err (\<lambda>e. ''parse execution: '' @ e) (sv_execution_from_json V exec_str)) (\<lambda>execution.
        and_then (get_or_init_process V) (\<lambda>process.
        and_then (map_err (\<lambda>e. ''verify execution: '' @ e) (sv_verify_execution V process execution)) (\<lambda>_.
          R_Ok ''true'')))))"

section \<open>The library under the Go program\<close>

text \<open>
  The linker's table: what each C function of the Go declarations does. Go passes null for an empty
  message; the functions never return null.
\<close>

definition rust_ffi ::
  "('v, 'g, 'p) snarkvm \<Rightarrow> crates \<Rightarrow> history \<Rightarrow> ffi_call \<Rightarrow> string option" where
  "rust_ffi V K h f = Some
     (case f of
        C_private_key_new \<Rightarrow> aleo_private_key_new V K h
      | C_derive_all_keys sk \<Rightarrow> aleo_derive_all_keys V K (Some sk)
      | C_sign_message sk msg \<Rightarrow>
          aleo_sign_message V K h (Some sk) (if msg = [] then None else Some msg)
      | C_decrypt_record ct vk \<Rightarrow> aleo_decrypt_record V K (Some ct) (Some vk)
      | C_execute_program src fn inputs sk \<Rightarrow>
          aleo_execute_program V K h (Some src) (Some fn) (Some inputs) (Some sk)
      | C_program_id src \<Rightarrow> aleo_program_id V K (Some src)
      | C_authorize sk src fn inputs imports \<Rightarrow>
          aleo_authorize V K h (Some sk) (Some src) (Some fn) (Some inputs) (Some imports)
      | C_proving_request_to_bytes auth fee broadcast \<Rightarrow>
          aleo_proving_request_to_bytes V K (Some auth) fee broadcast
      | C_hash g input \<Rightarrow> aleo_hash V K g (Some input)
      | C_verify_execution exec \<Rightarrow> aleo_verify_execution V K (Some exec))"

definition rust_verify ::
  "('v, 'g, 'p) snarkvm \<Rightarrow> history \<Rightarrow> string \<Rightarrow> bytes \<Rightarrow> string \<Rightarrow> int" where
  "rust_verify V h addr msg sig =
     aleo_verify_signature V (Some addr) (if msg = [] then None else Some msg) (Some sig)"

definition with_rust :: "('v, 'g, 'p) snarkvm \<Rightarrow> crates \<Rightarrow> env \<Rightarrow> env" where
  "with_rust V K E = E\<lparr>ffi := rust_ffi V K, ffi_verify := rust_verify V\<rparr>"

lemma with_rust_sel [simp]:
  "ffi (with_rust V K E) = rust_ffi V K" "ffi_verify (with_rust V K E) = rust_verify V"
  "respond (with_rust V K E) = respond E" "url_error (with_rust V K E) = url_error E"
  "latency (with_rust V K E) = latency E" "limiter (with_rust V K E) = limiter E"
  "rand_bytes (with_rust V K E) = rand_bytes E" "select_done (with_rust V K E) = select_done E"
  "float_to_int (with_rust V K E) = float_to_int E"
  by (simp_all add: with_rust_def)

text \<open>The network, the clock and the random source are those of the environment.\<close>

lemma with_rust_world [simp]:
  "http_do (with_rust V K E) = http_do E" "done_wins (with_rust V K E) = done_wins E"
  "limiter_wait (with_rust V K E) = limiter_wait E" "rand_read (with_rust V K E) = rand_read E"
  by (simp_all add: fun_eq_iff http_do_def done_wins_def limiter_wait_def rand_read_def
      split: option.split sum.split)

lemma with_rust_wait [simp]: "wait_select (with_rust V K E) = wait_select E"
  by (simp add: fun_eq_iff wait_select_def)

lemma read_slice_msg [simp]: "read_slice (if msg = [] then None else Some msg) = msg"
  by (simp add: read_slice_def)

end
