(* ===== verification/Rust_Contracts.thy ===== *)
theory Rust_Contracts
  imports Rust_Bridge Account
begin

text \<open>
  What the bridge relies on in the libraries it calls, and what a call through the boundary then
  amounts to: every outcome of a Rust function reaches Go as the result it stands for, the JSON
  object of the derived keys decodes to snarkVM's keys.
\<close>

section \<open>Documented behaviour of serde\_json and base64\<close>

text \<open>
  \<open>serde_json\<close> writes strings as JSON literals, reads arrays of strings and refuses \<open>null\<close> for a
  list; the text of an object with distinct keys is the compact text of its members, in an order that
  a feature flag of the crate decides. \<open>STANDARD\<close> is the usual alphabet with padding.
\<close>

definition member_text :: "crates \<Rightarrow> string \<times> string \<Rightarrow> string" where
  "member_text K kv = cr_string K (fst kv) @ CHR '':'' # snd kv"

definition object_text :: "crates \<Rightarrow> (string \<times> string) list \<Rightarrow> string" where
  "object_text K kvs = ''{'' @ join (CHR '','') (map (member_text K) kvs) @ ''}''"

definition crates_ok :: "crates \<Rightarrow> bool" where
  "crates_ok K =
     (serde_ok (cr_string K) \<and>
      (\<forall>xs. list_all valid_utf8 xs \<longrightarrow> cr_parse_strings K (marshal_strings (Some xs)) = R_Ok xs) \<and>
      (\<exists>e. valid_utf8 e \<and> cr_parse_strings K ''null'' = R_Err e) \<and>
      (\<forall>kvs. distinct (map fst kvs) \<longrightarrow>
         (\<exists>kvs'. set kvs' = set kvs \<and> cr_object K kvs = object_text K kvs')) \<and>
      (\<forall>b. cr_base64 K b = base64_encode b))"

lemma crates_okD:
  assumes "crates_ok K"
  shows "serde_ok (cr_string K)"
    and "list_all valid_utf8 xs \<Longrightarrow> cr_parse_strings K (marshal_strings (Some xs)) = R_Ok xs"
    and "\<exists>e. valid_utf8 e \<and> cr_parse_strings K ''null'' = R_Err e"
    and "distinct (map fst kvs) \<Longrightarrow> \<exists>kvs'. set kvs' = set kvs \<and> cr_object K kvs = object_text K kvs'"
    and "cr_base64 K b = base64_encode b"
  using assms unfolding crates_ok_def by blast+

section \<open>Outcomes across the boundary\<close>

text \<open>A text that Go takes for a result, and an error message that it takes for an error.\<close>

definition plain_text :: "string \<Rightarrow> bool" where
  "plain_text s \<longleftrightarrow> CHR 0x00 \<notin> set s \<and> take (length err_prefix) s \<noteq> err_prefix"

definition message :: "string \<Rightarrow> bool" where
  "message e \<longleftrightarrow> valid_utf8 e \<and> e \<noteq> []"

definition errors_readable :: "'a rust_outcome \<Rightarrow> bool" where
  "errors_readable m \<longleftrightarrow> (\<forall>e. m = R_Err e \<longrightarrow> message e)"

lemma errors_readable_simps [simp]:
  "errors_readable (R_Ok x)" "errors_readable R_Panic" "errors_readable (R_Err e) = message e"
  "errors_readable (unwrap m)"
  by (auto simp: errors_readable_def)

lemma errors_readable_and_then [intro]:
  "errors_readable m \<Longrightarrow> (\<And>x. m = R_Ok x \<Longrightarrow> errors_readable (k x)) \<Longrightarrow> errors_readable (and_then m k)"
  by (cases m) simp_all

lemma message_ascii: "list_all ascii e \<Longrightarrow> e \<noteq> [] \<Longrightarrow> message e"
  by (simp add: message_def valid_utf8_ascii)

lemma errors_readable_map_err:
  "errors_readable m \<Longrightarrow> list_all ascii pre \<Longrightarrow> errors_readable (map_err (\<lambda>e. pre @ e) m)"
  by (cases m) (simp_all add: message_def valid_utf8_append valid_utf8_ascii)

text \<open>What Go returns for the outcome \<open>out\<close> of a function whose panic message is \<open>pm\<close>.\<close>

definition go_result :: "string \<Rightarrow> string rust_outcome \<Rightarrow> string result" where
  "go_result pm out =
     (case out of R_Ok s \<Rightarrow> Inr s | R_Err e \<Rightarrow> Inl (Errorf e) | R_Panic \<Rightarrow> Inl (Errorf pm))"

lemma catch_plain: "plain_text s \<Longrightarrow> result_or_error (Some (ffi_catch ser pm (R_Ok s))) = Inr s"
  by (simp add: ffi_catch_def to_c_string_def plain_text_def result_or_error_plain)

lemma catch_result:
  assumes "serde_ok ser" and "message pm" and "errors_readable out"
    and "\<And>s. out = R_Ok s \<Longrightarrow> plain_text s"
  shows "result_or_error (Some (ffi_catch ser pm out)) = go_result pm out"
proof (cases out)
  case (R_Ok s)
  with assms(4) show ?thesis by (simp add: go_result_def catch_plain)
qed (use assms in \<open>simp_all add: go_result_def ffi_catch_def message_def result_or_error_text\<close>)

lemma catch_Inr:
  assumes "serde_ok ser" and "message pm" and "errors_readable out"
    and "result_or_error (Some (ffi_catch ser pm out)) = Inr s"
  obtains s' where "out = R_Ok s'" and "plain_text s' \<Longrightarrow> s = s'"
proof (cases out)
  case (R_Ok s')
  then have "plain_text s' \<Longrightarrow> s = s'"
    using catch_result [OF assms(1-3)] assms(4) by (simp add: go_result_def)
  with R_Ok show thesis by (rule that)
qed (use assms in \<open>simp_all add: ffi_catch_def message_def result_or_error_text\<close>)

lemma errors_readable_read [simp]: "message what \<Longrightarrow> errors_readable (read_str p what)"
  by (auto simp: read_str_def errors_readable_def ok_or_def split: option.splits)

text \<open>Base64 text is never taken for an error.\<close>

lemma base64_chars: "c \<in> set (base64_encode s) \<Longrightarrow> c \<in> set std_alphabet \<or> c = CHR ''=''"
proof (induction s rule: base64_encode.induct)
  case (2 a)
  have "byte a div 4 < 64" "byte a mod 4 * 16 < 64"
    using byte_less [of a] by (simp_all add: less_mult_imp_div_less)
  with 2 show ?case by (auto simp: b64_char_def std_alphabet_facts)
next
  case (3 a b)
  have "byte a div 4 < 64" "byte a mod 4 * 16 + byte b div 16 < 64" "byte b mod 16 * 4 < 64"
    using byte_less [of a] byte_less [of b] by linarith+
  with 3 show ?case by (auto simp: b64_char_def std_alphabet_facts)
next
  case (4 a b c s)
  have "byte a div 4 < 64" "byte a mod 4 * 16 + byte b div 16 < 64"
      "byte b mod 16 * 4 + byte c div 64 < 64" "byte c mod 64 < 64"
    using byte_less [of a] byte_less [of b] byte_less [of c] by linarith+
  with 4 show ?case by (auto simp: b64_char_def std_alphabet_facts)
qed simp

lemma plain_text_base64 [simp]: "plain_text (base64_encode s)"
proof -
  have "CHR 0x00 \<notin> set std_alphabet" "CHR ''{'' \<notin> set std_alphabet"
    by (simp_all add: std_alphabet_def)
  then have no: "CHR 0x00 \<notin> set (base64_encode s)" "CHR ''{'' \<notin> set (base64_encode s)"
    by (auto dest: base64_chars)
  have "take (length err_prefix) (base64_encode s) \<noteq> err_prefix"
  proof
    assume "take (length err_prefix) (base64_encode s) = err_prefix"
    then have "CHR ''{'' \<in> set (take (length err_prefix) (base64_encode s))"
      by (simp add: err_prefix_def)
    with no(2) show False by (meson in_set_takeD)
  qed
  with no(1) show ?thesis by (simp add: plain_text_def)
qed

section \<open>Lists of strings across the boundary\<close>

lemma valid_utf8_rune: "0 < utf8_len s \<Longrightarrow> valid_utf8 (take (utf8_len s) s)"
  using utf8_len_take [of s "[]"] by (simp add: valid_utf8.simps [of "take _ _"] valid_utf8.simps [of "[]"])

lemma ascii_hex_digit: "d < 16 \<Longrightarrow> ascii (hex_digit d)"
  by (simp add: hex_digit_def ascii_def)

lemma ascii_escape: "ascii c \<Longrightarrow> list_all ascii (escape_ascii c)"
proof -
  have "byte c div 16 < (16::nat)" "byte c mod 16 < (16::nat)"
    using byte_less [of c] by (simp_all add: less_mult_imp_div_less)
  then have "list_all ascii (u00 c)"
    by (simp add: u00_def ascii_hex_digit) (simp add: ascii_def)
  moreover assume "ascii c"
  ultimately show ?thesis by (simp add: escape_ascii_def) (simp add: ascii_def)
qed

lemma valid_utf8_quote_body: "valid_utf8 (quote_body s)"
proof (induction s rule: quote_body.induct)
  case 1
  then show ?case by (simp add: valid_utf8.simps)
next
  case (2 c s)
  have plain: "ascii (CHR 0x5C)" "ascii (CHR ''u'')" "ascii (CHR ''f'')" "ascii (CHR ''d'')"
      "ascii (CHR ''2'')" "ascii (CHR ''0'')" "ascii (CHR ''8'')" "ascii (CHR ''9'')"
    by (simp_all add: ascii_def)
  with 2 valid_utf8_rune [of "c # s"] show ?case
    by (simp add: quote_body.simps(2) valid_utf8_append valid_utf8_ascii ascii_escape escape_rune_def
        valid_utf8_ascii_Cons del: take_Cons' drop_Cons')
qed

lemma valid_utf8_quote: "valid_utf8 (quote s)"
proof -
  have "valid_utf8 [CHR 0x22]" by (rule valid_utf8_ascii) (simp add: ascii_def)
  then show ?thesis
    using valid_utf8_append [OF valid_utf8_quote_body]
    by (simp add: quote_def valid_utf8_ascii_Cons ascii_def)
qed

lemma c_text_marshal [simp]: "c_text (marshal_strings v)"
proof -
  have "valid_utf8 (join (CHR '','') (map quote xs))" for xs
  proof (induction xs rule: induct_list012)
    case (3 x y zs)
    then show ?case
      using valid_utf8_append [OF valid_utf8_quote]
      by (simp add: valid_utf8_ascii_Cons ascii_def)
  qed (simp_all add: valid_utf8_quote valid_utf8.simps [of "[]"])
  then have "valid_utf8 (''['' @ join (CHR '','') (map quote xs) @ '']'')" for xs
    using valid_utf8_append valid_utf8_ascii [of "'']''"]
    by (simp add: valid_utf8_ascii_Cons ascii_def)
  moreover have "valid_utf8 ''null''"
    by (rule valid_utf8_ascii) (simp add: ascii_def)
  ultimately have "valid_utf8 (marshal_strings v)"
    by (simp add: marshal_strings_def split: option.split)
  then show ?thesis by (simp add: c_text_def marshal_strings_no_nul)
qed

section \<open>Objects read back\<close>

text \<open>A text that the Go parser reads as the JSON value \<open>j\<close>, whatever follows.\<close>

definition value_text :: "nat \<Rightarrow> string \<Rightarrow> json \<Rightarrow> bool" where
  "value_text d t j \<longleftrightarrow> t \<noteq> [] \<and> \<not> json_ws (hd t) \<and> CHR 0x00 \<notin> set t \<and>
     (\<forall>r. json_value d (t @ r) = Some (j, r))"

lemma serde_string:
  assumes "serde_ok ser" and "valid_utf8 m"
  obtains body where "ser m = CHR 0x22 # body @ [CHR 0x22]" and "CHR 0x00 \<notin> set body"
    and "\<And>r. json_string (body @ CHR 0x22 # r) = Some (m, r)"
  using assms unfolding serde_ok_def by blast

lemma serde_no_nul: "serde_ok ser \<Longrightarrow> valid_utf8 m \<Longrightarrow> CHR 0x00 \<notin> set (ser m)"
  by (erule (1) serde_string) simp

lemma value_text_string: "serde_ok ser \<Longrightarrow> valid_utf8 m \<Longrightarrow> value_text d (ser m) (JStr m)"
  by (erule (1) serde_string)
    (simp add: value_text_def json_value.simps json_scalar_def has_prefix_def)

lemma json_members_object:
  assumes "serde_ok (cr_string K)" and "kvs \<noteq> []"
    and "\<And>k v. (k, v) \<in> set kvs \<Longrightarrow> valid_utf8 k \<and> value_text d v (val k)"
  shows "json_members d (join (CHR '','') (map (member_text K) kvs) @ CHR ''}'' # r) =
    Some (map (\<lambda>(k, v). (k, v, val k)) kvs, r)"
  using assms(2,3)
proof (induction kvs rule: induct_list012)
  case (2 kv)
  obtain k v where kv: "kv = (k, v)" by (cases kv)
  with 2 have v: "valid_utf8 k" "value_text d v (val k)" by auto
  obtain body where "cr_string K k = CHR 0x22 # body @ [CHR 0x22]"
    "\<And>r. json_string (body @ CHR 0x22 # r) = Some (k, r)"
    using serde_string [OF assms(1) v(1)] by metis
  moreover obtain c t where "v = c # t" "\<not> json_ws c" "\<And>r. json_value d (c # t @ r) = Some (val k, r)"
    using v(2) unfolding value_text_def by (cases v) auto
  ultimately show ?case
    by (subst json_members.simps) (simp add: kv member_text_def)
next
  case (3 kv kv' kvs)
  obtain k v where kv: "kv = (k, v)" by (cases kv)
  with 3 have v: "valid_utf8 k" "value_text d v (val k)" by auto
  obtain body where "cr_string K k = CHR 0x22 # body @ [CHR 0x22]"
    "\<And>r. json_string (body @ CHR 0x22 # r) = Some (k, r)"
    using serde_string [OF assms(1) v(1)] by metis
  moreover obtain c t where "v = c # t" "\<not> json_ws c" "\<And>r. json_value d (c # t @ r) = Some (val k, r)"
    using v(2) unfolding value_text_def by (cases v) auto
  moreover have "json_members d (join (CHR '','') (map (member_text K) (kv' # kvs)) @ CHR ''}'' # r) =
      Some (map (\<lambda>(k, v). (k, v, val k)) (kv' # kvs), r)"
    by (rule "3.IH"(2)) (use "3.prems" in auto)
  ultimately show ?case
    by (subst json_members.simps) (simp add: kv member_text_def)
qed simp

lemma object_text_starts:
  assumes "kvs \<noteq> []"
  obtains t where "object_text K kvs = CHR ''{'' # cr_string K (fst (hd kvs)) @ CHR '':'' # t"
  using assms by (cases kvs rule: remdups_adj.cases) (auto simp: object_text_def member_text_def)

lemma json_parse_object:
  assumes "serde_ok (cr_string K)" and "kvs \<noteq> []"
    and "\<And>k v. (k, v) \<in> set kvs \<Longrightarrow> valid_utf8 k \<and> value_text 1 v (val k)"
  shows "json_parse (object_text K kvs) = Some (JObj (map (\<lambda>(k, v). (k, v, val k)) kvs))"
proof -
  obtain k v kvs' where kvs: "kvs = (k, v) # kvs'" using assms(2) by (cases kvs) auto
  obtain body where b: "cr_string K k = CHR 0x22 # body @ [CHR 0x22]"
    using assms(3) [of k v] serde_string [OF assms(1), of k] kvs by (metis list.set_intros(1))
  obtain u where u: "join (CHR '','') (map (member_text K) kvs) @ ''}'' = CHR 0x22 # u"
    using b unfolding kvs by (cases kvs') (simp_all add: member_text_def)
  from json_members_object [OF assms, of "[]"]
  have "json_members (Suc 0) (CHR 0x22 # u) = Some (map (\<lambda>(k, v). (k, v, val k)) kvs, [])"
    using u by simp
  then show ?thesis
    by (simp add: json_parse_def object_text_def u json_value.simps [of 0 "_ # _"] max_nesting_def
        has_prefix_def)
qed

section \<open>The derived keys\<close>

text \<open>Members of the object of \<open>aleo_derive_all_keys\<close>, and the keys after some of them were decoded.\<close>

definition key_members :: "crates \<Rightarrow> string \<Rightarrow> string \<Rightarrow> string \<Rightarrow> string \<Rightarrow> (string \<times> string) list" where
  "key_members K vk addr ck gk =
     [(''view_key'', cr_string K vk), (''address'', cr_string K addr), (''compute_key'', ck),
      (''graph_key'', cr_string K gk)]"

definition keys_so_far :: "string \<Rightarrow> string \<Rightarrow> string \<Rightarrow> string \<Rightarrow> string set \<Rightarrow> derived_keys" where
  "keys_so_far vk addr ck gk S =
     \<lparr>dk_view_key = (if ''view_key'' \<in> S then vk else []),
      dk_address = (if ''address'' \<in> S then addr else []),
      dk_compute_key = (if ''compute_key'' \<in> S then Some ck else None),
      dk_graph_key = (if ''graph_key'' \<in> S then gk else [])\<rparr>"

definition key_value :: "string \<Rightarrow> string \<Rightarrow> json \<Rightarrow> string \<Rightarrow> string \<Rightarrow> json" where
  "key_value vk addr j gk k =
     (if k = ''view_key'' then JStr vk else if k = ''address'' then JStr addr
      else if k = ''compute_key'' then j else JStr gk)"

definition key_fields :: "(string \<times> derived_keys field_dec) list" where
  "key_fields =
     [(''view_key'', fld_string dk_view_key (\<lambda>s r. r\<lparr>dk_view_key := s\<rparr>)),
      (''address'', fld_string dk_address (\<lambda>s r. r\<lparr>dk_address := s\<rparr>)),
      (''compute_key'', fld_raw (\<lambda>m r. r\<lparr>dk_compute_key := m\<rparr>)),
      (''graph_key'', fld_string dk_graph_key (\<lambda>s r. r\<lparr>dk_graph_key := s\<rparr>))]"

lemma dec_keys_fields: "dec_keys j = dec_struct key_fields j zero_keys"
  by (simp add: dec_keys_def key_fields_def)

lemma find_field_exact: "map_of fs k = Some f \<Longrightarrow> find_field fs k = Some f"
  by (simp add: find_field_def)

lemma in_four_cases:
  "x \<in> set [a, b, c, d] \<Longrightarrow> (x = a \<Longrightarrow> P) \<Longrightarrow> (x = b \<Longrightarrow> P) \<Longrightarrow> (x = c \<Longrightarrow> P) \<Longrightarrow> (x = d \<Longrightarrow> P) \<Longrightarrow> P"
  by auto

lemma key_members_cases:
  assumes "(k, v) \<in> set (key_members K vk addr ck gk)"
  obtains (view_key) "k = ''view_key''" "v = cr_string K vk"
    | (address) "k = ''address''" "v = cr_string K addr"
    | (compute_key) "k = ''compute_key''" "v = ck"
    | (graph_key) "k = ''graph_key''" "v = cr_string K gk"
  using assms unfolding key_members_def by (elim in_four_cases) (simp_all only: prod.inject)

lemma key_field_step:
  assumes "(k, v) \<in> set (key_members K vk addr ck gk)"
  shows "\<exists>f. find_field key_fields k = Some f \<and>
    f v (key_value vk addr j gk k) (keys_so_far vk addr ck gk S) =
      Some (keys_so_far vk addr ck gk (insert k S))"
  using assms
  by (cases rule: key_members_cases)
    (rule exI, rule conjI, rule find_field_exact, simp add: key_fields_def,
      simp add: key_value_def keys_so_far_def fld_defs)+

lemma decode_key_members:
  assumes "set kvs \<subseteq> set (key_members K vk addr ck gk)"
  shows "dec_members key_fields (map (\<lambda>(k, v). (k, v, key_value vk addr j gk k)) kvs)
      (keys_so_far vk addr ck gk S) =
    Some (keys_so_far vk addr ck gk (S \<union> fst ` set kvs))"
  using assms
proof (induction kvs arbitrary: S)
  case (Cons kv kvs)
  obtain k v where kv: "kv = (k, v)" by (cases kv)
  with Cons.prems key_field_step [of k v K vk addr ck gk j S] obtain f where
    "find_field key_fields k = Some f"
    "f v (key_value vk addr j gk k) (keys_so_far vk addr ck gk S) =
      Some (keys_so_far vk addr ck gk (insert k S))" by auto
  with Cons.IH [of "insert k S"] Cons.prems kv show ?case by simp
qed simp

lemma in_joinD: "c \<in> set (join sep xs) \<Longrightarrow> c = sep \<or> (\<exists>x \<in> set xs. c \<in> set x)"
  by (induction sep xs rule: join.induct) auto

lemma derived_keys_text:
  assumes "serde_ok (cr_string K)" and "valid_utf8 vk" and "valid_utf8 addr" and "valid_utf8 gk"
    and "value_text 1 ck j" and "set kvs = set (key_members K vk addr ck gk)"
  shows "unmarshal dec_keys (object_text K kvs) =
      Some \<lparr>dk_view_key = vk, dk_address = addr, dk_compute_key = Some ck, dk_graph_key = gk\<rparr>"
    and "plain_text (object_text K kvs)"
proof -
  have "set kvs \<noteq> {}" unfolding assms(6) key_members_def set_empty by (rule list.discI, rule refl)
  then have ne: "kvs \<noteq> []" by (simp only: set_empty not_False_eq_True)
  have names: "valid_utf8 ''view_key''" "valid_utf8 ''address''"
      "valid_utf8 ''compute_key''" "valid_utf8 ''graph_key''"
    by (rule valid_utf8_ascii, simp add: ascii_def)+
  have v: "valid_utf8 k \<and> value_text 1 t (key_value vk addr j gk k)" if "(k, t) \<in> set kvs" for k t
    using that [unfolded assms(6)]
  proof (cases rule: key_members_cases)
    case compute_key
    then show ?thesis using names(3) assms(5) by (simp add: key_value_def)
  qed (use names value_text_string [OF assms(1)] assms(2-4) in \<open>simp_all add: key_value_def\<close>)
  have "keys_so_far vk addr ck gk ({} \<union> fst ` set kvs) =
      \<lparr>dk_view_key = vk, dk_address = addr, dk_compute_key = Some ck, dk_graph_key = gk\<rparr>"
    by (simp add: assms(6) key_members_def keys_so_far_def)
  moreover have "keys_so_far vk addr ck gk {} = zero_keys"
    by (simp add: keys_so_far_def zero_keys_def)
  ultimately show "unmarshal dec_keys (object_text K kvs) =
      Some \<lparr>dk_view_key = vk, dk_address = addr, dk_compute_key = Some ck, dk_graph_key = gk\<rparr>"
    using json_parse_object [OF assms(1) ne v] decode_key_members [of kvs K vk addr ck gk j "{}"] assms(6)
    by (simp add: unmarshal_def dec_keys_fields)
  have "hd kvs \<in> set kvs" using ne by simp
  then obtain k t u where first: "(k, t) \<in> set kvs"
    "object_text K kvs = CHR ''{'' # cr_string K k @ CHR '':'' # u"
    using object_text_starts [OF ne, of K] by (metis prod.collapse)
  obtain body where body: "cr_string K k = CHR 0x22 # body @ [CHR 0x22]"
    "\<And>r. json_string (body @ CHR 0x22 # r) = Some (k, r)"
    using serde_string [OF assms(1), of k] v [OF first(1)] by metis
  have "k \<noteq> ''error''"
    using first(1) [unfolded assms(6)] by (cases rule: key_members_cases) simp_all
  then have "take (length err_prefix) (object_text K kvs) \<noteq> err_prefix"
  proof (rule contrapos_nn)
    assume "take (length err_prefix) (object_text K kvs) = err_prefix"
    then have "object_text K kvs = err_prefix @ drop (length err_prefix) (object_text K kvs)"
      by (metis append_take_drop_id)
    then have "body @ CHR 0x22 # CHR '':'' # u =
        ''error'' @ CHR 0x22 # CHR '':'' # CHR 0x22 # drop (length err_prefix) (object_text K kvs)"
      unfolding first(2) body(1) err_prefix_def by simp
    with body(2) [of "CHR '':'' # u"] json_string_error show "k = ''error''"
      by (metis option.inject prod.inject)
  qed
  moreover have "CHR 0x00 \<notin> set (member_text K kv)" if "kv \<in> set kvs" for kv
  proof -
    obtain k' v' where kv: "kv = (k', v')" by (cases kv)
    then have "valid_utf8 k'" "CHR 0x00 \<notin> set v'"
      using that v [of k' v'] by (simp_all add: value_text_def)
    with kv serde_no_nul [OF assms(1)] show ?thesis by (simp add: member_text_def)
  qed
  then have "CHR 0x00 \<notin> set (object_text K kvs)"
    by (auto simp: object_text_def dest!: in_joinD)
  ultimately show "plain_text (object_text K kvs)" by (simp add: plain_text_def)
qed

section \<open>Documented behaviour of snarkVM: keys and signatures\<close>

text \<open>
  The texts of snarkVM's values are not taken for errors, the JSON of a compute key is a JSON value,
  and errors have messages. Addresses and signatures parse back from their texts, and a signature
  verifies for the address of the key that made it.
\<close>

definition key_texts_ok :: "('v, 'g, 'p) snarkvm \<Rightarrow> bool" where
  "key_texts_ok V =
     ((\<forall>v. c_text (sv_display V v) \<and> plain_text (sv_display V v)) \<and>
      (\<forall>ck t. sv_compute_key_json V ck = R_Ok t \<longrightarrow> (\<exists>j. value_text 1 t j)) \<and>
      (\<forall>ty s. errors_readable (sv_parse V ty s)) \<and>
      (\<forall>k. errors_readable (sv_view_key V k) \<and> errors_readable (sv_address V k) \<and>
         errors_readable (sv_compute_key V k) \<and> errors_readable (sv_graph_key V k)) \<and>
      (\<forall>h k m. errors_readable (sv_sign V h k m)))"

definition signatures_ok :: "('v, 'g, 'p) snarkvm \<Rightarrow> bool" where
  "signatures_ok V =
     ((\<forall>k a. sv_address V k = R_Ok a \<longrightarrow> sv_parse V AddressT (sv_display V a) = R_Ok a) \<and>
      (\<forall>h k m g. sv_sign V h k m = R_Ok g \<longrightarrow> sv_parse V SignatureT (sv_display V g) = R_Ok g) \<and>
      (\<forall>h k m g a. sv_sign V h k m = R_Ok g \<longrightarrow> sv_address V k = R_Ok a \<longrightarrow>
         sv_verify V g a m = R_Ok True))"

lemma key_texts_okD:
  assumes "key_texts_ok V"
  shows "c_text (sv_display V v)" "plain_text (sv_display V v)"
    "sv_compute_key_json V ck = R_Ok t \<Longrightarrow> \<exists>j. value_text 1 t j"
    "errors_readable (sv_parse V ty s)" "errors_readable (sv_view_key V k)"
    "errors_readable (sv_address V k)" "errors_readable (sv_compute_key V k)"
    "errors_readable (sv_graph_key V k)" "errors_readable (sv_sign V h k m)"
  using assms unfolding key_texts_ok_def by blast+

lemma key_names_distinct: "distinct (map fst (key_members K vk addr ck gk))"
  by (simp add: key_members_def)

lemma derive_calls:
  assumes "and_then (sv_parse V PrivateKeyT s) (\<lambda>sk.
        and_then (sv_view_key V sk) (\<lambda>vk.
        and_then (sv_address V sk) (\<lambda>addr.
        and_then (sv_compute_key V sk) (\<lambda>ck.
        and_then (sv_graph_key V vk) (\<lambda>gk.
        and_then (unwrap (sv_compute_key_json V ck)) (\<lambda>ck_json.
          R_Ok (f vk addr ck_json gk))))))) = R_Ok kj"
  shows "\<exists>k vk addr ck gk t. sv_parse V PrivateKeyT s = R_Ok k \<and> sv_view_key V k = R_Ok vk \<and> sv_address V k = R_Ok addr \<and>
    sv_compute_key V k = R_Ok ck \<and> sv_graph_key V vk = R_Ok gk \<and> sv_compute_key_json V ck = R_Ok t \<and> kj = f vk addr t gk"
  using assms
  by (elim and_then_OkE, unfold unwrap_Ok, intro exI conjI) (assumption | simp)+

lemma derive_Inr:
  assumes "crates_ok K" and "key_texts_ok V" and "c_text sk"
    and "result_or_error (Some (aleo_derive_all_keys V K (Some (c_string sk)))) = Inr kj"
  obtains k vk addr ck gk t where "sv_parse V PrivateKeyT sk = R_Ok k" and "sv_view_key V k = R_Ok vk"
    and "sv_address V k = R_Ok addr" and "sv_compute_key V k = R_Ok ck"
    and "sv_graph_key V vk = R_Ok gk" and "sv_compute_key_json V ck = R_Ok t"
    and "unmarshal dec_keys kj = Some \<lparr>dk_view_key = sv_display V vk, dk_address = sv_display V addr,
      dk_compute_key = Some t, dk_graph_key = sv_display V gk\<rparr>"
proof -
  note ok = key_texts_okD [OF assms(2)]
  have pm: "message ''panic during key derivation''" "message ''null private key pointer''"
    by (rule message_ascii; simp add: ascii_def)+
  let ?out = "and_then (read_str (Some (c_string sk)) ''null private key pointer'') (\<lambda>sk_str.
        and_then (sv_parse V PrivateKeyT sk_str) (\<lambda>sk.
        and_then (sv_view_key V sk) (\<lambda>vk.
        and_then (sv_address V sk) (\<lambda>addr.
        and_then (sv_compute_key V sk) (\<lambda>ck.
        and_then (sv_graph_key V vk) (\<lambda>gk.
        and_then (unwrap (sv_compute_key_json V ck)) (\<lambda>ck_json.
          R_Ok (cr_object K (key_members K (sv_display V vk) (sv_display V addr) ck_json
            (sv_display V gk))))))))))"
  have readable: "errors_readable ?out" using ok pm by (intro errors_readable_and_then) simp_all
  have call: "aleo_derive_all_keys V K (Some (c_string sk)) =
      ffi_catch (cr_string K) ''panic during key derivation'' ?out"
    by (simp add: aleo_derive_all_keys_def key_members_def)
  obtain kj' where out: "?out = R_Ok kj'" and plain: "plain_text kj' \<Longrightarrow> kj = kj'"
    using assms(4) [unfolded call]
    by (rule catch_Inr [OF crates_okD(1) [OF assms(1)] pm(1) readable]) (rule that)
  have "and_then (read_str (Some (c_string sk)) what) f = f sk" for what and f :: "string \<Rightarrow> 'x rust_outcome"
    using assms(3) by simp
  from derive_calls [OF out [unfolded this]] obtain k vk addr ck gk t where
    calls: "sv_parse V PrivateKeyT sk = R_Ok k" "sv_view_key V k = R_Ok vk" "sv_address V k = R_Ok addr"
      "sv_compute_key V k = R_Ok ck" "sv_graph_key V vk = R_Ok gk" "sv_compute_key_json V ck = R_Ok t"
    and obj: "kj' = cr_object K (key_members K (sv_display V vk) (sv_display V addr) t (sv_display V gk))"
    by blast
  obtain kvs where kvs: "set kvs = set (key_members K (sv_display V vk) (sv_display V addr) t (sv_display V gk))"
    "kj' = object_text K kvs"
    using crates_okD(4) [OF assms(1) key_names_distinct] obj by metis
  obtain j where j: "value_text 1 t j" using ok(3) calls(6) by blast
  have utf: "valid_utf8 (sv_display V v)" for v using ok(1) by (simp add: c_text_def)
  note decoded = derived_keys_text [OF crates_okD(1) [OF assms(1)] utf utf utf j kvs(1)]
  show thesis
    using that [OF calls] plain decoded kvs(2) by simp
qed

lemma account_keys_lemma:
  assumes "crates_ok K" and "key_texts_ok V" and "c_text sk"
    and "account_from_private_key (with_rust V K E) sk s = (Inr a, s')"
  shows "\<exists>k vk addr ck gk t. sv_parse V PrivateKeyT sk = R_Ok k \<and> sv_view_key V k = R_Ok vk \<and>
    sv_address V k = R_Ok addr \<and> sv_compute_key V k = R_Ok ck \<and> sv_graph_key V vk = R_Ok gk \<and>
    sv_compute_key_json V ck = R_Ok t \<and>
    PrivateKey (st_mem s') a = sk \<and> ViewKey (st_mem s') a = sv_display V vk \<and>
    Address a = sv_display V addr \<and> ComputeKey (st_mem s') a = t \<and>
    GraphKey (st_mem s') a = sv_display V gk"
proof -
  have "account_from_sk (with_rust V K E) sk s = (Inr a, s')"
    using assms(4) by (simp add: account_from_private_key_def split: if_splits)
  then obtain kj keys ck where kj: "fst (ffi_derive_all_keys (with_rust V K E) sk (st_world s)) = Inr kj"
    "unmarshal dec_keys kj = Some keys"
    and ck: "ck = (case dk_compute_key keys of None \<Rightarrow> [] | Some b \<Rightarrow> [b])"
    and mem: "st_mem s' = st_mem s @ [kj] @ ck @ [sk, dk_view_key keys, dk_graph_key keys]"
    and a: "a = \<lparr>private_key = Some (length (st_mem s) + 1 + length ck),
      view_key = Some (length (st_mem s) + 2 + length ck),
      compute_key = map_option (\<lambda>_. length (st_mem s) + 1) (dk_compute_key keys),
      graph_key = Some (length (st_mem s) + 3 + length ck), address = dk_address keys\<rparr>"
    using account_from_sk_Inr by blast
  have "result_or_error (Some (aleo_derive_all_keys V K (Some (c_string sk)))) = Inr kj"
    using kj(1) by (simp add: ffi_derive_all_keys_def bridge_eq rust_ffi_def)
  with assms(1-3) obtain k vk addr ck' gk t where
    calls: "sv_parse V PrivateKeyT sk = R_Ok k" "sv_view_key V k = R_Ok vk" "sv_address V k = R_Ok addr"
      "sv_compute_key V k = R_Ok ck'" "sv_graph_key V vk = R_Ok gk" "sv_compute_key_json V ck' = R_Ok t"
    and keys: "unmarshal dec_keys kj = Some \<lparr>dk_view_key = sv_display V vk, dk_address = sv_display V addr,
      dk_compute_key = Some t, dk_graph_key = sv_display V gk\<rparr>"
    by (rule derive_Inr)
  from keys kj(2) have "keys = \<lparr>dk_view_key = sv_display V vk, dk_address = sv_display V addr,
      dk_compute_key = Some t, dk_graph_key = sv_display V gk\<rparr>" by simp
  with ck mem a have "PrivateKey (st_mem s') a = sk" "ViewKey (st_mem s') a = sv_display V vk"
    "Address a = sv_display V addr" "ComputeKey (st_mem s') a = t" "GraphKey (st_mem s') a = sv_display V gk"
    by (simp_all add: PrivateKey_def ViewKey_def Address_def ComputeKey_def GraphKey_def slice_get_def
        nth_append)
  with calls show ?thesis by blast
qed

section \<open>Signatures\<close>

lemma sign_Inr:
  assumes "crates_ok K" and "key_texts_ok V" and "c_text sk"
    and "result_or_error (Some (aleo_sign_message V K h (Some (c_string sk)) msg_ptr)) = Inr sig"
  obtains k g where "sv_parse V PrivateKeyT sk = R_Ok k"
    and "sv_sign V h k (read_slice msg_ptr) = R_Ok g" and "sig = sv_display V g"
proof -
  note ok = key_texts_okD [OF assms(2)]
  have pm: "message ''panic during message signing''" "message ''null private key pointer''"
    by (rule message_ascii; simp add: ascii_def)+
  let ?out = "and_then (read_str (Some (c_string sk)) ''null private key pointer'') (\<lambda>sk_str.
        and_then (sv_parse V PrivateKeyT sk_str) (\<lambda>sk.
        and_then (sv_sign V h sk (read_slice msg_ptr)) (\<lambda>sig. R_Ok (sv_display V sig))))"
  have readable: "errors_readable ?out" using ok pm by (intro errors_readable_and_then) simp_all
  have call: "aleo_sign_message V K h (Some (c_string sk)) msg_ptr =
      ffi_catch (cr_string K) ''panic during message signing'' ?out"
    by (simp add: aleo_sign_message_def)
  obtain s' where out: "?out = R_Ok s'" and plain: "plain_text s' \<Longrightarrow> sig = s'"
    using assms(4) [unfolded call]
    by (rule catch_Inr [OF crates_okD(1) [OF assms(1)] pm(1) readable]) (rule that)
  have "and_then (sv_parse V PrivateKeyT sk) (\<lambda>sk.
      and_then (sv_sign V h sk (read_slice msg_ptr)) (\<lambda>sig. R_Ok (sv_display V sig))) = R_Ok s'"
    using out assms(3) by simp
  then obtain k g where "sv_parse V PrivateKeyT sk = R_Ok k" "sv_sign V h k (read_slice msg_ptr) = R_Ok g"
      "s' = sv_display V g"
    by (elim and_then_OkE) simp
  with that plain ok(2) show thesis by blast
qed

end
