(* ===== verification/Bridge_Sample.thy ===== *)
theory Bridge_Sample
  imports Rust_Contracts Authorization_Builder
begin

text \<open>
  A small snarkVM and small crates that satisfy every law the cross-language properties assume: the
  instance at which those properties are applied. Values are byte strings shown in base64, a program
  is its source, a process the list of the programs loaded.
\<close>

definition toy_crates :: crates where
  "toy_crates = \<lparr>cr_string = quote, cr_strings = (\<lambda>xs. R_Ok (marshal_strings (Some xs))),
     cr_parse_strings = (\<lambda>t. case unmarshal_strings t of
        Some (Some xs) \<Rightarrow> R_Ok xs | _ \<Rightarrow> R_Err ''invalid type''),
     cr_object = (\<lambda>kvs. ''{'' @ join (CHR '','') (map (\<lambda>(k, v). quote k @ CHR '':'' # v) kvs) @ ''}''),
     cr_base64 = base64_encode\<rparr>"

definition toy_parse :: "string \<Rightarrow> string rust_outcome" where
  "toy_parse s = (case base64_decode s of Some v \<Rightarrow> R_Ok v | None \<Rightarrow> R_Err ''invalid text'')"

definition toy_program_id :: "string \<Rightarrow> string" where
  "toy_program_id g =
     (if g = a_source then ''a.aleo'' else if g = b_source then ''b.aleo'' else ''main.aleo'')"

definition toy_add :: "string list \<Rightarrow> string \<Rightarrow> string list rust_outcome" where
  "toy_add p g =
     (if toy_program_id g = credits_aleo then R_Ok p
      else if toy_program_id g \<in> set p then R_Err ''program exists''
      else if list_all (\<lambda>l. case import_of l of None \<Rightarrow> True | Some q \<Rightarrow> q = credits_aleo \<or> q \<in> set p)
        (source_lines g)
      then R_Ok (toy_program_id g # p)
      else R_Err ''missing import'')"

definition toy_vm :: "(string, string, string list) snarkvm" where
  "toy_vm = \<lparr>sv_parse = (\<lambda>_. toy_parse), sv_display = base64_encode, sv_new_key = (\<lambda>_. R_Ok ''k''),
     sv_view_key = (\<lambda>k. R_Ok (CHR ''v'' # k)), sv_address = (\<lambda>k. R_Ok (CHR ''a'' # k)),
     sv_compute_key = (\<lambda>k. R_Ok (CHR ''c'' # k)), sv_graph_key = (\<lambda>k. R_Ok (CHR ''g'' # k)),
     sv_compute_key_json = (\<lambda>k. R_Ok (quote k)),
     sv_sign = (\<lambda>_ k m. R_Ok (CHR ''s'' # k @ m)), sv_verify = (\<lambda>g a m. R_Ok (g = CHR ''s'' # tl a @ m)),
     sv_decrypt = (\<lambda>c v. R_Ok c), sv_parse_program = R_Ok, sv_program_id = toy_program_id,
     sv_load = R_Ok [credits_aleo], sv_add_program = toy_add,
     sv_authorize = (\<lambda>_ p k g fn vs. if g \<in> set p then R_Ok (g @ CHR ''/'' # fn) else R_Err ''unknown program''),
     sv_execute = (\<lambda>_ p a. R_Ok [a]), sv_auth_to_json = (\<lambda>a. R_Ok (quote (base64_encode a))),
     sv_auth_from_json = (\<lambda>t. case unmarshal_string t of
        Some s \<Rightarrow> toy_parse s | None \<Rightarrow> R_Err ''invalid type''),
     sv_auth_write_le = (\<lambda>a. R_Ok (base64_encode a @ [CHR 0x00])),
     sv_execution_from_json = R_Ok, sv_verify_execution = (\<lambda>p e. R_Ok ()),
     sv_to_bits_le = (\<lambda>v. R_Ok (map (\<lambda>c. c = CHR ''1'') v)), sv_as_field = Some,
     sv_field_from_bits = (\<lambda>b. R_Ok []), sv_hash_bits = (\<lambda>f b. R_Ok []),
     sv_hash_fields = (\<lambda>f vs. R_Ok (concat vs))\<rparr>"

definition toy_read_auth :: "bytes \<Rightarrow> (string \<times> bytes) option" where
  "toy_read_auth b =
     (case dropWhile (\<lambda>c. c \<noteq> CHR 0x00) b of
        [] \<Rightarrow> None
      | _ # r \<Rightarrow> map_option (\<lambda>a. (a, r)) (base64_decode (takeWhile (\<lambda>c. c \<noteq> CHR 0x00) b)))"

section \<open>The laws hold\<close>

lemma toy_messages: "message ''invalid text''" "message ''invalid type''" "message ''unknown program''"
  by (rule message_ascii; simp add: ascii_def)+

lemma toy_parse_readable [simp]: "errors_readable (toy_parse s)"
  using toy_messages by (simp add: toy_parse_def split: option.split)

lemma toy_parse_encode [simp]: "toy_parse (base64_encode v) = R_Ok v"
  by (simp add: toy_parse_def)

lemma c_text_base64: "c_text (base64_encode s)"
proof -
  have "list_all ascii std_alphabet" "CHR 0x00 \<notin> set std_alphabet" "ascii (CHR ''='')"
    by (simp_all add: std_alphabet_def ascii_def)
  then have "list_all ascii (base64_encode s)" "CHR 0x00 \<notin> set (base64_encode s)"
    by (auto simp: list_all_iff dest: base64_chars)
  then show ?thesis by (rule ascii_c_text)
qed

lemma quoted_text: "c_text (quote s) \<and> plain_text (quote s) \<and> quote s \<noteq> []"
proof -
  have "CHR 0x00 \<notin> set (quote s)" "take (length err_prefix) (quote s) \<noteq> err_prefix" "quote s \<noteq> []"
    by (simp_all add: quote_def quote_body_no_nul err_prefix_def)
  with valid_utf8_quote show ?thesis by (simp add: c_text_def plain_text_def)
qed

lemma toy_crates_ok: "crates_ok toy_crates"
proof -
  have "cr_parse_strings toy_crates (marshal_strings (Some xs)) = R_Ok xs" if "list_all valid_utf8 xs" for xs
    using that by (simp add: toy_crates_def unmarshal_marshal_strings map_to_valid)
  moreover have "cr_parse_strings toy_crates ''null'' = R_Err ''invalid type''"
    using unmarshal_marshal_strings [of None] by (simp add: toy_crates_def marshal_strings_def)
  moreover have "cr_object toy_crates kvs = object_text toy_crates kvs" for kvs
    by (simp add: toy_crates_def object_text_def member_text_def [abs_def] case_prod_beta')
  moreover have "serde_ok (cr_string toy_crates)" "cr_base64 toy_crates b = base64_encode b" for b
    using serde_ok_quote by (simp_all add: toy_crates_def)
  moreover have "valid_utf8 ''invalid type''" using toy_messages(2) by (simp add: message_def)
  ultimately show ?thesis unfolding crates_ok_def by metis
qed

lemma toy_texts_ok: "key_texts_ok toy_vm"
proof -
  have "value_text 1 (quote s) (JStr (to_valid_utf8 s))" for s
    using json_value_quote [of 1 s] by (auto simp: value_text_def quote_def quote_body_no_nul)
  then show ?thesis
    by (auto simp: key_texts_ok_def toy_vm_def c_text_base64)
qed

lemma toy_signatures_ok: "signatures_ok toy_vm"
  by (simp add: signatures_ok_def toy_vm_def)

definition sample_key :: string where
  "sample_key = base64_encode ''k''"

lemma sample_key_facts: "c_text sample_key" "sample_key \<noteq> []" "toy_parse sample_key = R_Ok ''k''"
  unfolding sample_key_def by (rule c_text_base64, simp, rule toy_parse_encode)

end
