(* ===== verification/Bridge_Account.thy ===== *)
theory Bridge_Account
  imports Bridge_Sample
begin

text \<open>
  Go and Rust together, for accounts: what the accessors of an account return are snarkVM's keys, and
  a signature made through the library verifies through it.
\<close>

text \<open>
  C17: An account holds snarkVM's keys. Whenever \<open>AccountFromPrivateKey\<close> succeeds through the Rust
  bridge, snarkVM parsed the key and derived all four others, \<open>PrivateKey\<close> is the given text, and
  \<open>ViewKey\<close>, \<open>Address\<close>, \<open>ComputeKey\<close> and \<open>GraphKey\<close> are the texts of the derived keys, in whatever
  order the members of the JSON object between the two sides were written.
\<close>

theorem account_keys:
  assumes "crates_ok K" and "key_texts_ok V" and "c_text sk"
    and "account_from_private_key (with_rust V K E) sk s = (Inr a, s')"
  shows "\<exists>k vk addr ck gk t. sv_parse V PrivateKeyT sk = R_Ok k \<and> sv_view_key V k = R_Ok vk \<and>
    sv_address V k = R_Ok addr \<and> sv_compute_key V k = R_Ok ck \<and> sv_graph_key V vk = R_Ok gk \<and>
    sv_compute_key_json V ck = R_Ok t \<and>
    PrivateKey (st_mem s') a = sk \<and> ViewKey (st_mem s') a = sv_display V vk \<and>
    Address a = sv_display V addr \<and> ComputeKey (st_mem s') a = t \<and>
    GraphKey (st_mem s') a = sv_display V gk"
  by (rule account_keys_lemma [OF assms])

text \<open>
  C12: A signature verifies end to end. What \<open>Sign\<close> of an account returns is accepted by \<open>Verify\<close> for
  that account's \<open>Address\<close> and the same message, at any later time, as long as the account still
  holds its key: through the derivation of the address, its JSON, the texts of address and signature
  and the result codes of the C functions, for every message, the empty one included.
\<close>

theorem sign_verify_end_to_end:
  assumes "crates_ok K" and "key_texts_ok V" and "signatures_ok V" and "c_text sk"
    and "account_from_private_key (with_rust V K E) sk s = (Inr a, s1)"
    and "PrivateKey (st_mem s2) a = sk"
    and "sign (with_rust V K E) a msg s2 = (Inr sig, s3)"
  shows "fst (verify (with_rust V K E) (Address a) msg sig w) = Inr True"
proof -
  note ok = key_texts_okD [OF assms(2)]
  obtain k addr where k: "sv_parse V PrivateKeyT sk = R_Ok k" "sv_address V k = R_Ok addr"
    "Address a = sv_display V addr"
    using account_keys_lemma [OF assms(1,2,4,5)] by blast
  have "result_or_error (Some (aleo_sign_message V K (hist (st_world s2)) (Some (c_string sk))
      (if msg = [] then None else Some msg))) = Inr sig"
    using assms(6,7) by (simp add: sign_def in_world_eq ffi_sign_message_def bridge_eq rust_ffi_def)
  then obtain k' g where g: "sv_parse V PrivateKeyT sk = R_Ok k'"
    "sv_sign V (hist (st_world s2)) k' msg = R_Ok g" "sig = sv_display V g"
    by (rule sign_Inr [OF assms(1,2,4)]) (simp add: that)
  have "k' = k" using g(1) k(1) by simp
  with g(2) k(2) assms(3) have laws: "sv_parse V AddressT (sv_display V addr) = R_Ok addr"
    "sv_parse V SignatureT (sv_display V g) = R_Ok g" "sv_verify V g addr msg = R_Ok True"
    unfolding signatures_ok_def by blast+
  then have "aleo_verify_signature V (Some (c_string (Address a)))
      (if msg = [] then None else Some msg) (Some (c_string sig)) = 1"
    using ok(1) by (simp add: aleo_verify_signature_def k(3) g(3))
  then show ?thesis
    by (simp add: verify_def ffi_verify_signature_def c_verify_def rust_verify_def Let_def)
qed

lemma toy_account:
  "\<exists>a s'. account_from_private_key (with_rust toy_vm toy_crates quiet_env) sample_key s = (Inr a, s')"
proof -
  let ?E = "with_rust toy_vm toy_crates quiet_env"
  let ?kvs = "key_members toy_crates (base64_encode ''vk'') (base64_encode ''ak'') (quote ''ck'')
    (base64_encode ''gvk'')"
  have kvs: "cr_object toy_crates ?kvs = object_text toy_crates ?kvs"
    by (simp add: toy_crates_def object_text_def member_text_def [abs_def] key_members_def)
  have val: "value_text 1 (quote ''ck'') (JStr (to_valid_utf8 ''ck''))"
    using json_value_quote [of 1 "''ck''"] by (auto simp: value_text_def quote_def quote_body_no_nul)
  have utf: "valid_utf8 (base64_encode v)" for v using c_text_base64 by (simp add: c_text_def)
  note decoded = derived_keys_text [OF crates_okD(1) [OF toy_crates_ok] utf utf utf val refl]
  have call: "aleo_derive_all_keys toy_vm toy_crates (Some (c_string sample_key)) =
      ffi_catch quote ''panic during key derivation'' (R_Ok (object_text toy_crates ?kvs))"
    unfolding kvs [symmetric]
    by (simp add: aleo_derive_all_keys_def sample_key_facts toy_vm_def key_members_def)
      (simp add: toy_crates_def)
  have "fst (ffi_derive_all_keys ?E sample_key (st_world s)) = Inr (object_text toy_crates ?kvs)"
    unfolding ffi_derive_all_keys_def bridge_eq fst_conv with_rust_sel rust_ffi_def ffi_call.case call
    by (rule catch_plain [OF decoded(2)])
  with decoded(1) sample_key_facts(2) show ?thesis
    by (simp add: account_from_private_key_def account_from_sk_def in_world_eq alloc_eq alloc_raw_eq
        Let_def del: base64_encode.simps)
qed

definition sample_start :: state where
  "sample_start = \<lparr>st_mem = [], st_world = start_world\<rparr>"

theorem account_keys_witness:
  "\<exists>a s'. account_from_private_key (with_rust toy_vm toy_crates quiet_env) sample_key sample_start =
     (Inr a, s') \<and> Address a = base64_encode ''ak''"
proof -
  obtain a s' where a: "account_from_private_key (with_rust toy_vm toy_crates quiet_env) sample_key sample_start =
      (Inr a, s')" using toy_account by blast
  from account_keys [OF toy_crates_ok toy_texts_ok sample_key_facts(1) a] a show ?thesis
    by (auto simp: toy_vm_def sample_key_facts)
qed

theorem sign_verify_end_to_end_witness:
  "\<exists>a s1 sig s2. account_from_private_key (with_rust toy_vm toy_crates quiet_env) sample_key sample_start =
      (Inr a, s1) \<and>
    sign (with_rust toy_vm toy_crates quiet_env) a ''hello'' s1 = (Inr sig, s2) \<and>
    fst (verify (with_rust toy_vm toy_crates quiet_env) (Address a) ''hello'' sig (st_world s2)) = Inr True"
proof -
  let ?E = "with_rust toy_vm toy_crates quiet_env"
  obtain a s1 where a: "account_from_private_key ?E sample_key sample_start = (Inr a, s1)" using toy_account by blast
  then have pk: "PrivateKey (st_mem s1) a = sample_key"
    using account_keys_lemma [OF toy_crates_ok toy_texts_ok sample_key_facts(1)] by blast
  have call: "aleo_sign_message toy_vm toy_crates h (Some (c_string sample_key)) (Some ''hello'') =
      ffi_catch quote ''panic during message signing'' (R_Ok (base64_encode ''skhello''))" for h
    by (simp add: aleo_sign_message_def sample_key_facts toy_vm_def read_slice_def)
      (simp add: toy_crates_def)
  have "fst (sign ?E a ''hello'' s1) = Inr (base64_encode ''skhello'')"
    unfolding sign_def pk in_world_eq ffi_sign_message_def bridge_eq fst_conv with_rust_sel rust_ffi_def
    by (simp only: ffi_call.case list.distinct if_False call, rule catch_plain, rule plain_text_base64)
  then obtain s2 where sig: "sign ?E a ''hello'' s1 = (Inr (base64_encode ''skhello''), s2)"
    by (cases "sign ?E a ''hello'' s1") simp
  from sign_verify_end_to_end [OF toy_crates_ok toy_texts_ok toy_signatures_ok sample_key_facts(1) a pk sig]
  show ?thesis using a sig by blast
qed

end
