(* ===== verification/Bridge_Hash.thy ===== *)
theory Bridge_Hash
  imports Bridge_Sample
begin

text \<open>
  The hashes through both languages: the algorithm names and functions of \<open>crypto.go\<close>, the JSON of
  several inputs, the C functions and the macros of \<open>hash.rs\<close> together compute the digests that
  snarkVM defines.
\<close>

section \<open>The digests\<close>

text \<open>
  BHP and Pedersen hash the bits of one literal, Poseidon the field elements of a list of literals:
  a field as it is and anything else read from its bits.
\<close>

definition field_of :: "('v, 'g, 'p) snarkvm \<Rightarrow> string \<Rightarrow> 'v \<Rightarrow> bool" where
  "field_of V input x =
     (\<exists>lit. sv_parse V LiteralT input = R_Ok lit \<and>
        (sv_as_field V lit = Some x \<or>
         sv_as_field V lit = None \<and>
           (\<exists>bits. sv_to_bits_le V lit = R_Ok bits \<and> sv_field_from_bits V bits = R_Ok x)))"

definition digest :: "('v, 'g, 'p) snarkvm \<Rightarrow> hash_fn \<Rightarrow> string list \<Rightarrow> 'v \<Rightarrow> bool" where
  "digest V f inputs d =
     (if f \<in> {Hash_psd2, Hash_psd4, Hash_psd8}
      then \<exists>xs. list_all2 (field_of V) inputs xs \<and> sv_hash_fields V f xs = R_Ok d
      else \<exists>input lit bits. inputs = [input] \<and> sv_parse V LiteralT input = R_Ok lit \<and>
        sv_to_bits_le V lit = R_Ok bits \<and> sv_hash_bits V f bits = R_Ok d)"

text \<open>What is relied on: shown values cross the boundary as they are, and errors have messages.\<close>

definition hash_texts_ok :: "('v, 'g, 'p) snarkvm \<Rightarrow> bool" where
  "hash_texts_ok V =
     ((\<forall>v. plain_text (sv_display V v)) \<and> (\<forall>s. errors_readable (sv_parse V LiteralT s)) \<and>
      (\<forall>v. errors_readable (sv_to_bits_le V v)) \<and> (\<forall>b. errors_readable (sv_field_from_bits V b)) \<and>
      (\<forall>f b. errors_readable (sv_hash_bits V f b)) \<and> (\<forall>f xs. errors_readable (sv_hash_fields V f xs)))"

lemma hash_texts_okD:
  assumes "hash_texts_ok V"
  shows "plain_text (sv_display V v)" "errors_readable (sv_parse V LiteralT s)"
    "errors_readable (sv_to_bits_le V v)" "errors_readable (sv_field_from_bits V b)"
    "errors_readable (sv_hash_bits V f b)" "errors_readable (sv_hash_fields V f xs)"
  using assms unfolding hash_texts_ok_def by blast+

section \<open>The Rust functions\<close>

lemma and_then_Ok: "and_then m k = R_Ok y \<longleftrightarrow> (\<exists>x. m = R_Ok x \<and> k x = R_Ok y)"
  by (cases m) simp_all

lemma literal_to_field_Ok: "literal_to_field V input = R_Ok x \<longleftrightarrow> field_of V input x"
  by (auto simp: literal_to_field_def field_of_def and_then_Ok split: option.splits)

lemma literals_to_fields_Ok: "literals_to_fields V i ss = R_Ok xs \<longleftrightarrow> list_all2 (field_of V) ss xs"
  by (induction ss arbitrary: i xs)
    (auto simp: and_then_Ok literal_to_field_Ok list_all2_Cons1)

lemma show_nat_ascii: "list_all ascii (show_nat n)"
  by (auto simp: list_all_iff ascii_def is_digit_def dest!: show_nat_digits)

lemma literal_errors:
  assumes "hash_texts_ok V"
  shows "errors_readable (literal_to_bits V input)" "errors_readable (literal_to_field V input)"
proof -
  note ok = hash_texts_okD [OF assms]
  have pre: "list_all ascii ''parse literal: ''" "list_all ascii ''convert to field: ''"
    by (simp_all add: ascii_def)
  show "errors_readable (literal_to_bits V input)"
    unfolding literal_to_bits_def by (intro errors_readable_and_then errors_readable_map_err ok pre)
  have "errors_readable (case sv_as_field V lit of Some f \<Rightarrow> R_Ok f | None \<Rightarrow>
      and_then (sv_to_bits_le V lit) (\<lambda>bits.
        map_err (\<lambda>e. ''convert to field: '' @ e) (sv_field_from_bits V bits)))" for lit
  proof (cases "sv_as_field V lit")
    case None
    have "errors_readable (and_then (sv_to_bits_le V lit) (\<lambda>bits.
        map_err (\<lambda>e. ''convert to field: '' @ e) (sv_field_from_bits V bits)))"
      by (intro errors_readable_and_then errors_readable_map_err ok pre)
    with None show ?thesis by (simp only: option.case)
  qed simp
  then show "errors_readable (literal_to_field V input)"
    unfolding literal_to_field_def by (intro errors_readable_and_then errors_readable_map_err ok pre)
qed

lemma catch_ok_iff:
  assumes "serde_ok ser" and "list_all ascii pm" and "pm \<noteq> []" and "errors_readable out"
    and "\<And>s. out = R_Ok s \<Longrightarrow> plain_text s"
  shows "result_or_error (Some (ffi_catch ser pm out)) = Inr h \<longleftrightarrow> out = R_Ok h"
  using catch_result [OF assms(1) message_ascii [OF assms(2,3)] assms(4,5)]
  by (cases out) (simp_all add: go_result_def)

lemma hasher_text: "list_all ascii (hasher_name f)"
  by (cases f) (simp_all add: ascii_def)

lemma hash_texts:
  assumes "hash_texts_ok V"
  shows "list_all ascii (''panic during '' @ hasher_name f)"
    and "list_all ascii (''panic during multi-input '' @ hasher_name f)"
    and "message ''null input''" and "message ''null inputs json''"
    and "errors_readable (map_err (\<lambda>e. hasher_name f @ '': '' @ e) (sv_hash_bits V g b))"
    and "errors_readable (map_err (\<lambda>e. hasher_name f @ '': '' @ e) (sv_hash_fields V g xs))"
proof -
  have "list_all ascii (hasher_name f @ '': '')" using hasher_text [of f] by (simp add: ascii_def)
  note pre = errors_readable_map_err [OF _ this, unfolded append_assoc]
  show "errors_readable (map_err (\<lambda>e. hasher_name f @ '': '' @ e) (sv_hash_bits V g b))"
    by (rule pre) (rule hash_texts_okD(5) [OF assms])
  show "errors_readable (map_err (\<lambda>e. hasher_name f @ '': '' @ e) (sv_hash_fields V g xs))"
    by (rule pre) (rule hash_texts_okD(6) [OF assms])
  show "message ''null input''" "message ''null inputs json''"
    by (rule message_ascii; simp add: ascii_def)+
qed (use hasher_text [of f] in \<open>simp_all add: ascii_def\<close>)

lemma hash_bits_ok:
  assumes "crates_ok K" and "hash_texts_ok V" and "c_text input" and "f \<notin> {Hash_psd2, Hash_psd4, Hash_psd8}"
  shows "result_or_error (Some (hash_bits_ffi V K f (Some (c_string input)))) = Inr h \<longleftrightarrow>
    (\<exists>d. digest V f [input] d \<and> h = sv_display V d)"
proof -
  note texts = hash_texts [OF assms(2)] literal_errors [OF assms(2)]
  let ?out = "and_then (read_str (Some (c_string input)) ''null input'') (\<lambda>input.
        and_then (literal_to_bits V input) (\<lambda>bits.
        and_then (map_err (\<lambda>e. hasher_name f @ '': '' @ e) (sv_hash_bits V f bits)) (\<lambda>r.
          R_Ok (sv_display V r))))"
  have e: "errors_readable ?out"
    by (intro errors_readable_and_then errors_readable_read errors_readable_simps texts)
  have p: "plain_text s" if "?out = R_Ok s" for s
    using that hash_texts_okD(1) [OF assms(2)] by (auto simp: and_then_Ok)
  have "result_or_error (Some (hash_bits_ffi V K f (Some (c_string input)))) = Inr h \<longleftrightarrow>
      ?out = R_Ok h"
    unfolding hash_bits_ffi_def
    by (rule catch_ok_iff [OF crates_okD(1) [OF assms(1)] texts(1) _ e p]) simp
  with assms(3,4) show ?thesis
    by (auto simp: and_then_Ok literal_to_bits_def digest_def)
qed

lemma hash_field_ok:
  assumes "crates_ok K" and "hash_texts_ok V" and "c_text input" and "f \<in> {Hash_psd2, Hash_psd4, Hash_psd8}"
  shows "result_or_error (Some (hash_field_ffi V K f (Some (c_string input)))) = Inr h \<longleftrightarrow>
    (\<exists>d. digest V f [input] d \<and> h = sv_display V d)"
proof -
  note texts = hash_texts [OF assms(2)] literal_errors [OF assms(2)]
  let ?out = "and_then (read_str (Some (c_string input)) ''null input'') (\<lambda>input.
        and_then (literal_to_field V input) (\<lambda>field.
        and_then (map_err (\<lambda>e. hasher_name f @ '': '' @ e) (sv_hash_fields V f [field])) (\<lambda>r.
          R_Ok (sv_display V r))))"
  have e: "errors_readable ?out"
    by (intro errors_readable_and_then errors_readable_read errors_readable_simps texts)
  have p: "plain_text s" if "?out = R_Ok s" for s
    using that hash_texts_okD(1) [OF assms(2)] by (auto simp: and_then_Ok)
  have "result_or_error (Some (hash_field_ffi V K f (Some (c_string input)))) = Inr h \<longleftrightarrow>
      ?out = R_Ok h"
    unfolding hash_field_ffi_def
    by (rule catch_ok_iff [OF crates_okD(1) [OF assms(1)] texts(1) _ e p]) simp
  with assms(3,4) show ?thesis
    by (auto simp: and_then_Ok literal_to_field_Ok digest_def list_all2_Cons1)
qed

lemma literals_errors:
  assumes "hash_texts_ok V"
  shows "errors_readable (literals_to_fields V i ss)"
proof (induction ss arbitrary: i)
  case (Cons s ss)
  have "list_all ascii (''input #'' @ show_nat i @ '': '')"
    using show_nat_ascii [of i] by (simp add: ascii_def)
  from errors_readable_map_err [OF literal_errors(2) [OF assms] this, of s] Cons show ?case
    by (auto intro!: errors_readable_and_then)
qed simp

text \<open>The multi-input functions read the JSON that Go writes, and refuse the \<open>null\<close> of a nil slice.\<close>

lemma inputs_read:
  assumes "crates_ok K" and "\<forall>xs. v = Some xs \<longrightarrow> list_all valid_utf8 xs"
  shows "cr_parse_strings K (marshal_strings v) = R_Ok inputs \<longleftrightarrow> v = Some inputs"
    and "errors_readable (map_err (\<lambda>e. ''parse inputs: '' @ e) (cr_parse_strings K (marshal_strings v)))"
proof -
  obtain e where e: "valid_utf8 e" "cr_parse_strings K ''null'' = R_Err e"
    using crates_okD(3) [OF assms(1)] by blast
  have "valid_utf8 ''parse inputs: ''" by (rule valid_utf8_ascii) (simp add: ascii_def)
  with e(1) have "message (''parse inputs: '' @ e)"
    using valid_utf8_append [of "''parse inputs: ''" e] by (simp add: message_def)
  with e(2) crates_okD(2) [OF assms(1)] assms(2)
  show "cr_parse_strings K (marshal_strings v) = R_Ok inputs \<longleftrightarrow> v = Some inputs"
    and "errors_readable (map_err (\<lambda>e. ''parse inputs: '' @ e) (cr_parse_strings K (marshal_strings v)))"
    by (cases v; simp add: marshal_strings_def [of None])+
qed

lemma hash_multi_ok:
  assumes "crates_ok K" and "hash_texts_ok V" and "hasher f \<in> {Hash_psd2, Hash_psd4, Hash_psd8}"
    and "\<forall>xs. v = Some xs \<longrightarrow> list_all valid_utf8 xs"
  shows "result_or_error (Some (hash_multi_ffi V K f (Some (c_string (marshal_strings v))))) = Inr h \<longleftrightarrow>
    (\<exists>inputs d. v = Some inputs \<and> digest V (hasher f) inputs d \<and> h = sv_display V d)"
proof -
  note texts = hash_texts [OF assms(2)] literals_errors [OF assms(2)] inputs_read(2) [OF assms(1,4)]
  let ?out = "and_then (map_err (\<lambda>e. ''parse inputs: '' @ e) (cr_parse_strings K (marshal_strings v)))
        (\<lambda>input_strings.
        and_then (literals_to_fields V 0 input_strings) (\<lambda>fields.
        and_then (map_err (\<lambda>e. hasher_name f @ '': '' @ e) (sv_hash_fields V (hasher f) fields)) (\<lambda>r.
          R_Ok (sv_display V r))))"
  have call: "hash_multi_ffi V K f (Some (c_string (marshal_strings v))) =
      ffi_catch (cr_string K) (''panic during multi-input '' @ hasher_name f) ?out"
    by (simp add: hash_multi_ffi_def)
  have e: "errors_readable ?out"
    by (intro errors_readable_and_then errors_readable_simps texts)
  have p: "plain_text s" if "?out = R_Ok s" for s
    using that hash_texts_okD(1) [OF assms(2)] by (auto simp: and_then_Ok)
  have "result_or_error (Some (hash_multi_ffi V K f (Some (c_string (marshal_strings v))))) = Inr h \<longleftrightarrow>
      ?out = R_Ok h"
    unfolding call
    by (rule catch_ok_iff [OF crates_okD(1) [OF assms(1)] texts(2) _ e p]) simp
  with assms(3) inputs_read(1) [OF assms(1,4)] show ?thesis
    by (auto simp: and_then_Ok literals_to_fields_Ok digest_def)
qed

section \<open>Properties\<close>

text \<open>
  C18: The hashes are snarkVM's. Through the dispatch of \<open>Hash\<close> on the documented names, the C
  functions and the macros of \<open>hash.rs\<close>, a hash succeeds exactly when snarkVM parses the literal and
  digests it with the named function - its bits for BHP and Pedersen, its field element for Poseidon -
  and the result is the text of that digest; an unknown name never succeeds. The multi-input
  functions give exactly the Poseidon digest of the field elements of their literals, in order, so on
  one literal they agree with the single-input ones, and they refuse a nil slice.
\<close>

theorem hashes_are_snarkvms:
  assumes "crates_ok K" and "hash_texts_ok V" and "c_text input"
    and "\<forall>xs. v = Some xs \<longrightarrow> list_all valid_utf8 xs"
  shows "(fst (hash (with_rust V K E) algo input w) = Inr h \<longleftrightarrow>
      (\<exists>f d. map_of documented_hashes algo = Some f \<and> digest V f [input] d \<and> h = sv_display V d)) \<and>
    (fst (HashPoseidon2Multi (with_rust V K E) v w) = Inr h \<longleftrightarrow>
      (\<exists>inputs d. v = Some inputs \<and> digest V Hash_psd2 inputs d \<and> h = sv_display V d)) \<and>
    (fst (HashPoseidon4Multi (with_rust V K E) v w) = Inr h \<longleftrightarrow>
      (\<exists>inputs d. v = Some inputs \<and> digest V Hash_psd4 inputs d \<and> h = sv_display V d)) \<and>
    (fst (HashPoseidon8Multi (with_rust V K E) v w) = Inr h \<longleftrightarrow>
      (\<exists>inputs d. v = Some inputs \<and> digest V Hash_psd8 inputs d \<and> h = sv_display V d))"
proof -
  have single: "result_or_error (rust_ffi V K x (C_hash f (c_string input))) = Inr h \<longleftrightarrow>
      (\<exists>d. digest V f [input] d \<and> h = sv_display V d)"
    if "f \<in> snd ` set documented_hashes" for f x
    using that hash_bits_ok [OF assms(1-3)] hash_field_ok [OF assms(1-3)]
    by (auto simp: documented_hashes_def rust_ffi_def)
  have "fst (hash (with_rust V K E) algo input w) = Inr h \<longleftrightarrow>
      (\<exists>f d. map_of documented_hashes algo = Some f \<and> digest V f [input] d \<and> h = sv_display V d)"
  proof (cases "map_of documented_hashes algo")
    case (Some f)
    then have "f \<in> snd ` set documented_hashes" by (force dest: map_of_SomeD)
    with Some single [of f] show ?thesis by (simp add: hash_dispatch)
  qed (simp add: hash_dispatch)
  moreover have "fst (hash_multi (\<lambda>s. bridge (with_rust V K E) (C_hash f (c_string s))) v w) = Inr h \<longleftrightarrow>
      (\<exists>inputs d. v = Some inputs \<and> digest V (hasher f) inputs d \<and> h = sv_display V d)"
    if "f \<in> {Hash_psd2_multi, Hash_psd4_multi, Hash_psd8_multi}" for f
    using that hash_multi_ok [OF assms(1,2) _ assms(4), of f h]
    by (auto simp: hash_multi_def bridge_sel rust_ffi_def)
  note multi = this [of Hash_psd2_multi] this [of Hash_psd4_multi] this [of Hash_psd8_multi]
  ultimately show ?thesis
    using multi
    by (simp add: HashPoseidon2Multi_def HashPoseidon4Multi_def HashPoseidon8Multi_def
        hash_multi_def ffi_multi_defs)
qed

lemma toy_hash_texts: "hash_texts_ok toy_vm"
  using c_text_base64 by (auto simp: hash_texts_ok_def toy_vm_def)

theorem hashes_are_snarkvms_witness:
  "fst (HashPoseidon2Multi (with_rust toy_vm toy_crates quiet_env) (Some [sample_key, sample_key]) start_world) =
     Inr (base64_encode ''kk'') \<and>
   fst (hash (with_rust toy_vm toy_crates quiet_env) ''poseidon4'' sample_key start_world) =
     Inr (base64_encode ''k'')"
proof -
  have field: "field_of toy_vm sample_key ''k''"
    using sample_key_facts(3) by (simp add: field_of_def toy_vm_def)
  have utf: "\<forall>xs. Some [sample_key, sample_key] = Some xs \<longrightarrow> list_all valid_utf8 xs"
    using sample_key_facts(1) by (simp add: c_text_def)
  note main = hashes_are_snarkvms [OF toy_crates_ok toy_hash_texts sample_key_facts(1) utf]
  have two: "digest toy_vm Hash_psd2 [sample_key, sample_key] ''kk''"
    and one: "digest toy_vm Hash_psd4 [sample_key] ''k''"
    using field by (auto simp: digest_def toy_vm_def list_all2_Cons1 intro!: exI)
  have shown: "base64_encode d = sv_display toy_vm d" for d by (simp add: toy_vm_def)
  have psd4: "map_of documented_hashes ''poseidon4'' = Some Hash_psd4" by code_simp
  show ?thesis
  proof (rule conjI)
    show "fst (HashPoseidon2Multi (with_rust toy_vm toy_crates quiet_env) (Some [sample_key, sample_key])
        start_world) = Inr (base64_encode ''kk'')"
      by (rule iffD2 [OF main [THEN conjunct2, THEN conjunct1]]) (rule exI, rule exI, rule conjI, rule refl, rule conjI, rule two, rule shown)
    show "fst (hash (with_rust toy_vm toy_crates quiet_env) ''poseidon4'' sample_key start_world) =
        Inr (base64_encode ''k'')"
      by (rule iffD2 [OF main [THEN conjunct1]]) (rule exI, rule exI, rule conjI, rule psd4, rule conjI, rule one, rule shown)
  qed
qed

end
