(* ===== verification/Bridge_Authorize.thy ===== *)
theory Bridge_Authorize
  imports Bridge_Sample Program_Manager
begin

text \<open>
  Go and Rust together, on the way from a program name to an authorization: the sources that the
  Go resolver hands over in dependency order are loaded by the Rust loop without a failure, and what
  the call returns is snarkVM's authorization on a process that holds exactly the program and
  everything it imports. A nil slice of inputs never gets that far.
\<close>

section \<open>The network under the library\<close>

lemma with_rust_network [simp]:
  "backoff_wait (with_rust V K E) = backoff_wait E"
  "retry_after_wait (with_rust V K E) = retry_after_wait E"
  "classify_reply (with_rust V K E) = classify_reply E"
  "rate_wait (with_rust V K E) = rate_wait E"
  "get_attempt (with_rust V K E) = get_attempt E"
  "nc_get (with_rust V K E) = nc_get E"
  "query (with_rust V K E) = query E"
  "GetProgram (with_rust V K E) = GetProgram E"
proof -
  have pow: "pow2_duration (with_rust V K E) = pow2_duration E"
    by (intro ext) (simp add: pow2_duration_def)
  show b: "backoff_wait (with_rust V K E) = backoff_wait E"
    unfolding backoff_wait_def [abs_def] backoff_def pow with_rust_wait ..
  show r: "retry_after_wait (with_rust V K E) = retry_after_wait E"
    unfolding retry_after_wait_def [abs_def] with_rust_wait ..
  show c: "classify_reply (with_rust V K E) = classify_reply E"
    unfolding classify_reply_def [abs_def] r ..
  show l: "rate_wait (with_rust V K E) = rate_wait E"
    unfolding rate_wait_def [abs_def] with_rust_world ..
  show g: "get_attempt (with_rust V K E) = get_attempt E"
    unfolding get_attempt_def [abs_def] b c l with_rust_world with_rust_sel ..
  show n: "nc_get (with_rust V K E) = nc_get E"
    unfolding nc_get_def [abs_def] g ..
  show q: "query (with_rust V K E) = query E"
    unfolding query_def [abs_def] n ..
  show "GetProgram (with_rust V K E) = GetProgram E"
    unfolding GetProgram_def [abs_def] q ..
qed

lemma with_rust_fetch [simp]:
  "fetch_program_cached (with_rust V K E) = fetch_program_cached E"
  "node_serves (with_rust V K E) = node_serves E"
  unfolding fetch_program_cached_def [abs_def] node_serves_def [abs_def] with_rust_network
  by (rule refl)+

lemma with_rust_resolve [simp]:
  "resolve_imports_ordered (with_rust V K E) = resolve_imports_ordered E"
  unfolding resolve_imports_ordered_def [abs_def] collect_imports_def [abs_def] with_rust_fetch ..

section \<open>Loading programs\<close>

text \<open>
  A process starts with the built-in program; adding that one again changes nothing, and adding
  another succeeds when it is new and everything it imports is there.
\<close>

definition loader_ok ::
  "('v, 'g, 'p) snarkvm \<Rightarrow> ('p \<Rightarrow> string set) \<Rightarrow> ('g \<Rightarrow> string set) \<Rightarrow> bool" where
  "loader_ok V loaded imports =
     ((\<exists>p. sv_load V = R_Ok p \<and> loaded p = {credits_aleo}) \<and>
      (\<forall>p g. sv_program_id V g = credits_aleo \<longrightarrow> sv_add_program V p g = R_Ok p) \<and>
      (\<forall>p g. sv_program_id V g \<noteq> credits_aleo \<longrightarrow> sv_program_id V g \<notin> loaded p \<longrightarrow>
         imports g \<subseteq> loaded p \<longrightarrow>
         (\<exists>p'. sv_add_program V p g = R_Ok p' \<and> loaded p' = insert (sv_program_id V g) (loaded p))))"

text \<open>
  The deployed sources are texts that parse to the program of their name, with the imports that
  their \<open>import\<close> lines say.
\<close>

definition deployed_ok ::
  "('v, 'g, 'p) snarkvm \<Rightarrow> ('g \<Rightarrow> string set) \<Rightarrow> (string \<rightharpoonup> string) \<Rightarrow> bool" where
  "deployed_ok V imports prog =
     (\<forall>p s. prog p = Some s \<longrightarrow> c_text s \<and>
        (\<exists>g. sv_parse_program V s = R_Ok g \<and> sv_program_id V g = p \<and>
           imports g \<subseteq> insert credits_aleo (imports_of s)))"

lemma add_deployed:
  assumes "loader_ok V loaded imports" and "deployed_ok V imports prog" and "prog p = Some src"
    and "imports_of src \<subseteq> loaded process" and "credits_aleo \<in> loaded process"
    and "p = credits_aleo \<or> p \<notin> loaded process"
  obtains g process' where "sv_parse_program V src = R_Ok g" and "sv_program_id V g = p"
    and "sv_add_program V process g = R_Ok process'" and "loaded process' = insert p (loaded process)"
proof -
  obtain g where g: "sv_parse_program V src = R_Ok g" "sv_program_id V g = p"
    "imports g \<subseteq> insert credits_aleo (imports_of src)"
    using assms(2,3) unfolding deployed_ok_def by blast
  have "\<exists>process'. sv_add_program V process g = R_Ok process' \<and>
      loaded process' = insert p (loaded process)"
  proof (cases "p = credits_aleo")
    case True
    with assms(1,5) g(2) show ?thesis unfolding loader_ok_def by (metis insert_absorb)
  next
    case False
    with assms(4-6) g(3) have "imports g \<subseteq> loaded process" "p \<notin> loaded process" by auto
    with False assms(1) g(2) show ?thesis unfolding loader_ok_def by blast
  qed
  with that g(1,2) show thesis by blast
qed

text \<open>In dependency order every import is accepted.\<close>

lemma add_imports_in_order:
  assumes "loader_ok V loaded imports" and "deployed_ok V imports prog"
    and "map prog ids = map Some srcs" and "distinct ids" and "set ids \<inter> loaded process = {}"
    and "credits_aleo \<in> loaded process"
    and "\<And>i. i < length ids \<Longrightarrow> imports_of (srcs ! i) \<subseteq> loaded process \<union> set (take i ids)"
  shows "\<exists>process'. add_imports V n process srcs = R_Ok process' \<and>
    loaded process' = loaded process \<union> set ids"
  using assms(3-7)
proof (induction srcs arbitrary: ids process n)
  case Nil
  then show ?case by simp
next
  case (Cons src srcs)
  then obtain p ps where ids: "ids = p # ps" "prog p = Some src" "map prog ps = map Some srcs" by auto
  have "imports_of src \<subseteq> loaded process" using Cons.prems(5) [of 0] ids(1) by simp
  moreover have "p \<notin> loaded process" using Cons.prems(3) ids(1) by simp
  ultimately obtain g process1 where
    g: "sv_parse_program V src = R_Ok g" "sv_add_program V process g = R_Ok process1"
    and l: "loaded process1 = insert p (loaded process)"
    using add_deployed [OF assms(1,2) ids(2) _ Cons.prems(4)] by metis
  have "\<exists>process'. add_imports V (Suc n) process1 srcs = R_Ok process' \<and>
      loaded process' = loaded process1 \<union> set ps"
  proof (rule Cons.IH [OF ids(3)])
    show "distinct ps" "set ps \<inter> loaded process1 = {}" "credits_aleo \<in> loaded process1"
      using Cons.prems(2-4) ids(1) l by auto
    show "imports_of (srcs ! i) \<subseteq> loaded process1 \<union> set (take i ps)" if "i < length ps" for i
      using Cons.prems(5) [of "Suc i"] that ids(1) l by simp
  qed
  with g ids(1) l show ?case by simp
qed

section \<open>The call of \<open>aleo_authorize\<close>\<close>

text \<open>What is left of the call once all programs are loaded.\<close>

definition authorize_on ::
  "('v, 'g, 'p) snarkvm \<Rightarrow> history \<Rightarrow> 'p \<Rightarrow> 'v \<Rightarrow> string \<Rightarrow> string \<Rightarrow> 'v list \<Rightarrow> string rust_outcome" where
  "authorize_on V h process k p fn inputs =
     and_then (map_err (\<lambda>e. ''authorize: '' @ e) (sv_authorize V h process k p fn inputs))
       (\<lambda>a. map_err (\<lambda>e. ''serialize authorization: '' @ e) (sv_auth_to_json V a))"

text \<open>Errors of snarkVM have messages, and the JSON of an authorization is not taken for an error.\<close>

definition authorization_texts_ok :: "('v, 'g, 'p) snarkvm \<Rightarrow> bool" where
  "authorization_texts_ok V =
     ((\<forall>h p k n fn vs. errors_readable (sv_authorize V h p k n fn vs)) \<and>
      (\<forall>a. errors_readable (sv_auth_to_json V a)) \<and>
      (\<forall>a t. sv_auth_to_json V a = R_Ok t \<longrightarrow> c_text t \<and> plain_text t \<and> t \<noteq> []))"

lemma authorize_on_readable:
  assumes "authorization_texts_ok V"
  shows "errors_readable (authorize_on V h process k p fn inputs)"
    and "authorize_on V h process k p fn inputs = R_Ok t \<Longrightarrow> c_text t \<and> plain_text t \<and> t \<noteq> []"
proof -
  have "list_all ascii ''authorize: ''" "list_all ascii ''serialize authorization: ''"
    by (simp_all add: ascii_def)
  with assms show "errors_readable (authorize_on V h process k p fn inputs)"
    unfolding authorize_on_def authorization_texts_ok_def
    by (intro errors_readable_and_then errors_readable_map_err) blast+
  show "authorize_on V h process k p fn inputs = R_Ok t \<Longrightarrow> c_text t \<and> plain_text t \<and> t \<noteq> []"
    using assms unfolding authorize_on_def authorization_texts_ok_def
    by (elim and_then_OkE) (unfold map_err_Ok, blast)
qed

lemma program_not_reachable:
  assumes "acyclic (dep prog)" and "prog p = Some src"
  shows "p \<notin> (dep prog)\<^sup>* `` imports_of src"
proof
  assume "p \<in> (dep prog)\<^sup>* `` imports_of src"
  then obtain q where "q \<in> imports_of src" "(q, p) \<in> (dep prog)\<^sup>*" by auto
  then have "(p, p) \<in> (dep prog)\<^sup>+"
    using assms(2) by (auto simp: dep_def intro: rtrancl_into_trancl2)
  with assms(1) show False by (simp add: acyclic_def)
qed

lemma credits_not_imported:
  "credits_aleo \<notin> (dep prog)\<^sup>* `` imports_of src"
proof
  assume "credits_aleo \<in> (dep prog)\<^sup>* `` imports_of src"
  then obtain q where "q \<in> imports_of src" "(q, credits_aleo) \<in> (dep prog)\<^sup>*" by auto
  then show False
    by (auto simp: imports_of_def imports_in_def dep_def elim: rtranclE)
qed

lemma reachable_from:
  assumes "prog p = Some src"
  shows "(dep prog)\<^sup>* `` {p} = insert p ((dep prog)\<^sup>* `` imports_of src)"
proof -
  have "(dep prog) `` {p} = imports_of src"
    using assms by (auto simp: dep_def)
  then show ?thesis
    by (auto simp: elim: converse_rtranclE intro: converse_rtrancl_into_rtrancl)
qed

text \<open>A call with resolved imports never fails on a program: it ends as \<open>authorize_on\<close> does.\<close>

lemma authorize_loads:
  assumes "crates_ok K" and "loader_ok V loaded imports" and "deployed_ok V imports prog"
    and "acyclic (dep prog)" and "prog p = Some source"
    and "map prog ids = map Some srcs" and "distinct ids" and "set ids = (dep prog)\<^sup>* `` imports_of source"
    and "\<forall>i < length ids. imports_of (srcs ! i) \<subseteq> set (take i ids)"
    and "c_text key" and "c_text fn" and "list_all valid_utf8 inputs"
    and "sv_parse V PrivateKeyT key = R_Ok k" and "parse_inputs V 0 inputs = R_Ok vals"
  shows "\<exists>process. loaded process = insert credits_aleo ((dep prog)\<^sup>* `` {p}) \<and>
    (\<forall>h. rust_ffi V K h (C_authorize (c_string key) (c_string source) (c_string fn)
        (marshal_strings (Some inputs)) (marshal_strings (Some srcs))) =
      Some (ffi_catch (cr_string K) ''panic during authorization''
        (authorize_on V h process k p fn vals)))"
proof -
  obtain process0 where load: "sv_load V = R_Ok process0" "loaded process0 = {credits_aleo}"
    using assms(2) unfolding loader_ok_def by blast
  have "set ids \<inter> loaded process0 = {}"
    using credits_not_imported [of prog source] assms(8) load(2) by simp
  with add_imports_in_order [OF assms(2,3,6,7), of process0 0] assms(9) load(2) obtain process1 where
    added: "add_imports V 0 process0 srcs = R_Ok process1"
      "loaded process1 = insert credits_aleo (set ids)" by auto
  have "p = credits_aleo \<or> p \<notin> loaded process1"
    using program_not_reachable [OF assms(4,5)] assms(8) added(2) by auto
  moreover have "imports_of source \<subseteq> loaded process1"
    using assms(8) added(2) by auto
  ultimately obtain g process where
    g: "sv_parse_program V source = R_Ok g" "sv_program_id V g = p"
      "sv_add_program V process1 g = R_Ok process"
    and l: "loaded process = insert p (loaded process1)"
    using add_deployed [OF assms(2,3,5)] added(2) by (metis insertI1)
  have src: "c_text source" and srcs: "list_all valid_utf8 srcs"
  proof -
    show "c_text source" using assms(3,5) unfolding deployed_ok_def by blast
    have "valid_utf8 s" if "s \<in> set srcs" for s
    proof -
      have "Some s \<in> set (map prog ids)" using that assms(6) by simp
      then obtain q where "prog q = Some s" by auto
      then show ?thesis using assms(3) unfolding deployed_ok_def c_text_def by blast
    qed
    then show "list_all valid_utf8 srcs" by (simp add: list_all_iff)
  qed
  have "rust_ffi V K h (C_authorize (c_string key) (c_string source) (c_string fn)
        (marshal_strings (Some inputs)) (marshal_strings (Some srcs))) =
      Some (ffi_catch (cr_string K) ''panic during authorization''
        (authorize_on V h process k p fn vals))" for h
    using assms(10,11,13,14) src load(1) added(1) g crates_okD(2) [OF assms(1)] assms(12) srcs
    by (simp add: rust_ffi_def aleo_authorize_def authorize_on_def read_inputs_def
        get_or_init_process_def)
  moreover have "loaded process = insert credits_aleo ((dep prog)\<^sup>* `` {p})"
    using l added(2) assms(8) reachable_from [of prog p source, OF assms(5)] by auto
  ultimately show ?thesis by blast
qed

section \<open>Properties\<close>

text \<open>
  C3: The authorization a program manager gets is snarkVM's, on the deployed code. For a node that
  serves the deployed programs (with acyclic imports) and a snarkVM that accepts a program once its
  imports are loaded, no call fails on a missing, duplicate or unparsable import: whatever is
  returned is the outcome of snarkVM's \<open>authorize\<close> for the named program and function, the parsed key
  and inputs, on a process that holds exactly the built-in program, the program and everything it
  imports - the serialised authorization, or snarkVM's own error, or the report of its panic.
\<close>

theorem authorization_is_snarkvms:
  assumes "crates_ok K" and "authorization_texts_ok V" and "loader_ok V loaded imps"
    and "deployed_ok V imps prog" and "acyclic (dep prog)"
    and "node_serves E nc c prog" and "cache_ok prog cache"
    and "fetch_program_cached E nc c (po_program_name opts) (cache, w) = (Inr source, st1)"
    and "resolve_imports_ordered E nc c source st1 = Some (Inr srcs, cache2, w2)"
    and "c_text (po_private_key opts)" and "sv_parse V PrivateKeyT (po_private_key opts) = R_Ok k"
    and "po_private_key opts \<noteq> []" and "c_text (po_function_name opts)"
    and "po_inputs opts = Some inputs" and "list_all valid_utf8 inputs"
    and "parse_inputs V 0 inputs = R_Ok vals"
  shows "\<exists>process w3. loaded process = insert credits_aleo ((dep prog)\<^sup>* `` {po_program_name opts}) \<and>
    BuildAuthorizationWithCache (with_rust V K E) nc c opts (cache, w) =
      Some (map_sum (Wrapf (''authorize '' @ po_program_name opts @ ''/'' @ po_function_name opts))
        (\<lambda>t. \<lparr>auth_raw = Some t\<rparr>)
        (go_result ''panic during authorization''
          (authorize_on V (hist w2) process k (po_program_name opts) (po_function_name opts) vals)),
        cache2, w3)"
proof -
  let ?p = "po_program_name opts" and ?fn = "po_function_name opts"
  obtain cache1 w1 where st1: "st1 = (cache1, w1)" by (cases st1)
  have prog: "prog ?p = Some source" and ok1: "cache_ok prog cache1"
    using cached.fetch_sound [of E nc c prog "(cache, w)" ?p source st1]
      cached.fetch_inv [of E nc c prog "(cache, w)" ?p _ st1] assms(6-8) st1 by auto
  from resolved_order [OF assms(6) ok1 assms(5) assms(9) [unfolded st1]] obtain ids where
    ids: "distinct ids" "map prog ids = map Some srcs" "set ids = (dep prog)\<^sup>* `` imports_of source"
      "\<forall>i < length ids. imports_of (srcs ! i) \<subseteq> set (take i ids)" by blast
  from authorize_loads [OF assms(1,3-5) prog ids(2,1,3,4) assms(10,13,15,11,16)] obtain process where
    l: "loaded process = insert credits_aleo ((dep prog)\<^sup>* `` {?p})"
    and call: "\<And>h. rust_ffi V K h (C_authorize (c_string (po_private_key opts)) (c_string source)
        (c_string ?fn) (marshal_strings (Some inputs)) (marshal_strings (Some srcs))) =
      Some (ffi_catch (cr_string K) ''panic during authorization''
        (authorize_on V h process k ?p ?fn vals))" by blast
  have "message ''panic during authorization''"
    by (rule message_ascii) (simp_all add: ascii_def)
  then have "result_or_error (Some (ffi_catch (cr_string K) ''panic during authorization''
      (authorize_on V h process k ?p ?fn vals))) =
    go_result ''panic during authorization'' (authorize_on V h process k ?p ?fn vals)" for h
    using authorize_on_readable [OF assms(2)] by (intro catch_result [OF crates_okD(1) [OF assms(1)]]) auto
  then show ?thesis
    using l assms(8,9,12,14) call
    by (intro exI [of _ process])
      (simp add: BuildAuthorizationWithCache_def authorize_def then_io_def ffi_authorize_def bridge_eq
        split: sum.split)
qed

text \<open>An outcome that Go reports as an error.\<close>

definition fails :: "'a rust_outcome \<Rightarrow> bool" where
  "fails m \<longleftrightarrow> errors_readable m \<and> (\<forall>x. m \<noteq> R_Ok x)"

lemma fails_Err [simp]: "fails (R_Err e) = message e"
  by (simp add: fails_def)

lemma fails_and_then: "errors_readable m \<Longrightarrow> (\<And>x. fails (k x)) \<Longrightarrow> fails (and_then m k)"
  by (cases m) (simp_all add: fails_def)

lemma fails_catch:
  assumes "serde_ok ser" and "message pm" and "fails out"
  shows "\<not> is_ok (result_or_error (Some (ffi_catch ser pm out)))"
proof
  assume "is_ok (result_or_error (Some (ffi_catch ser pm out)))"
  then obtain s where "result_or_error (Some (ffi_catch ser pm out)) = Inr s"
    by (cases "result_or_error (Some (ffi_catch ser pm out))") simp_all
  with assms obtain s' where "out = R_Ok s'"
    unfolding fails_def by (blast elim: catch_Inr)
  with assms(3) show False by (simp add: fails_def)
qed

lemma null_inputs_fail:
  assumes "crates_ok K" and "\<forall>s. errors_readable (sv_parse V PrivateKeyT s)"
  shows "\<not> is_ok (result_or_error (rust_ffi V K h (C_authorize sk src fn ''null'' imps)))"
proof -
  obtain e where e: "valid_utf8 e" "cr_parse_strings K ''null'' = R_Err e"
    using crates_okD(3) [OF assms(1)] by blast
  have msgs: "message ''panic during authorization''" "message ''null private key''"
      "message ''null program source''" "message ''null function name''" "message ''null inputs json''"
      "message ''null imports json''"
    by (rule message_ascii; simp add: ascii_def)+
  have "valid_utf8 ''parse inputs JSON: ''" by (rule valid_utf8_ascii) (simp add: ascii_def)
  with e have null: "read_inputs V K ''null'' = R_Err (''parse inputs JSON: '' @ e)"
    "message (''parse inputs JSON: '' @ e)"
    using valid_utf8_append [of "''parse inputs JSON: ''" e] by (simp_all add: read_inputs_def message_def)
  have "read_str (Some ''null'') what = R_Ok ''null''" for what
    using read_c_text(2) [OF c_text_marshal [of None]] by (simp add: marshal_strings_def)
  then show ?thesis
    unfolding rust_ffi_def aleo_authorize_def
    using msgs null assms(2)
    by (simp only: ffi_call.case, intro fails_catch crates_okD(1) [OF assms(1)])
      (simp_all add: fails_and_then)
qed

text \<open>
  C29: \<open>ClaimUnbonded\<close> cannot succeed. It passes nil inputs, which Go marshals as \<open>null\<close>; the Rust side
  reads the inputs as a list of strings, and \<open>serde_json\<close> refuses \<open>null\<close> for a list, so the call ends
  with an error before any program is loaded: without an explicit \<open>WithInputs\<close> option no transaction id
  is ever returned, whatever the node, the service and snarkVM do.
\<close>

theorem claim_unbonded_fails:
  assumes "crates_ok K" and "\<forall>s. errors_readable (sv_parse V PrivateKeyT s)"
  shows "ClaimUnbonded (with_rust V K E) B pm c [] s \<noteq> Some ((Inr txid, pm'), s')"
proof
  assume "ClaimUnbonded (with_rust V K E) B pm c [] s = Some ((Inr txid, pm'), s')"
  from claim_unbonded_null [OF this] show False
    using null_inputs_fail [OF assms] by simp
qed

section \<open>The two programs of the sample node\<close>

lemma toy_loader_ok: "loader_ok toy_vm set imports_of"
proof -
  have "list_all (\<lambda>l. case import_of l of None \<Rightarrow> True | Some q \<Rightarrow> q = credits_aleo \<or> q \<in> set p)
      (source_lines g) \<longleftrightarrow> imports_of g \<subseteq> set p" for p g
    by (auto simp: list_all_iff imports_of_def imports_in_def split: option.splits)
  then show ?thesis
    by (auto simp: loader_ok_def toy_vm_def toy_add_def)
qed

lemma toy_deployed_ok: "deployed_ok toy_vm imports_of two_programs"
proof -
  have "a_source \<noteq> b_source" "list_all ascii a_source" "list_all ascii b_source"
      "CHR 0x00 \<notin> set a_source" "CHR 0x00 \<notin> set b_source"
    by code_simp+
  then show ?thesis
    by (auto simp: deployed_ok_def two_programs_def toy_vm_def toy_program_id_def ascii_c_text
        split: if_splits)
qed

lemma toy_authorization_texts_ok: "authorization_texts_ok toy_vm"
  using quoted_text toy_messages(3) by (simp add: authorization_texts_ok_def toy_vm_def)

definition a_options :: proving_request_options where
  "a_options = \<lparr>po_program_name = ''a.aleo'', po_function_name = ''main'', po_inputs = Some [],
     po_broadcast = True, po_dps_privacy = False, po_private_key = sample_key, po_prover_url = []\<rparr>"

lemma a_resolved:
  "\<exists>w1 w2. fetch_program_cached import_env sample_client background ''a.aleo'' (None, start_world) =
      (Inr a_source, None, w1) \<and>
    resolve_imports_ordered import_env sample_client background a_source (None, w1) =
      Some (Inr [b_source], None, w2)"
proof -
  obtain w1 where a: "GetProgram import_env sample_client background ''a.aleo'' start_world = (Inr a_source, w1)"
    using import_env_program [of background "''a.aleo''" start_world] by (auto simp: two_programs_def)
  obtain w2 where b: "GetProgram import_env sample_client background ''b.aleo'' w1 = (Inr b_source, w2)"
    using import_env_program [of background "''b.aleo''" w1] by (auto simp: two_programs_def)
  have fb: "fetch_program_cached import_env sample_client background ''b.aleo'' (None, w1) =
      (Inr b_source, None, w2)"
    using b by (simp add: fetch_program_cached_def)
  have "resolve_imports_ordered import_env sample_client background a_source (None, w1) =
      Some (Inr [b_source], None, w2)"
    using program_imports fb
    by (simp add: resolve_imports_ordered_def collect_imports_def collect_import collect_skip
        del: not_None_eq)
  with a show ?thesis by (simp add: fetch_program_cached_def)
qed

theorem authorization_is_snarkvms_witness:
  "\<exists>process st. set process = {credits_aleo, ''a.aleo'', ''b.aleo''} \<and>
    BuildAuthorizationWithCache (with_rust toy_vm toy_crates import_env) sample_client background
      a_options (None, start_world) =
    Some (Inr \<lparr>auth_raw = Some (quote (base64_encode ''a.aleo/main''))\<rparr>, st)"
proof -
  obtain w1 w2 where
    f: "fetch_program_cached import_env sample_client background (po_program_name a_options)
      (None, start_world) = (Inr a_source, None, w1)" and
    r: "resolve_imports_ordered import_env sample_client background a_source (None, w1) =
      Some (Inr [b_source], None, w2)"
    using a_resolved by (auto simp: a_options_def)
  have facts: "cache_ok two_programs None" "c_text (po_private_key a_options)"
    "sv_parse toy_vm PrivateKeyT (po_private_key a_options) = R_Ok ''k''" "po_private_key a_options \<noteq> []"
    "c_text (po_function_name a_options)" "po_inputs a_options = Some []" "list_all valid_utf8 []"
    "parse_inputs toy_vm 0 [] = R_Ok []"
    by (auto simp: cache_ok_def a_options_def sample_key_facts toy_vm_def intro!: ascii_c_text)
      (simp_all add: ascii_def)
  obtain process w3 where
    l: "set process = insert credits_aleo ((dep two_programs)\<^sup>* `` {''a.aleo''})"
    and b: "BuildAuthorizationWithCache (with_rust toy_vm toy_crates import_env) sample_client background
      a_options (None, start_world) =
      Some (map_sum (Wrapf (''authorize '' @ po_program_name a_options @ ''/'' @ po_function_name a_options))
        (\<lambda>t. \<lparr>auth_raw = Some t\<rparr>)
        (go_result ''panic during authorization''
          (authorize_on toy_vm (hist w2) process ''k'' (po_program_name a_options)
            (po_function_name a_options) [])), None, w3)"
    using authorization_is_snarkvms [OF toy_crates_ok toy_authorization_texts_ok toy_loader_ok
      toy_deployed_ok two_programs_acyclic two_programs_served facts(1) f r facts(2-8)]
    by (auto simp: a_options_def)
  have "(dep two_programs)\<^sup>* `` {''a.aleo''} = {''a.aleo'', ''b.aleo''}"
  proof -
    have "imports_of a_source = {''b.aleo''}" "imports_of b_source = {}"
      using program_imports by (simp_all add: imports_of_def)
    moreover have "''b.aleo'' \<noteq> ''a.aleo''" by simp
    ultimately have d: "(x, y) \<in> dep two_programs \<longleftrightarrow> x = ''a.aleo'' \<and> y = ''b.aleo''" for x y
      unfolding dep_def two_programs_def by simp
    have "y \<in> {''a.aleo'', ''b.aleo''}" if "(''a.aleo'', y) \<in> (dep two_programs)\<^sup>*" for y
      using that by (induction rule: rtrancl_induct) (simp_all add: d)
    moreover have "(''a.aleo'', ''b.aleo'') \<in> (dep two_programs)\<^sup>*" using d by blast
    ultimately show ?thesis by blast
  qed
  with l b show ?thesis
    by (intro exI [of _ process])
      (simp add: authorize_on_def toy_vm_def go_result_def a_options_def del: base64_encode.simps)
qed

theorem claim_unbonded_fails_witness:
  "ClaimUnbonded (with_rust toy_vm toy_crates exec_env) toy_box ready_manager background [] start_state \<noteq>
     Some ((Inr ''at1xyz'', ready_manager), start_state)"
  by (rule claim_unbonded_fails [OF toy_crates_ok]) (simp add: toy_vm_def)

end
