(* ===== verification/Bridge_Submit.thy ===== *)
theory Bridge_Submit
  imports Bridge_Authorize
begin

text \<open>
  Go and Rust together, on the way from an authorization to the proving service: the binary format
  of a proving request that the Rust side writes is read back by the format's own description, and
  in the encrypted flow the holder of the service's key reads exactly the authorization that snarkVM
  made.
\<close>

section \<open>The binary format of a proving request\<close>

text \<open>
  The reader of \<open>authorization || has_fee || [fee_authorization] || broadcast\<close>, over a reader of one
  authorization. Flags are 0 or 1, and nothing may follow.
\<close>

definition read_flag :: "bytes \<Rightarrow> (bool \<times> bytes) option" where
  "read_flag b =
     (case b of
        [] \<Rightarrow> None
      | c # r \<Rightarrow>
          if c = byte_char 0 then Some (False, r) else if c = byte_char 1 then Some (True, r) else None)"

definition read_end :: "'v \<Rightarrow> 'v option \<Rightarrow> bytes \<Rightarrow> ('v \<times> 'v option \<times> bool) option" where
  "read_end a fee b =
     (case read_flag b of Some (broadcast, []) \<Rightarrow> Some (a, fee, broadcast) | _ \<Rightarrow> None)"

definition read_request ::
  "(bytes \<Rightarrow> ('v \<times> bytes) option) \<Rightarrow> bytes \<Rightarrow> ('v \<times> 'v option \<times> bool) option" where
  "read_request read_auth b =
     (case read_auth b of
        None \<Rightarrow> None
      | Some (a, r) \<Rightarrow>
          (case read_flag r of
             None \<Rightarrow> None
           | Some (False, r') \<Rightarrow> read_end a None r'
           | Some (True, r') \<Rightarrow>
               (case read_auth r' of None \<Rightarrow> None | Some (fee, r'') \<Rightarrow> read_end a (Some fee) r'')))"

text \<open>
  snarkVM's two encodings of an authorization can be read: the JSON parses back, and \<open>read_auth\<close> is a
  reader of the bytes that \<open>write_le\<close> writes, which are self-delimiting.
\<close>

definition wire_ok :: "('v, 'g, 'p) snarkvm \<Rightarrow> (bytes \<Rightarrow> ('v \<times> bytes) option) \<Rightarrow> bool" where
  "wire_ok V read_auth =
     ((\<forall>a t. sv_auth_to_json V a = R_Ok t \<longrightarrow> sv_auth_from_json V t = R_Ok a) \<and>
      (\<forall>t. errors_readable (sv_auth_from_json V t)) \<and>
      (\<forall>a. errors_readable (sv_auth_write_le V a)) \<and>
      (\<forall>a b r. sv_auth_write_le V a = R_Ok b \<longrightarrow> read_auth (b @ r) = Some (a, r)))"

lemma read_flag_bool [simp]: "read_flag (byte_char (of_bool b) # r) = Some (b, r)"
  by (simp add: read_flag_def)

lemma read_end_bool [simp]: "read_end a fee [byte_char (of_bool b)] = Some (a, fee, b)"
  by (simp add: read_end_def)

section \<open>Writing and reading\<close>

lemma request_bytes:
  assumes "crates_ok K" and "wire_ok V read_auth" and "c_text t" and "sv_auth_from_json V t = R_Ok a"
    and "case fee of None \<Rightarrow> f = [] | Some fa \<Rightarrow> c_text f \<and> f \<noteq> [] \<and> sv_auth_from_json V f = R_Ok fa"
    and "fst (ffi_proving_request_to_bytes (with_rust V K E) t f b w) = Inr b64"
  shows "\<exists>bytes. base64_decode b64 = Some bytes \<and> read_request read_auth bytes = Some (a, fee, b)"
proof -
  let ?flag = "case fee of
      Some fa \<Rightarrow> and_then (map_err (\<lambda>e. ''serialize fee authorization bytes: '' @ e)
        (sv_auth_write_le V fa)) (\<lambda>fee_bytes. R_Ok (byte_char 1 # fee_bytes))
    | None \<Rightarrow> R_Ok [byte_char 0]"
  let ?out = "and_then (map_err (\<lambda>e. ''serialize authorization bytes: '' @ e)
      (sv_auth_write_le V a)) (\<lambda>auth_bytes. and_then ?flag (\<lambda>flag_and_fee.
        R_Ok (cr_base64 K (auth_bytes @ flag_and_fee @ [byte_char (of_bool b)]))))"
  have pm: "message ''panic during proving request serialization''"
    by (rule message_ascii) (simp_all add: ascii_def)
  have pre: "list_all ascii ''serialize authorization bytes: ''"
      "list_all ascii ''serialize fee authorization bytes: ''"
    by (simp_all add: ascii_def)
  have err: "errors_readable (sv_auth_write_le V x)" for x using assms(2) by (simp add: wire_ok_def)
  have auth: "errors_readable (map_err (\<lambda>e. ''serialize authorization bytes: '' @ e) (sv_auth_write_le V x))"
    and fee_auth: "errors_readable (map_err (\<lambda>e. ''serialize fee authorization bytes: '' @ e)
      (sv_auth_write_le V x))" for x
    by (rule errors_readable_map_err [OF err pre(1)], rule errors_readable_map_err [OF err pre(2)])
  have "errors_readable ?flag"
  proof (cases fee)
    case (Some fa)
    have "errors_readable (and_then (map_err (\<lambda>e. ''serialize fee authorization bytes: '' @ e)
        (sv_auth_write_le V fa)) (\<lambda>fee_bytes. R_Ok (byte_char 1 # fee_bytes)))"
      by (intro errors_readable_and_then fee_auth errors_readable_simps)
    with Some show ?thesis by (simp only: option.case)
  qed simp
  then have "errors_readable ?out"
    by (intro errors_readable_and_then auth errors_readable_simps)
  moreover have "result_or_error (Some (ffi_catch (cr_string K)
      ''panic during proving request serialization'' ?out)) = Inr b64"
    using assms(3-6)
    by (cases fee) (simp_all add: ffi_proving_request_to_bytes_def bridge_eq rust_ffi_def
        aleo_proving_request_to_bytes_def read_c_str_def c_text_def c_string_id)
  ultimately obtain s where s: "?out = R_Ok s" "plain_text s \<Longrightarrow> b64 = s"
    using catch_Inr [OF crates_okD(1) [OF assms(1)] pm] by metis
  from s(1) obtain ab fb where ab: "sv_auth_write_le V a = R_Ok ab" "?flag = R_Ok fb"
    "s = base64_encode (ab @ fb @ [byte_char (of_bool b)])"
    by (elim and_then_OkE) (simp add: crates_okD(5) [OF assms(1)])
  have read: "read_auth (b @ r) = Some (x, r)" if "sv_auth_write_le V x = R_Ok b" for x b r
    using that assms(2) by (simp add: wire_ok_def)
  have "read_request read_auth (ab @ fb @ [byte_char (of_bool b)]) = Some (a, fee, b)"
  proof (cases fee)
    case None
    with ab(2) have "fb = [byte_char 0]" by simp
    with None read [OF ab(1)] show ?thesis by (simp add: read_request_def read_flag_def)
  next
    case (Some fa)
    with ab(2) obtain fbytes where "fb = byte_char 1 # fbytes" "sv_auth_write_le V fa = R_Ok fbytes"
      by (auto elim!: and_then_OkE)
    with Some read [OF ab(1)] read [of fa fbytes] show ?thesis
      by (simp add: read_request_def read_flag_def)
  qed
  with s(2) ab(3) show ?thesis by simp
qed

section \<open>Properties\<close>

text \<open>
  C15: The wire format round trips between Go, Rust and the prover. When \<open>ProvingRequestToBytes\<close> of
  the Go side succeeds on the JSON of an authorization, with or without the JSON of a fee
  authorization, its text decodes as base64, and reading the bytes by the documented format gives
  back snarkVM's two authorizations and the broadcast flag, with nothing left over.
\<close>

theorem proving_request_wire_round_trip:
  assumes "crates_ok K" and "wire_ok V read_auth" and "c_text t" and "sv_auth_to_json V a = R_Ok t"
    and "case fee of None \<Rightarrow> f = []
      | Some fa \<Rightarrow> c_text f \<and> f \<noteq> [] \<and> sv_auth_to_json V fa = R_Ok f"
    and "fst (ffi_proving_request_to_bytes (with_rust V K E) t f b w) = Inr b64"
  shows "\<exists>bytes. base64_decode b64 = Some bytes \<and> read_request read_auth bytes = Some (a, fee, b)"
proof -
  have "sv_auth_from_json V t = R_Ok a" if "sv_auth_to_json V a = R_Ok t" for a t
    using assms(2) that by (simp add: wire_ok_def)
  with request_bytes [OF assms(1-3) _ _ assms(6), where a = a and fee = fee] assms(4,5) show ?thesis
    by (cases fee) auto
qed

text \<open>
  C11: In the encrypted flow the prover reads what snarkVM authorized. When the submission of a
  request, whose authorization is the JSON \<open>t\<close> of snarkVM's authorization \<open>a\<close> and which has no fee, gets
  an answer, the POST that was answered carries the key id and a ciphertext, and whoever holds the
  secret key of the public key that the service gave opens it to bytes that read, by the documented
  format, as exactly \<open>a\<close>, no fee, and the caller's broadcast flag.
\<close>

theorem sealed_request_decodes:
  assumes "crates_ok K" and "wire_ok V read_auth" and "box_ok B"
    and "c_text t" and "sv_auth_to_json V a = R_Ok t"
    and "submit_encrypted (with_rust V K E) B pc c jwt base
      \<lparr>pr_authorization = Some t, pr_fee_authorization = None, pr_broadcast = b\<rparr> w = (Inr r, w')"
  shows "\<exists>pk ct out. fst (get_public_key (with_rust V K E) pc c jwt base w) = Inr pk \<and>
    hd (hist w') = Ev_Http (encrypted_prove_request pc jwt base
      (marshal_encrypted_request \<lparr>enc_key_id = pk_key_id pk, enc_ciphertext = ct\<rparr>)) out \<and>
    (\<forall>rsk. hex_decode (pk_public_key pk) = Some (box_public B rsk) \<longrightarrow>
      (\<exists>sealed bytes. base64_decode ct = Some sealed \<and>
         sealed_box_decrypt B (box_public B rsk) rsk sealed = Inr bytes \<and>
         read_request read_auth bytes = Some (a, None, b)))"
proof -
  let ?E = "with_rust V K E"
  obtain pk v b64 u bytes ct x where pk: "get_public_key ?E pc c jwt base w = (Inr pk, v)"
    and b64: "ffi_proving_request_to_bytes ?E t [] b v = (Inr b64, u)"
    and dec: "base64_decode b64 = Some bytes"
    and ct: "encrypt_proving_request ?E B (pk_public_key pk) bytes u = (Inr ct, x)"
    and post: "do_prove_request ?E (encrypted_prove_request pc jwt base
      (marshal_encrypted_request \<lparr>enc_key_id = pk_key_id pk, enc_ciphertext = ct\<rparr>)) x = (Inr r, w')"
    using assms(6) by (rule submit_encryptedE) (simp add: raw_string_def)
  have "sv_auth_from_json V t = R_Ok a" using assms(2,5) by (simp add: wire_ok_def)
  with request_bytes [OF assms(1,2,4), where a = a and fee = None and f = "[]" and E = E and b = b and w = v and ?b64.0 = b64] b64 dec
  have read: "read_request read_auth bytes = Some (a, None, b)" by simp
  obtain rs where "hist w' = Ev_Http (encrypted_prove_request pc jwt base
      (marshal_encrypted_request \<lparr>enc_key_id = pk_key_id pk, enc_ciphertext = ct\<rparr>)) (Reply rs) # hist x"
    using post by (rule do_prove_Inr)
  moreover have "\<exists>sealed bytes. base64_decode ct = Some sealed \<and>
      sealed_box_decrypt B (box_public B rsk) rsk sealed = Inr bytes \<and>
      read_request read_auth bytes = Some (a, None, b)"
    if "hex_decode (pk_public_key pk) = Some (box_public B rsk)" for rsk
    using encrypt_proving_request_opens [OF assms(3) that ct] read by blast
  ultimately show ?thesis
    using pk by (metis fst_conv list.sel(1))
qed

section \<open>The sample instance\<close>

lemma toy_wire_ok: "wire_ok toy_vm toy_read_auth"
proof -
  have "toy_read_auth (base64_encode a @ CHR 0x00 # r) = Some (a, r)" for a r
  proof -
    have "CHR 0x00 \<notin> set (base64_encode a)" using c_text_base64 by (simp add: c_text_def)
    then have "\<And>c. c \<in> set (base64_encode a) \<Longrightarrow> c \<noteq> CHR 0x00" by metis
    then show ?thesis by (simp add: toy_read_auth_def)
  qed
  moreover have "unmarshal_string (quote (base64_encode a)) = Some (base64_encode a)" for a
    using c_text_base64 [of a] by (simp add: unmarshal_quote to_valid_utf8_id c_text_def)
  ultimately show ?thesis
    using toy_messages(2) by (simp add: wire_ok_def toy_vm_def split: option.split)
qed

definition sample_auth :: string where "sample_auth = quote (base64_encode ''a.aleo/main'')"

lemma sample_auth_facts: "c_text sample_auth" "sample_auth \<noteq> []"
    "sv_auth_to_json toy_vm ''a.aleo/main'' = R_Ok sample_auth"
  using quoted_text by (simp_all add: sample_auth_def toy_vm_def del: base64_encode.simps)

definition sample_request_text :: string where
  "sample_request_text = base64_encode
     (base64_encode ''a.aleo/main'' @ [CHR 0x00, byte_char 0, byte_char 1])"

lemma sample_bytes_call:
  "fst (ffi_proving_request_to_bytes (with_rust toy_vm toy_crates E) sample_auth [] True w) =
     Inr sample_request_text"
proof -
  have "sv_auth_from_json toy_vm sample_auth = R_Ok ''a.aleo/main''"
    using toy_wire_ok sample_auth_facts(3) by (simp add: wire_ok_def)
  then have "aleo_proving_request_to_bytes toy_vm toy_crates (Some (c_string sample_auth)) None True =
      ffi_catch quote ''panic during proving request serialization'' (R_Ok sample_request_text)"
    using sample_auth_facts(1)
    by (simp add: aleo_proving_request_to_bytes_def read_c_str_def sample_request_text_def
        del: base64_encode.simps)
      (simp add: toy_vm_def toy_crates_def del: base64_encode.simps)
  then show ?thesis
    using catch_plain [OF plain_text_base64]
    by (simp add: ffi_proving_request_to_bytes_def bridge_eq rust_ffi_def sample_request_text_def
        del: base64_encode.simps)
qed

theorem proving_request_wire_round_trip_witness:
  "\<exists>bytes. base64_decode sample_request_text = Some bytes \<and>
     read_request toy_read_auth bytes = Some (''a.aleo/main'', None, True)"
  using proving_request_wire_round_trip [OF toy_crates_ok toy_wire_ok sample_auth_facts(1,3),
      where fee = None and f = "[]" and E = quiet_env and b = True and w = start_world]
    sample_bytes_call by simp

theorem sealed_request_decodes_witness:
  "\<exists>r w' ct out. submit_encrypted (with_rust toy_vm toy_crates sealed_env) toy_box logged_in background
      ''tok'' ''https://dps''
      \<lparr>pr_authorization = Some sample_auth, pr_fee_authorization = None, pr_broadcast = True\<rparr>
      start_world = (Inr r, w') \<and>
    hd (hist w') = Ev_Http (encrypted_prove_request logged_in ''tok'' ''https://dps''
      (marshal_encrypted_request \<lparr>enc_key_id = ''k1'', enc_ciphertext = ct\<rparr>)) out \<and>
    (\<exists>sealed bytes. base64_decode ct = Some sealed \<and>
      sealed_box_decrypt toy_box (replicate 32 (CHR ''a'')) (replicate 32 (CHR ''a'')) sealed = Inr bytes \<and>
      read_request toy_read_auth bytes = Some (''a.aleo/main'', None, True))"
proof -
  let ?E = "with_rust toy_vm toy_crates sealed_env"
  let ?pk = "\<lparr>pk_key_id = ''k1'', pk_public_key = sample_hex\<rparr>"
  let ?pr = "\<lparr>pr_authorization = Some sample_auth, pr_fee_authorization = None, pr_broadcast = True\<rparr>"
  have dec: "unmarshal dec_pubkey sample_pubkey_json = Some ?pk" by code_simp
  have hx: "hex_decode sample_hex = Some (replicate 32 (CHR ''a''))" by code_simp
  have pub: "box_public toy_box (replicate 32 (CHR ''a'')) = replicate 32 (CHR ''a'')"
    by (simp add: toy_box_def)
  obtain v where key: "get_public_key ?E logged_in background ''tok'' ''https://dps'' start_world = (Inr ?pk, v)"
    by (simp add: get_public_key_def Let_def sealed_env_def quiet_env_def http_do_def pubkey_request_def dec)
  obtain bytes where bytes: "base64_decode sample_request_text = Some bytes"
    by (simp add: sample_request_text_def del: base64_encode.simps)
  have enc: "encrypt_proving_request ?E toy_box sample_hex bytes v =
      (Inr (base64_encode (replicate 32 (CHR ''r'') @ replicate 16 (CHR ''t'') @ bytes)),
       log_event (Ev_Rand 32) v)" for v
    using hx by (simp add: encrypt_proving_request_def sealed_box_encrypt_def generate_key_eq
        sealed_env_def quiet_env_def toy_box_def)
  have sub: "\<exists>r. fst (submit_sealed ?E logged_in ''tok'' ''https://dps'' k ct v) = Inr r" for k ct v
    by (simp add: submit_sealed_def Let_def do_prove_request_def sealed_env_def quiet_env_def
        http_do_def encrypted_prove_request_def)
  obtain u where ser: "ffi_proving_request_to_bytes ?E sample_auth [] True v = (Inr sample_request_text, u)"
    using sample_bytes_call [of sealed_env v] by (metis eq_fst_iff)
  obtain r w' where s: "submit_encrypted ?E toy_box logged_in background ''tok'' ''https://dps'' ?pr
      start_world = (Inr r, w')"
    using sub unfolding submit_encrypted_def
    by (simp add: then_io_def key raw_string_def ser bytes enc) (metis eq_fst_iff)
  from sealed_request_decodes [OF toy_crates_ok toy_wire_ok toy_box_ok sample_auth_facts(1,3) s]
  obtain pk ct out where o: "fst (get_public_key ?E logged_in background ''tok'' ''https://dps'' start_world) = Inr pk"
    "hd (hist w') = Ev_Http (encrypted_prove_request logged_in ''tok'' ''https://dps''
      (marshal_encrypted_request \<lparr>enc_key_id = pk_key_id pk, enc_ciphertext = ct\<rparr>)) out"
    "\<And>rsk. hex_decode (pk_public_key pk) = Some (box_public toy_box rsk) \<Longrightarrow>
      \<exists>sealed bytes. base64_decode ct = Some sealed \<and>
        sealed_box_decrypt toy_box (box_public toy_box rsk) rsk sealed = Inr bytes \<and>
        read_request toy_read_auth bytes = Some (''a.aleo/main'', None, True)"
    by blast
  from o(1) have pk: "pk = ?pk" unfolding key fst_conv sum.inject by (rule sym)
  have opened: "\<exists>sealed bytes. base64_decode ct = Some sealed \<and>
      sealed_box_decrypt toy_box (replicate 32 (CHR ''a'')) (replicate 32 (CHR ''a'')) sealed = Inr bytes \<and>
      read_request toy_read_auth bytes = Some (''a.aleo/main'', None, True)"
    using o(3) [of "replicate 32 (CHR ''a'')"] unfolding pub pk pubkey_response.simps hx by blast
  show ?thesis
    using s o(2) opened unfolding pk pubkey_response.simps by blast
qed

end
