(* ===== verification/Spec2Isabelle.thy ===== *)
theory Spec2Isabelle
  imports Batch_Refinement Block_Iterator Retry_Reference JWT_Mutex Private_Execution
    Bridge_Account Bridge_Hash Bridge_Submit
begin

text \<open>
  A verification development for \<open>provable-sdk\<close>, the Go SDK for the Aleo network. The SDK manages keys,
  queries a node over REST, obtains authorizations and proofs from snarkVM (a Rust library behind a
  C interface) and from Provable's delegated proving service, and broadcasts transactions. The
  development models its Go code and the Rust library behind it by functions on an explicit world,
  and proves what a user of the SDK relies on.

  The program and its theories.

  \<^item> The Go run-time as far as the SDK uses it. \<open>Go_Prelude\<close> (results as sums, bytes, 64-bit wrap-around, the
    interface \<open>codec\<close>), \<open>Go_Strings\<close> (\<open>strings\<close>, header names), \<open>Go_Strconv\<close>, \<open>Go_Encoding\<close> (base64,
    hex), \<open>Go_UTF8\<close>, \<open>Go_JSON\<close> and \<open>Go_JSON_Encode\<close> (\<open>encoding/json\<close>: the parser with its nesting
    limit, struct decoding with case folding, the escaping encoder, and the round trip of string
    lists that crosses the C boundary).
  \<^item> \<open>SDK_Types\<close> models \<open>errors.go\<close> and \<open>types.go\<close>: errors are terms that keep how they were wrapped, so
    that \<open>errors.Is\<close> is a function; requests and responses are records with their JSON decoders.
  \<^item> \<open>SDK_World\<close>: the clock and the history of events (requests with their outcomes, waits, random bytes,
    library calls), and the environment that answers them from the history. Theorems hold for
    every environment, unless they name what they assume of it.
  \<^item> \<open>FFI_Bridge\<close> models \<open>internal/ffi/bridge.go\<close>, \<open>crypto.go\<close>, \<open>program.go\<close> and \<open>record.go\<close>, with the
    text convention of \<open>rust-bridge/src/helpers.rs\<close> on the other side.
  \<^item> \<open>Account\<close> models \<open>account.go\<close> and \<open>zeroize_secret.go\<close> over a memory of byte arrays, because zeroing is
    about arrays that are shared: every byte slice that \<open>account.go\<close> creates has its array, temporaries
    included, and so has the string made of a decrypted private key; \<open>Sealed_Box\<close> models \<open>security.go\<close>.
  \<^item> \<open>Retry\<close>: the shape of the two retry loops and their back-off, with the contract \<open>retry_body\<close> of a loop
    body. \<open>Network_Client\<close> models \<open>network_client.go\<close> and \<open>aleo.go\<close>, \<open>Block_Iterator\<close> the iterator of
    \<open>network_client.go\<close> against the interface \<open>stream_iterator\<close>, \<open>Provable_Client\<close> models
    \<open>provable_client.go\<close>. \<open>Retry_Reference\<close> gives both retry loops a reference without a loop, a function
    of the answers of the server, and proves them equal to it in what they return, how many requests
    they send and how long they wait. \<open>JWT_Mutex\<close> lets any number of goroutines
    call \<open>GetJWT\<close> on one client.
  \<^item> \<open>Import_Resolver\<close> and \<open>Authorization_Builder\<close> model \<open>authorization.go\<close>: the depth-first resolution of
    imports over the interfaces \<open>stateful_fetch\<close> and its extension \<open>program_source\<close>, which the cached fetch
    implements.
  \<^item> \<open>Program_Manager\<close> models \<open>program_manager.go\<close> except \<open>ExecuteBatch\<close>, whose goroutines \<open>Execute_Batch\<close> models
    by a step relation. \<open>Batch_Refinement\<close> gives the batch a specification, a pool of jobs, and proves by a
    refinement mapping (the locales \<open>refinement_map\<close> and \<open>exact_refinement\<close>) that it has exactly the
    pool's behaviours. \<open>Manager_Runs\<close> follows a manager through every sequence of its operations.
    \<open>Private_Execution\<close> bounds what an operation sends by a predicate on requests, and shows what leaves the
    process in an execution with DPS privacy.
  \<^item> \<open>Rust_Bridge\<close> models the exported functions of \<open>rust-bridge/src\<close> over snarkVM, \<open>serde_json\<close> and \<open>base64\<close>,
    which are records of functions. \<open>with_rust\<close> puts this library under the Go program in place of the
    unknown C functions of an environment. \<open>Rust_Contracts\<close> states the documented laws of those crates
    and what an outcome of a Rust function is in Go; \<open>Bridge_Account\<close>, \<open>Bridge_Hash\<close>, \<open>Bridge_Authorize\<close> and
    \<open>Bridge_Submit\<close> are the properties that cross the two languages, and \<open>Bridge_Sample\<close> has a small
    snarkVM with all the laws, at which they are applied.

  State and operations. A Go method becomes a function of the receiver, the environment, the context
  and the world that returns its result (\<open>Inl\<close> for an error) and the new world; a method that mutates
  its receiver also returns the new receiver. Nil slices, pointers and maps are \<open>None\<close>. Option
  functions are functions on records. Loops that may not end (\<open>poll_transaction\<close>, \<open>collect\<close>) are partial
  functions, not returning is \<open>None\<close>, and their termination is proved under stated conditions. The retry
  loops run on a count that is computed from \<open>maxRetries\<close>, as in the code; \<open>drain\<close> stands for a caller's
  loop and takes a bound, for which every number above the number of blocks is enough.

  What the lemmas show. \<open>later\<close>, \<open>forward\<close> and \<open>sends\<close> lemmas: how operations extend the history and how many
  requests they send. The locales: injectivity of encoders, cost and end of retry loops, draining of
  iterators, soundness, order, completeness and termination of import resolution. The properties state the
  correctness of each component on top of them; those that span components are in this theory.

  Not modelled. snarkVM, its serialisations and the cryptographic primitives are parameters with their
  documented laws as hypotheses: a snarkVM type parses back from its text, an authorization from its
  JSON and its bytes, a program is accepted once what it imports is loaded, a signature verifies for
  the address of its key, errors have messages. \<open>aleo_free_string\<close> and the allocation of C strings, the
  buffers that library functions allocate for themselves, log output, connection pooling and the finalizer that calls \<open>Zeroize\<close> have no counterpart. Concurrent use
  of one client is modelled for the JWT cache (\<open>JWT_Mutex\<close>) and for the batch, whose calls find the
  manager's caches as others left them and answers that may follow the events of others; within one
  operation the clients are sequential. The exponent of a back-off beyond 62 is left to the
  environment, as Go leaves that conversion to the platform. Examples, tests and the build are left out.
\<close>

section \<open>Properties that span components\<close>

text \<open>C31: After \<open>Zeroize\<close> an account cannot be used: a manager whose account was zeroized, and whose options
  bring no key of their own, fails with \<open>ErrNoPrivateKey\<close> before anything is sent or signed, whatever the
  memory held.\<close>

theorem zeroized_manager_cannot_sign:
  assumes "pm_account pm = Some (fst (zeroize a s))" and "pm_provable_client pm \<noteq> None"
    and "po_private_key opts = []"
  shows "ExecuteViaDPS E B pm c opts s' =
      Some ((Inl (Wrapf ''build authorization'' ErrNoPrivateKey), pm), s') \<and>
    PM_BuildAuthorization E pm c opts s' = Some ((Inl ErrNoPrivateKey, pm), s')"
proof -
  have "signing_key pm opts m = []" for m
    using assms(1,3) by (simp add: signing_key_def PrivateKey_def slice_get_def zeroize_sel)
  then have "PM_BuildAuthorization E pm c opts s' = Some ((Inl ErrNoPrivateKey, pm), s')"
    by (simp add: PM_BuildAuthorization_def)
  with assms(2) show ?thesis
    by (auto simp: ExecuteViaDPS_def with_proving_service_def BuildProvingRequest_def)
qed

theorem zeroized_manager_cannot_sign_witness:
  "PM_BuildAuthorization exec_env (ready_manager\<lparr>pm_account := Some (fst (zeroize toy_account start_state))\<rparr>)
     background claim_unbonded_options start_state =
   Some ((Inl ErrNoPrivateKey, ready_manager\<lparr>pm_account := Some (fst (zeroize toy_account start_state))\<rparr>),
     start_state)"
proof -
  let ?pm = "ready_manager\<lparr>pm_account := Some (fst (zeroize toy_account start_state))\<rparr>"
  have "ExecuteViaDPS exec_env toy_box ?pm background claim_unbonded_options start_state =
      Some ((Inl (Wrapf ''build authorization'' ErrNoPrivateKey), ?pm), start_state) \<and>
    PM_BuildAuthorization exec_env ?pm background claim_unbonded_options start_state =
      Some ((Inl ErrNoPrivateKey, ?pm), start_state)"
    by (rule zeroized_manager_cannot_sign)
      (simp_all add: ready_manager_def claim_unbonded_options_def call_options_def)
  then show ?thesis ..
qed

lemma poll_confirmed:
  assumes "WaitForTransaction E nc c txid poll w = Some (Inr tx, w')"
  shows "\<exists>rs h. rs_status rs = 200 \<and> unmarshal dec_transaction (rs_body rs) = Some tx \<and>
    hist w' = Ev_Http (get_request nc (api_url nc (''/transaction/'' @ txid))) (Reply rs) # h"
proof -
  obtain v where "GetTransaction E nc c txid v = (Inr tx, w')"
    using poll_result [OF assms [unfolded WaitForTransaction_def]] by auto
  then show ?thesis by (rule GetTransaction_ok)
qed

lemma pm_network_client_kept:
  assumes "with_proving_service E pm c opts submit s = Some ((r, pm'), s')"
  shows "pm_network_client pm' = pm_network_client pm"
  using assms
  by (auto simp: with_proving_service_def BuildProvingRequest_def PM_BuildAuthorization_def Let_def
      split: option.splits prod.splits sum.splits if_splits)

text \<open>C28: \<open>ExecuteAndWait\<close> only returns a confirmed transaction: the id came out of a successful execution
  with the requested options, and the final event is a 200 reply of the manager's node to the query for
  this very id, from which the transaction was decoded.\<close>

theorem execute_and_wait_confirmed:
  assumes "ExecuteAndWait E B pm c program fn poll os s = Some ((Inr tx, pm'), s')"
  shows "\<exists>txid s1 rs h.
    ExecuteViaDPS E B pm c (apply_options os (call_options program fn None True)) s =
      Some ((Inr txid, pm'), s1) \<and>
    rs_status rs = 200 \<and> unmarshal dec_transaction (rs_body rs) = Some tx \<and>
    hist (st_world s') = Ev_Http (get_request (pm_network_client pm)
      (api_url (pm_network_client pm) (''/transaction/'' @ txid))) (Reply rs) # h"
proof -
  obtain txid s1 w where
    ex: "ExecuteViaDPS E B pm c (apply_options os (call_options program fn None True)) s =
      Some ((Inr txid, pm'), s1)"
    and wait: "WaitForTransaction E (pm_network_client pm') c txid poll (st_world s1) = Some (Inr tx, w)"
    and s': "s' = s1\<lparr>st_world := w\<rparr>"
    using assms
    by (auto simp: ExecuteAndWait_def split: option.splits prod.splits sum.splits)
  have nc: "pm_network_client pm' = pm_network_client pm"
    using ex unfolding ExecuteViaDPS_def by (rule pm_network_client_kept)
  from poll_confirmed [OF wait [unfolded nc]] obtain rs h where
    "rs_status rs = 200" "unmarshal dec_transaction (rs_body rs) = Some tx"
    "hist w = Ev_Http (get_request (pm_network_client pm)
      (api_url (pm_network_client pm) (''/transaction/'' @ txid))) (Reply rs) # h"
    by blast
  with ex s' show ?thesis by auto
qed

theorem execute_and_wait_confirmed_witness:
  "\<exists>pm' s' rs h. ExecuteAndWait exec_env toy_box ready_manager background ''b.aleo'' ''main'' 0
      [WithPrivateKey ''APrivateKey1''] start_state = Some ((Inr zero_transaction, pm'), s') \<and>
    rs_status rs = 200 \<and>
    hist (st_world s') = Ev_Http (get_request sample_client
      (api_url sample_client ''/transaction/at1xyz'')) (Reply rs) # h"
proof -
  let ?rs = "\<lparr>rs_status = 200, rs_headers = [(''Authorization'', ''tok'')], rs_body = tx_json\<rparr>"
  have opts: "apply_options [WithPrivateKey ''APrivateKey1''] (call_options ''b.aleo'' ''main'' None True) =
      sample_opts"
    by (simp add: apply_options_def WithPrivateKey_def call_options_def sample_opts_def)
  obtain pm1 s1 where ex: "ExecuteViaDPS exec_env toy_box ready_manager background sample_opts start_state =
      Some ((Inr ''at1xyz'', pm1), s1)"
    using exec_env_executes by blast
  have nc: "pm_network_client pm1 = sample_client"
    using pm_network_client_kept [OF ex [unfolded ExecuteViaDPS_def]] by (simp add: ready_manager_def)
  have "unmarshal dec_transaction tx_json = Some zero_transaction" by code_simp
  moreover have "nc_get exec_env sample_client background (api_url sample_client ''/transaction/at1xyz'')
      (st_world s1) = (if rs_status ?rs = 200 then Inr (Some (rs_body ?rs)) else Inl (http_error ?rs),
       snd (http_do exec_env (get_request sample_client (api_url sample_client ''/transaction/at1xyz''))
         (st_world s1)))"
    by (rule get_definitive) (simp_all add: exec_env_def dps_env_def sample_defs retryable_def)
  ultimately have "\<exists>w. GetTransaction exec_env sample_client background ''at1xyz'' (st_world s1) =
      (Inr zero_transaction, w)"
    by (simp add: GetTransaction_def query_def decode_json_def raw_string_def)
  then obtain w where "WaitForTransaction exec_env (pm_network_client pm1) background ''at1xyz'' 0
      (st_world s1) = Some (Inr zero_transaction, w)"
    by (auto simp: nc WaitForTransaction_def poll_transaction.simps)
  then have e: "ExecuteAndWait exec_env toy_box ready_manager background ''b.aleo'' ''main'' 0
      [WithPrivateKey ''APrivateKey1''] start_state = Some ((Inr zero_transaction, pm1), s1\<lparr>st_world := w\<rparr>)"
    by (simp add: ExecuteAndWait_def opts ex)
  from execute_and_wait_confirmed [OF e] e ex opts show ?thesis
    by (auto simp: ready_manager_def)
qed

end
